(* ===== verification/Prelude.thy ===== *)
theory Prelude
  imports Main "HOL-Library.Word" "HOL-Library.Multiset" "HOL-Library.Sublist"
begin

text \<open>
  Shared vocabulary of the development: the machine integer types of the Rust code, the outcome of
  a Rust call (a value, an error value, or a panic), the hint collections the component proofs use,
  and generic lemmas on lists that several components need.
\<close>

section \<open>Machine types\<close>

type_synonym u8 = "8 word"
type_synonym u32 = "32 word"
type_synonym u64 = "64 word"

text \<open>A sequence of bytes: the contents of a file, or a buffer.\<close>

type_synonym bytes = "u8 list"

text \<open>\<open>u64::saturating_add\<close>, used by the identifier high-water mark.\<close>

definition saturating_succ :: "u64 \<Rightarrow> u64" where
  "saturating_succ x = (if x = - 1 then x else x + 1)"

section \<open>Outcomes of a Rust call\<close>

text \<open>
  \<open>Ok\<close> and \<open>Err\<close> are the constructors of \<open>Result\<close>; \<open>Panic\<close> is a call that unwinds
  (a failed \<open>unwrap\<close>, a slice index out of range, an arithmetic overflow of a checked operation).
\<close>

datatype ('e, 'a) outcome = Ok 'a | Err 'e | Panic

fun obind :: "('e, 'a) outcome \<Rightarrow> ('a \<Rightarrow> ('e, 'b) outcome) \<Rightarrow> ('e, 'b) outcome" where
  "obind (Ok x) f = f x"
| "obind (Err e) f = Err e"
| "obind Panic f = Panic"

text \<open>\<open>Result::map_err\<close>.\<close>

fun map_err :: "('e \<Rightarrow> 'f) \<Rightarrow> ('e, 'a) outcome \<Rightarrow> ('f, 'a) outcome" where
  "map_err g (Ok x) = Ok x"
| "map_err g (Err e) = Err (g e)"
| "map_err g Panic = Panic"

text \<open>A call whose result is used as a value: only a panic can stop it.\<close>

fun no_err :: "('e, 'a) outcome \<Rightarrow> ('f, 'a) outcome" where
  "no_err (Ok x) = Ok x"
| "no_err (Err e) = Panic"
| "no_err Panic = Panic"

text \<open>A loop \<open>for x in xs { s = f(s, x)?; }\<close>: stops at the first error or panic.\<close>

fun ofold :: "('s \<Rightarrow> 'a \<Rightarrow> ('e, 's) outcome) \<Rightarrow> 's \<Rightarrow> 'a list \<Rightarrow> ('e, 's) outcome" where
  "ofold f s [] = Ok s"
| "ofold f s (x # xs) = obind (f s x) (\<lambda>s'. ofold f s' xs)"

named_theorems outcome_iff \<open>when a sequenced outcome is a value\<close>
named_theorems codec_simps \<open>equations of encoders and decoders\<close>
named_theorems float_simps \<open>equations of the binary32 operations\<close>

lemma obind_Ok_iff [outcome_iff]:
  "obind m f = Ok y \<longleftrightarrow> (\<exists>x. m = Ok x \<and> f x = Ok y)"
  by (cases m) auto

lemma obind_Err_iff [outcome_iff]:
  "obind m f = Err e \<longleftrightarrow> m = Err e \<or> (\<exists>x. m = Ok x \<and> f x = Err e)"
  by (cases m) auto

lemma obind_Panic_iff [outcome_iff]:
  "obind m f = Panic \<longleftrightarrow> m = Panic \<or> (\<exists>x. m = Ok x \<and> f x = Panic)"
  by (cases m) auto

lemma obind_assoc: "obind (obind m f) g = obind m (\<lambda>x. obind (f x) g)"
  by (cases m) auto

lemma obind_Ok_right [simp]: "obind m Ok = m"
  by (cases m) auto

lemma obind_cong [fundef_cong]:
  "m = m' \<Longrightarrow> (\<And>x. m' = Ok x \<Longrightarrow> f x = f' x) \<Longrightarrow> obind m f = obind m' f'"
  by (cases m') auto

lemma map_err_Ok_iff [outcome_iff]: "map_err g m = Ok x \<longleftrightarrow> m = Ok x"
  by (cases m) auto

lemma map_err_Panic_iff [outcome_iff]: "map_err g m = Panic \<longleftrightarrow> m = Panic"
  by (cases m) auto

lemma ofold_append: "ofold f s (xs @ ys) = obind (ofold f s xs) (\<lambda>s'. ofold f s' ys)"
  by (induction xs arbitrary: s) (auto simp: obind_assoc)

text \<open>The rule for a loop that cannot stop early: it runs as the pure fold.\<close>

lemma ofold_total:
  assumes "\<And>s x. x \<in> set xs \<Longrightarrow> f s x = Ok (g s x)"
  shows "ofold f s xs = Ok (foldl g s xs)"
  using assms by (induction xs arbitrary: s) auto

text \<open>The loop rule: an invariant kept by every successful iteration holds at the end.\<close>

lemma ofold_invariant:
  assumes "ofold f s xs = Ok t" and "P s"
    and "\<And>s x s'. x \<in> set xs \<Longrightarrow> P s \<Longrightarrow> f s x = Ok s' \<Longrightarrow> P s'"
  shows "P t"
  using assms by (induction xs arbitrary: s) (auto simp: outcome_iff)

text \<open>\<open>iter().map(f).collect()\<close> where a call of \<open>f\<close> may stop.\<close>

fun omap :: "('a \<Rightarrow> ('e, 'b) outcome) \<Rightarrow> 'a list \<Rightarrow> ('e, 'b list) outcome" where
  "omap f [] = Ok []"
| "omap f (x # xs) = obind (f x) (\<lambda>y. obind (omap f xs) (\<lambda>ys. Ok (y # ys)))"

lemma omap_total: "(\<And>x. x \<in> set xs \<Longrightarrow> f x = Ok (g x)) \<Longrightarrow> omap f xs = Ok (map g xs)"
  by (induction xs) auto

section \<open>Calls that return unless they panic\<close>

text \<open>\<open>yields c m P\<close>: the call returns a value that satisfies \<open>P\<close>, except that it may panic when the
  condition \<open>c\<close> fails; it never gives an error value. The rules compose it along the code.\<close>

definition yields :: "bool \<Rightarrow> ('e, 'a) outcome \<Rightarrow> ('a \<Rightarrow> bool) \<Rightarrow> bool" where
  "yields c m P = (case m of Ok x \<Rightarrow> P x | Err e \<Rightarrow> False | Panic \<Rightarrow> \<not> c)"

lemma yields_Ok [simp]: "yields c (Ok x) P = P x"
  by (simp add: yields_def)

lemma yields_Panic [simp]: "yields c Panic P = (\<not> c)"
  by (simp add: yields_def)

lemma yields_bind:
  "yields c m P \<Longrightarrow> (\<And>x. P x \<Longrightarrow> yields c (f x) Q) \<Longrightarrow> yields c (obind m f) Q"
  by (cases m) (auto simp: yields_def)

lemma yields_mono: "yields c m P \<Longrightarrow> (\<And>x. P x \<Longrightarrow> Q x) \<Longrightarrow> yields c m Q"
  by (cases m) (auto simp: yields_def)

lemma yields_conj: "yields c m P \<Longrightarrow> yields c m Q \<Longrightarrow> yields c m (\<lambda>x. P x \<and> Q x)"
  by (cases m) (auto simp: yields_def)

lemma yields_total: "yields True m P \<Longrightarrow> \<exists>x. m = Ok x \<and> P x"
  by (cases m) (auto simp: yields_def)

lemma yields_value: "yields c m P \<Longrightarrow> m = Ok x \<Longrightarrow> P x"
  by simp

text \<open>The loop rule, with the elements already passed in the invariant.\<close>

lemma yields_ofold:
  assumes "I [] s"
    and "\<And>pre x suf s. xs = pre @ x # suf \<Longrightarrow> I pre s \<Longrightarrow> yields c (f s x) (I (pre @ [x]))"
  shows "yields c (ofold f s xs) (I xs)"
proof -
  have "yields c (ofold f s suf) (I xs)" if "xs = pre @ suf" "I pre s" for pre suf s
    using that
  proof (induction suf arbitrary: pre s)
    case Nil
    then show ?case by simp
  next
    case (Cons x suf)
    then show ?case using assms(2) [of pre x suf s] Cons.IH [of "pre @ [x]"]
      by (auto intro: yields_bind)
  qed
  then show ?thesis using assms(1) by fastforce
qed

section \<open>Stateful calls that may fail\<close>

text \<open>A method on \<open>&mut self\<close> gives the new state even when it fails; the \<open>?\<close> operator continues
  with the state and the value of a call that succeeded.\<close>

fun and_then ::
  "'s \<times> ('e, 'a) outcome \<Rightarrow> ('s \<Rightarrow> 'a \<Rightarrow> 's \<times> ('e, 'b) outcome) \<Rightarrow> 's \<times> ('e, 'b) outcome" where
  "and_then (s, Ok x) f = f s x"
| "and_then (s, Err e) f = (s, Err e)"
| "and_then (s, Panic) f = (s, Panic)"

text \<open>The kinds of \<open>io::Error\<close> the code distinguishes.\<close>

datatype io_error = IoNotFound | IoUnexpectedEof | IoInvalidData | IoOther nat

section \<open>Lists\<close>

lemma take_sorted_key:
  "sorted (map f xs) \<Longrightarrow> sorted (map f (take k xs))"
  by (simp add: take_map [symmetric])

text \<open>In a sorted list, what is cut off by \<open>truncate\<close> is no smaller than what is kept.\<close>

lemma sorted_take_le_drop:
  assumes "sorted (map f xs)" "x \<in> set (take k xs)" "y \<in> set (drop k xs)"
  shows "f x \<le> f y"
proof -
  have "sorted (map f (take k xs) @ map f (drop k xs))"
    using assms(1) by (metis append_take_drop_id map_append)
  then show ?thesis
    using assms(2,3) by (auto simp: sorted_append)
qed

lemma in_set_tl: "x \<in> set (tl xs) \<Longrightarrow> x \<in> set xs"
  by (cases xs) auto

lemma mset_eq_set: "mset xs = mset ys \<Longrightarrow> set xs = set ys"
  by (metis set_mset_mset)

lemma mset_eq_len: "mset xs = mset ys \<Longrightarrow> length xs = length ys"
  by (metis size_mset)

lemma mset_filter_split: "mset xs = mset (filter (\<lambda>x. \<not> P x) xs) + mset (filter P xs)"
  by (induction xs) auto

lemma find_append_option: "find P (xs @ ys) = (case find P xs of None \<Rightarrow> find P ys | Some x \<Rightarrow> Some x)"
  by (induction xs) auto

lemma foldl_insert_set: "foldl (\<lambda>s x. insert x s) S xs = S \<union> set xs"
  by (induction xs arbitrary: S) auto

end
