(* ===== verification/Float32.thy ===== *)
theory Float32
  imports Prelude
begin

text \<open>
  Rust's \<open>f32\<close>: IEEE 754 binary32 with rounding to nearest, ties to even. A value is its 32-bit
  pattern, because the storage code writes and reads the patterns. Arithmetic is exact arithmetic on
  integers, in units of \<open>2 ^ -149\<close> (the least positive subnormal), followed by one rounding. Every
  operation that yields a NaN yields the canonical quiet NaN; the code never looks at a NaN's payload.
\<close>

section \<open>Bit patterns\<close>

type_synonym f32 = "32 word"

abbreviation inf_mag :: nat where
  "inf_mag \<equiv> 2139095040"

definition f_sign :: "f32 \<Rightarrow> bool" where
  "f_sign x = (2147483648 \<le> unat x)"

definition f_mag :: "f32 \<Rightarrow> nat" where
  "f_mag x = unat x mod 2147483648"

definition f_make :: "bool \<Rightarrow> nat \<Rightarrow> f32" where
  "f_make s m = word_of_nat ((if s then 2147483648 else 0) + m)"

definition is_nan :: "f32 \<Rightarrow> bool" where
  "is_nan x = (inf_mag < f_mag x)"

definition is_inf :: "f32 \<Rightarrow> bool" where
  "is_inf x = (f_mag x = inf_mag)"

definition is_finite :: "f32 \<Rightarrow> bool" where
  "is_finite x = (f_mag x < inf_mag)"

definition f_nan :: f32 where "f_nan = 2143289344"
definition f_inf :: f32 where "f_inf = 2139095040"
definition f_neg_inf :: f32 where "f_neg_inf = 4286578688"
definition f_zero :: f32 where "f_zero = 0"
definition f_one :: f32 where "f_one = 1065353216"
definition f_two :: f32 where "f_two = 1073741824"
definition f_epsilon :: f32 where "f_epsilon = 872415232"

lemma unat_f32_lt: "unat (x :: f32) < 4294967296"
  using unsigned_less [of x] by simp

lemma unat_f_make:
  "m < 2147483648 \<Longrightarrow> unat (f_make s m) = (if s then 2147483648 else 0) + m"
  unfolding f_make_def by (subst unat_of_nat) simp

lemma f_make_sign [simp]: "m < 2147483648 \<Longrightarrow> f_sign (f_make s m) = s"
  by (simp add: f_sign_def unat_f_make)

lemma f_make_mag [simp]: "m < 2147483648 \<Longrightarrow> f_mag (f_make s m) = m"
  by (simp add: f_mag_def unat_f_make)

lemma f_make_split: "f_make (f_sign x) (f_mag x) = x"
proof -
  have "(if f_sign x then 2147483648 else 0) + f_mag x = unat x"
    using unat_f32_lt [of x] by (simp add: f_sign_def f_mag_def le_mod_geq)
  then show ?thesis unfolding f_make_def by (simp only: of_nat_unat ucast_id)
qed

lemma f_mag_lt: "f_mag x < 2147483648"
  unfolding f_mag_def by (rule mod_less_divisor) simp

lemma f32_eqI: "f_sign x = f_sign y \<Longrightarrow> f_mag x = f_mag y \<Longrightarrow> x = y"
proof -
  assume "f_sign x = f_sign y" "f_mag x = f_mag y"
  then have "f_make (f_sign x) (f_mag x) = f_make (f_sign y) (f_mag y)" by (rule arg_cong2)
  then show "x = y" by (simp only: f_make_split)
qed

lemma finite_not_nan: "is_finite x \<Longrightarrow> \<not> is_nan x"
  by (simp add: is_finite_def is_nan_def)

lemma f_class: "is_nan x \<or> is_inf x \<or> is_finite x"
  by (auto simp: is_nan_def is_inf_def is_finite_def)

section \<open>Comparison\<close>

text \<open>
  Two values that are not NaN compare as their keys: the magnitude with the sign, so that the two
  zeros are equal. \<open>partial_cmp\<close> is \<open>None\<close> as soon as one side is a NaN.
\<close>

definition f_key :: "f32 \<Rightarrow> int" where
  "f_key x = (if f_sign x then - int (f_mag x) else int (f_mag x))"

definition f_lt :: "f32 \<Rightarrow> f32 \<Rightarrow> bool" where
  "f_lt a b = (\<not> is_nan a \<and> \<not> is_nan b \<and> f_key a < f_key b)"

definition f_le :: "f32 \<Rightarrow> f32 \<Rightarrow> bool" where
  "f_le a b = (\<not> is_nan a \<and> \<not> is_nan b \<and> f_key a \<le> f_key b)"

lemma f_key_bounds: "- 2147483648 < f_key x" "f_key x < 2147483648"
  using f_mag_lt [of x] by (simp_all add: f_key_def)

text \<open>\<open>f32::max\<close> returns the other argument when one is a NaN.\<close>

definition f_max :: "f32 \<Rightarrow> f32 \<Rightarrow> f32" where
  "f_max a b = (if is_nan a then b else if is_nan b then a else if f_lt a b then b else a)"

text \<open>\<open>f32::clamp\<close> keeps a NaN.\<close>

definition f_clamp :: "f32 \<Rightarrow> f32 \<Rightarrow> f32 \<Rightarrow> f32" where
  "f_clamp x lo hi =
     (let y = (if f_lt x lo then lo else x) in if f_lt hi y then hi else y)"

section \<open>Magnitudes as integers and rounding\<close>

text \<open>The value of a finite magnitude, in units of \<open>2 ^ -149\<close>.\<close>

definition mag_val :: "nat \<Rightarrow> nat" where
  "mag_val m = (if m div 8388608 = 0 then m
                else (m mod 8388608 + 8388608) * 2 ^ (m div 8388608 - 1))"

fun bit_len :: "nat \<Rightarrow> nat" where
  "bit_len n = (if n = 0 then 0 else Suc (bit_len (n div 2)))"

declare bit_len.simps [simp del]

text \<open>Division rounded to nearest, ties to even.\<close>

definition div_even :: "nat \<Rightarrow> nat \<Rightarrow> nat" where
  "div_even n d =
     (let q = n div d; r = n mod d in
      if d < 2 * r \<or> (d = 2 * r \<and> odd q) then q + 1 else q)"

text \<open>
  The magnitude nearest to \<open>n / d\<close> units: keep 24 significant bits, round, and place the result so
  that a carry moves to the next exponent; past the largest finite value it is the infinity.
\<close>

definition round_mag :: "nat \<Rightarrow> nat \<Rightarrow> nat" where
  "round_mag n d =
     (let e = bit_len (n div d) - 24 in
      min inf_mag (e * 8388608 + div_even n (d * 2 ^ e)))"

section \<open>Arithmetic\<close>

definition f_val :: "f32 \<Rightarrow> int" where
  "f_val x = (if f_sign x then - int (mag_val (f_mag x)) else int (mag_val (f_mag x)))"

definition f_neg :: "f32 \<Rightarrow> f32" where
  "f_neg x = f_make (\<not> f_sign x) (f_mag x)"

definition f_add :: "f32 \<Rightarrow> f32 \<Rightarrow> f32" where
  "f_add a b =
     (if is_nan a \<or> is_nan b then f_nan
      else if is_inf a \<and> is_inf b then (if f_sign a = f_sign b then a else f_nan)
      else if is_inf a then a
      else if is_inf b then b
      else let s = f_val a + f_val b in
        if s = 0 then f_make (f_sign a \<and> f_sign b) 0
        else f_make (s < 0) (round_mag (nat \<bar>s\<bar>) 1))"

definition f_sub :: "f32 \<Rightarrow> f32 \<Rightarrow> f32" where
  "f_sub a b = f_add a (f_neg b)"

definition f_mul :: "f32 \<Rightarrow> f32 \<Rightarrow> f32" where
  "f_mul a b =
     (let s = (f_sign a \<noteq> f_sign b) in
      if is_nan a \<or> is_nan b then f_nan
      else if is_inf a \<or> is_inf b
        then (if f_mag a = 0 \<or> f_mag b = 0 then f_nan else f_make s inf_mag)
      else f_make s (round_mag (mag_val (f_mag a) * mag_val (f_mag b)) (2 ^ 149)))"

definition f_div :: "f32 \<Rightarrow> f32 \<Rightarrow> f32" where
  "f_div a b =
     (let s = (f_sign a \<noteq> f_sign b) in
      if is_nan a \<or> is_nan b then f_nan
      else if is_inf a then (if is_inf b then f_nan else f_make s inf_mag)
      else if is_inf b then f_make s 0
      else if f_mag b = 0 then (if f_mag a = 0 then f_nan else f_make s inf_mag)
      else f_make s (round_mag (mag_val (f_mag a) * 2 ^ 149) (mag_val (f_mag b))))"

text \<open>The integer square root, two bits at a time.\<close>

definition isqrt_step :: "nat \<Rightarrow> nat \<Rightarrow> nat" where
  "isqrt_step n r = (if (2 * r + 1) * (2 * r + 1) \<le> n then 2 * r + 1 else 2 * r)"

fun isqrt :: "nat \<Rightarrow> nat" where
  "isqrt n = (if n = 0 then 0 else isqrt_step n (isqrt (n div 4)))"

declare isqrt.simps [simp del]

text \<open>
  The square root of \<open>v\<close> units is \<open>sqrt (v * 2 ^ 149)\<close> units, at least \<open>2 ^ 74\<close> of them; the last
  digit handed to the rounding says whether the root is exact.
\<close>

definition sticky :: "nat \<Rightarrow> nat \<Rightarrow> nat" where
  "sticky n r = (if r * r = n then 2 * r else 2 * r + 1)"

definition sqrt_mag :: "nat \<Rightarrow> nat" where
  "sqrt_mag n = round_mag (sticky n (isqrt n)) 2"

definition f_sqrt :: "f32 \<Rightarrow> f32" where
  "f_sqrt x =
     (if is_nan x then f_nan
      else if f_mag x = 0 then x
      else if f_sign x then f_nan
      else if is_inf x then x
      else f_make False (sqrt_mag (mag_val (f_mag x) * 2 ^ 149)))"

section \<open>Conversions\<close>

text \<open>\<open>as f32\<close> from an unsigned and from a signed integer.\<close>

definition f_of_nat :: "nat \<Rightarrow> f32" where
  "f_of_nat n = f_make False (round_mag (n * 2 ^ 149) 1)"

definition f_of_int :: "int \<Rightarrow> f32" where
  "f_of_int i = f_make (i < 0) (round_mag (nat \<bar>i\<bar> * 2 ^ 149) 1)"

text \<open>\<open>as usize\<close>: truncation towards zero, saturating; a NaN becomes 0.\<close>

definition f_to_usize :: "f32 \<Rightarrow> nat" where
  "f_to_usize x =
     (if is_nan x \<or> f_sign x then 0
      else if is_inf x then 2 ^ 64 - 1
      else min (2 ^ 64 - 1) (mag_val (f_mag x) div 2 ^ 149))"

definition f_floor :: "f32 \<Rightarrow> f32" where
  "f_floor x =
     (if is_nan x then f_nan else if is_inf x \<or> f_mag x = 0 then x
      else f_make (f_sign x)
        (round_mag
          ((mag_val (f_mag x) div 2 ^ 149 +
            (if f_sign x \<and> mag_val (f_mag x) mod 2 ^ 149 \<noteq> 0 then 1 else 0)) * 2 ^ 149) 1))"

definition f_ceil :: "f32 \<Rightarrow> f32" where
  "f_ceil x = f_neg (f_floor (f_neg x))"

section \<open>Evaluation rules\<close>

lemma bit_len_0 [float_simps]: "bit_len 0 = 0"
  by (simp add: bit_len.simps)

lemma bit_len_1 [float_simps]: "bit_len (Suc 0) = 1"
  by (simp add: bit_len.simps)

lemma bit_len_numeral [float_simps]:
  "bit_len (numeral n) = Suc (bit_len (numeral n div 2))"
  by (subst bit_len.simps) simp

lemma isqrt_0 [float_simps]: "isqrt 0 = 0"
  by (simp add: isqrt.simps)

lemma isqrt_1 [float_simps]: "isqrt (Suc 0) = 1"
  by (subst isqrt.simps) (simp add: isqrt_0 isqrt_step_def)

lemma isqrt_numeral [float_simps]:
  "isqrt (numeral n) = isqrt_step (numeral n) (isqrt (numeral n div 4))"
  by (subst isqrt.simps) simp

text \<open>The bundle that evaluates an operation on closed bit patterns.\<close>

lemmas f_class_defs = is_nan_def is_inf_def is_finite_def f_mag_def f_sign_def f_key_def

lemmas f_const_defs = f_nan_def f_inf_def f_neg_inf_def f_zero_def f_one_def f_two_def f_epsilon_def

lemmas f_eval = f_add_def f_sub_def f_mul_def f_div_def f_neg_def f_val_def mag_val_def
  f_class_defs f_make_def round_mag_def div_even_def f_floor_def f_ceil_def f_of_nat_def f_of_int_def
  f_to_usize_def f_lt_def f_le_def f_max_def f_clamp_def isqrt_step_def float_simps Let_def

section \<open>The order of non-NaN values\<close>

lemma f_lt_irrefl [simp]: "\<not> f_lt a a"
  by (simp add: f_lt_def)

lemma f_lt_trans: "f_lt a b \<Longrightarrow> f_lt b c \<Longrightarrow> f_lt a c"
  by (simp add: f_lt_def)

lemma f_lt_linear: "\<not> is_nan a \<Longrightarrow> \<not> is_nan b \<Longrightarrow> f_lt a b \<or> f_key a = f_key b \<or> f_lt b a"
  by (auto simp: f_lt_def)

lemma f_clamp_range:
  assumes "\<not> is_nan x" "\<not> is_nan lo" "\<not> is_nan hi" "f_key lo \<le> f_key hi"
  shows "\<not> is_nan (f_clamp x lo hi)"
    and "f_key lo \<le> f_key (f_clamp x lo hi)" and "f_key (f_clamp x lo hi) \<le> f_key hi"
  using assms by (auto simp: f_clamp_def f_lt_def Let_def)

lemma f_clamp_nan: "is_nan x \<Longrightarrow> f_clamp x lo hi = x"
  by (simp add: f_clamp_def f_lt_def)

section \<open>Bit lengths and integer square roots\<close>

lemma bit_len_le_iff: "bit_len n \<le> k \<longleftrightarrow> n < 2 ^ k"
proof (induction n arbitrary: k rule: bit_len.induct)
  case (1 n)
  show ?case
  proof (cases "n = 0")
    case True
    then show ?thesis by (simp add: bit_len.simps)
  next
    case False
    show ?thesis
    proof (cases k)
      case 0
      with False show ?thesis by (simp add: bit_len.simps [of n])
    next
      case (Suc j)
      have "n div 2 < 2 ^ j \<longleftrightarrow> n < 2 ^ Suc j" by (auto simp: div_less_iff_less_mult)
      with 1 False Suc show ?thesis by (simp add: bit_len.simps [of n])
    qed
  qed
qed

lemma bit_len_mono: "m \<le> n \<Longrightarrow> bit_len m \<le> bit_len n"
  by (meson bit_len_le_iff le_less_trans order_refl)

lemma bit_len_ge_iff: "k < bit_len n \<longleftrightarrow> 2 ^ k \<le> n"
  using bit_len_le_iff [of n k] by auto

lemma isqrt_bounds: "isqrt n * isqrt n \<le> n \<and> n < (isqrt n + 1) * (isqrt n + 1)"
proof (induction n rule: isqrt.induct)
  case (1 n)
  show ?case
  proof (cases "n = 0")
    case True
    then show ?thesis by (simp add: isqrt.simps)
  next
    case False
    define r where "r = isqrt (n div 4)"
    have IH: "r * r \<le> n div 4" "n div 4 < (r + 1) * (r + 1)"
      using 1 False by (simp_all add: r_def)
    have lo: "2 * r * (2 * r) \<le> n" using IH(1) by (simp add: algebra_simps)
    have hi: "n < (2 * r + 2) * (2 * r + 2)" using IH(2) by (simp add: algebra_simps)
    have "isqrt n = isqrt_step n r" using False by (simp add: isqrt.simps [of n] r_def)
    then show ?thesis using lo hi by (simp add: isqrt_step_def algebra_simps)
  qed
qed

lemma isqrt_unique: "k * k \<le> n \<Longrightarrow> n < (k + 1) * (k + 1) \<Longrightarrow> isqrt n = k"
proof -
  assume k: "k * k \<le> n" "n < (k + 1) * (k + 1)"
  have "\<not> isqrt n < k"
  proof
    assume "isqrt n < k"
    then have "(isqrt n + 1) * (isqrt n + 1) \<le> k * k" by (intro mult_le_mono) simp_all
    with k(1) isqrt_bounds [of n] show False by linarith
  qed
  moreover have "\<not> k < isqrt n"
  proof
    assume "k < isqrt n"
    then have "(k + 1) * (k + 1) \<le> isqrt n * isqrt n" by (intro mult_le_mono) simp_all
    with k(2) isqrt_bounds [of n] show False by linarith
  qed
  ultimately show ?thesis by simp
qed

lemma isqrt_square [simp]: "isqrt (k * k) = k"
  by (rule isqrt_unique) (simp_all add: algebra_simps)

section \<open>Rounding is monotone and exact\<close>

lemma div_even_bounds: "n div d \<le> div_even n d" "div_even n d \<le> n div d + 1"
  by (simp_all add: div_even_def Let_def)

lemma div_even_mono:
  assumes "n \<le> n'" "0 < d" shows "div_even n d \<le> div_even n' d"
proof (cases "n div d = n' div d")
  case True
  have "n div d * d + n mod d \<le> n' div d * d + n' mod d"
    using assms(1) by (simp only: div_mult_mod_eq)
  with True have "n mod d \<le> n' mod d" by (simp only: nat_add_left_cancel_le)
  with True show ?thesis by (simp add: div_even_def Let_def)
next
  case False
  moreover have "n div d \<le> n' div d" using assms(1) by (rule div_le_mono)
  ultimately have "n div d + 1 \<le> n' div d" by linarith
  then show ?thesis using div_even_bounds [of n d] div_even_bounds [of n' d] by linarith
qed

lemma div_even_exact [simp]: "0 < d \<Longrightarrow> div_even (q * d) d = q"
  by (simp add: div_even_def Let_def)

lemma div_even_scale: "0 < k \<Longrightarrow> div_even (n * k) (d * k) = div_even n d"
proof -
  assume k: "0 < k"
  have "(n * k) mod (d * k) = (n mod d) * k" by (simp add: mult_mod_left)
  then show ?thesis using k by (simp add: div_even_def Let_def)
qed

lemma round_mag_le: "round_mag n d \<le> inf_mag"
  by (simp add: round_mag_def Let_def)

lemma round_mag_lt [simp]: "round_mag n d < 2147483648"
  using round_mag_le [of n d] by linarith

lemma round_mag_scale: "0 < k \<Longrightarrow> round_mag (n * k) (d * k) = round_mag n d"
  using div_even_scale [of k n "d * 2 ^ (bit_len (n div d) - 24)"]
  by (simp add: round_mag_def Let_def ac_simps)

lemma round_mag_mono:
  assumes le: "n \<le> n'" and d: "0 < d"
  shows "round_mag n d \<le> round_mag n' d"
proof -
  define e e' where "e = bit_len (n div d) - 24" and "e' = bit_len (n' div d) - 24"
  have ee: "e \<le> e'" using le by (simp add: e_def e'_def bit_len_mono div_le_mono diff_le_mono)
  have "e * 8388608 + div_even n (d * 2 ^ e) \<le> e' * 8388608 + div_even n' (d * 2 ^ e')"
  proof (cases "e = e'")
    case True
    then show ?thesis using div_even_mono [OF le, of "d * 2 ^ e"] d by simp
  next
    case False
    with ee have lt: "e + 1 \<le> e'" by simp
    have "bit_len (n div d) \<le> 24 + e" by (simp add: e_def)
    then have "n div d < 2 ^ (24 + e)" by (simp only: bit_len_le_iff)
    then have "n div (d * 2 ^ e) < 2 ^ 24"
      using d by (simp add: div_mult2_eq div_less_iff_less_mult power_add mult.commute)
    then have lo: "div_even n (d * 2 ^ e) \<le> 16777216"
      using div_even_bounds(2) [of n "d * 2 ^ e"] by simp
    have "2 ^ (23 + e') \<le> n' div d"
      using bit_len_ge_iff [of "23 + e'" "n' div d"] lt by (simp add: e'_def)
    then have "2 ^ 23 \<le> n' div d div 2 ^ e'"
      by (simp add: power_add less_eq_div_iff_mult_less_eq)
    then have hi: "8388608 \<le> div_even n' (d * 2 ^ e')"
      using div_even_bounds(1) [of n' "d * 2 ^ e'"] by (simp add: div_mult2_eq)
    show ?thesis using lo hi lt by linarith
  qed
  then show ?thesis by (simp add: round_mag_def Let_def e_def e'_def min_le_iff_disj)
qed

lemma mag_val_normal:
  "8388608 \<le> m \<Longrightarrow> mag_val m = (m mod 8388608 + 8388608) * 2 ^ (m div 8388608 - 1)"
proof -
  assume "8388608 \<le> m"
  then have "m div 8388608 \<noteq> 0" by (simp add: div_eq_0_iff)
  then show ?thesis by (simp add: mag_val_def)
qed

lemma round_mag_exact: "m \<le> inf_mag \<Longrightarrow> round_mag (mag_val m) 1 = m"
proof (cases "m < 8388608")
  case True
  then have "bit_len m \<le> 24" by (simp add: bit_len_le_iff)
  with True show ?thesis by (simp add: round_mag_def mag_val_def div_even_def)
next
  case False
  assume le: "m \<le> inf_mag"
  define q M where "q = m div 8388608 - 1" and "M = m mod 8388608 + 8388608"
  have m: "m = q * 8388608 + M"
    using False by (simp add: q_def M_def diff_mult_distrib)
  have v: "mag_val m = M * 2 ^ q" using False by (simp add: mag_val_normal q_def M_def)
  have M: "8388608 \<le> M" "M < 16777216" by (simp_all add: M_def)
  have "bit_len (M * 2 ^ q) \<le> 24 + q" using M by (simp add: bit_len_le_iff power_add)
  moreover have "23 + q < bit_len (M * 2 ^ q)" using M by (simp add: bit_len_ge_iff power_add)
  ultimately have "bit_len (M * 2 ^ q) - 24 = q" by linarith
  then have "round_mag (M * 2 ^ q) 1 = min inf_mag (q * 8388608 + M)"
    by (simp add: round_mag_def Let_def)
  then show ?thesis unfolding v using m le by simp
qed

lemma mag_val_mono_strict: "m < n \<Longrightarrow> mag_val m < mag_val n"
proof -
  have step: "mag_val m < mag_val (Suc m)" for m
  proof -
    consider "Suc m < 8388608" | "Suc m = 8388608" | "8388608 \<le> m" by linarith
    then show ?thesis
    proof cases
      case 3
      show ?thesis
      proof (cases "Suc (m mod 8388608) = 8388608")
        case True
        then have "Suc m div 8388608 = Suc (m div 8388608)" "Suc m mod 8388608 = 0"
          by (simp_all add: div_Suc mod_Suc)
        moreover from 3 have "1 \<le> m div 8388608" by simp
        ultimately show ?thesis using True 3
          by (cases "m div 8388608") (simp_all add: mag_val_normal)
      next
        case False
        then have "Suc m div 8388608 = m div 8388608" "Suc m mod 8388608 = Suc (m mod 8388608)"
          by (simp_all add: div_Suc mod_Suc)
        with 3 show ?thesis by (simp add: mag_val_normal)
      qed
    qed (simp_all add: mag_val_def)
  qed
  show "m < n \<Longrightarrow> mag_val m < mag_val n"
    by (rule lift_Suc_mono_less [of mag_val]) (rule step)
qed

lemma mag_val_mono: "m \<le> n \<Longrightarrow> mag_val m \<le> mag_val n"
  using mag_val_mono_strict [of m n] by (cases "m = n") auto

lemma mag_val_0 [simp]: "mag_val 0 = 0"
  by (simp add: mag_val_def)

lemma mag_val_pos: "0 < m \<Longrightarrow> 0 < mag_val m"
  using mag_val_mono_strict [of 0 m] by simp

section \<open>Arithmetic laws\<close>

lemma f_mag_const [simp]:
  "f_mag f_nan = 2143289344" "f_mag f_inf = inf_mag" "f_mag f_neg_inf = inf_mag" "f_mag f_zero = 0"
  "f_mag f_one = 1065353216" "f_mag f_two = 1073741824" "f_mag f_epsilon = 872415232"
  by (simp_all add: f_mag_def f_const_defs)

lemma f_sign_const [simp]:
  "\<not> f_sign f_nan" "\<not> f_sign f_inf" "f_sign f_neg_inf" "\<not> f_sign f_zero"
  "\<not> f_sign f_one" "\<not> f_sign f_two" "\<not> f_sign f_epsilon"
  by (simp_all add: f_sign_def f_const_defs)

lemma is_nan_f_nan [simp]: "is_nan f_nan"
  by (simp add: is_nan_def)

lemma f_make_nan_iff [simp]: "m < 2147483648 \<Longrightarrow> is_nan (f_make s m) \<longleftrightarrow> inf_mag < m"
  by (simp add: is_nan_def)

lemma f_make_round_not_nan [simp]: "\<not> is_nan (f_make s (round_mag n d))"
  using round_mag_le [of n d] by (simp add: is_nan_def)

lemma f_neg_sign [simp]: "f_sign (f_neg x) = (\<not> f_sign x)"
  and f_neg_mag [simp]: "f_mag (f_neg x) = f_mag x"
  using f_mag_lt [of x] by (simp_all add: f_neg_def)

lemma f_neg_class [simp]:
  "is_nan (f_neg x) = is_nan x" "is_inf (f_neg x) = is_inf x" "is_finite (f_neg x) = is_finite x"
  by (simp_all add: is_nan_def is_inf_def is_finite_def)

lemma f_neg_val [simp]: "f_val (f_neg x) = - f_val x"
  by (simp add: f_val_def)

lemma f_neg_key [simp]: "f_key (f_neg x) = - f_key x"
  by (simp add: f_key_def)

lemma f_neg_neg [simp]: "f_neg (f_neg x) = x"
  by (rule f32_eqI) simp_all

lemma f_inf_eq: "is_inf a \<Longrightarrow> is_inf b \<Longrightarrow> f_sign a = f_sign b \<Longrightarrow> a = b"
  by (rule f32_eqI) (simp_all add: is_inf_def)

lemma f_add_commute: "f_add a b = f_add b a"
  using f_inf_eq [of a b] by (auto simp: f_add_def add.commute conj_commute Let_def)

lemma f_mul_commute: "f_mul a b = f_mul b a"
proof -
  have "(f_sign a \<noteq> f_sign b) = (f_sign b \<noteq> f_sign a)" by auto
  then show ?thesis
    unfolding f_mul_def Let_def by (simp only: mult.commute [of "mag_val (f_mag a)"] conj_commute
      disj_commute [of "is_nan a"] disj_commute [of "is_inf a"] disj_commute [of "f_mag a = 0"])
qed

lemma f_add_not_nan:
  "\<not> is_nan a \<Longrightarrow> \<not> is_nan b \<Longrightarrow> is_finite a \<or> is_finite b \<Longrightarrow> \<not> is_nan (f_add a b)"
  by (auto simp: f_add_def is_finite_def is_inf_def Let_def)

lemma f_sub_not_nan: "is_finite a \<Longrightarrow> is_finite b \<Longrightarrow> \<not> is_nan (f_sub a b)"
  by (simp add: f_sub_def f_add_not_nan finite_not_nan)

lemma f_sub_self: "is_finite a \<Longrightarrow> f_sub a a = f_zero"
  by (simp add: f_sub_def f_add_def finite_not_nan is_inf_def is_finite_def f_make_def f_zero_def)

lemma f_mag_sub_swap: "f_mag (f_sub a b) = f_mag (f_sub b a)"
proof (cases "is_nan a \<or> is_nan b \<or> is_inf a \<or> is_inf b")
  case True
  then show ?thesis by (auto simp: f_sub_def f_add_def is_inf_def is_nan_def)
next
  case False
  have "\<bar>f_val b - f_val a\<bar> = \<bar>f_val a - f_val b\<bar>" by (rule abs_minus_commute)
  with False show ?thesis by (auto simp: f_sub_def f_add_def Let_def)
qed

lemma f_mul_self_cong: "f_mag a = f_mag b \<Longrightarrow> f_mul a a = f_mul b b"
  by (simp add: f_mul_def is_nan_def is_inf_def)

subsection \<open>Non-negative values\<close>

definition f_nonneg :: "f32 \<Rightarrow> bool" where
  "f_nonneg x = (\<not> is_nan x \<and> \<not> f_sign x)"

lemma f_nonneg_const [simp]: "f_nonneg f_zero" "f_nonneg f_one" "f_nonneg f_epsilon" "f_nonneg f_inf"
  by (simp_all add: f_nonneg_def is_nan_def)

lemma f_nonneg_key: "f_nonneg x \<Longrightarrow> f_key x = int (f_mag x)"
  by (simp add: f_nonneg_def f_key_def)

lemma f_square_nonneg: "\<not> is_nan x \<Longrightarrow> f_nonneg (f_mul x x)"
  using round_mag_le [of "mag_val (f_mag x) * mag_val (f_mag x)" "2 ^ 149"]
  by (auto simp: f_nonneg_def f_mul_def is_nan_def is_inf_def Let_def)

lemma f_add_nonneg_mag:
  assumes "f_nonneg a" "f_nonneg b"
  shows "f_nonneg (f_add a b)"
    and "f_mag (f_add a b) = (if is_inf a \<or> is_inf b then inf_mag
           else round_mag (mag_val (f_mag a) + mag_val (f_mag b)) 1)"
proof -
  have v: "f_val a + f_val b = int (mag_val (f_mag a) + mag_val (f_mag b))"
    using assms by (simp add: f_val_def f_nonneg_def)
  have zero: "round_mag 0 1 = 0" using round_mag_exact [of 0] by simp
  show "f_nonneg (f_add a b)"
    using assms v by (auto simp: f_nonneg_def f_add_def Let_def)
  show "f_mag (f_add a b) = (if is_inf a \<or> is_inf b then inf_mag
           else round_mag (mag_val (f_mag a) + mag_val (f_mag b)) 1)"
  proof (cases "mag_val (f_mag a) + mag_val (f_mag b) = 0")
    case True
    then have "f_val a + f_val b = 0" unfolding v by simp
    with assms zero True show ?thesis
      by (auto simp: f_add_def Let_def f_nonneg_def is_inf_def)
  next
    case False
    then have "f_val a + f_val b \<noteq> 0" "\<not> f_val a + f_val b < 0" unfolding v by linarith+
    moreover have "nat \<bar>f_val a + f_val b\<bar> = mag_val (f_mag a) + mag_val (f_mag b)"
      unfolding v by linarith
    ultimately show ?thesis using assms
      by (auto simp: f_add_def Let_def f_nonneg_def is_inf_def)
  qed
qed

lemma f_add_nonneg: "f_nonneg a \<Longrightarrow> f_nonneg b \<Longrightarrow> f_nonneg (f_add a b)"
  by (rule f_add_nonneg_mag)

lemma f_nonneg_finite_or_inf: "f_nonneg a \<Longrightarrow> is_inf a \<or> f_mag a < inf_mag"
  by (auto simp: f_nonneg_def is_nan_def is_inf_def)

lemma f_add_mono:
  assumes "f_nonneg a" "f_nonneg b" "f_nonneg a'" "f_nonneg b'"
    and "f_mag a \<le> f_mag a'" "f_mag b \<le> f_mag b'"
  shows "f_mag (f_add a b) \<le> f_mag (f_add a' b')"
  using assms f_nonneg_finite_or_inf [of a'] f_nonneg_finite_or_inf [of b'] round_mag_le
  by (auto simp: f_add_nonneg_mag(2) is_inf_def intro!: round_mag_mono add_mono mag_val_mono)

lemma f_mul_nonneg_mag:
  assumes "f_nonneg a" "f_nonneg b" "is_finite a" "is_finite b"
  shows "f_nonneg (f_mul a b)"
    and "f_mag (f_mul a b) = round_mag (mag_val (f_mag a) * mag_val (f_mag b)) (2 ^ 149)"
  using assms by (auto simp: f_nonneg_def f_mul_def is_finite_def is_inf_def Let_def)

lemma f_mul_mono:
  assumes "f_nonneg a" "f_nonneg b" "f_nonneg a'" "f_nonneg b'"
    and "is_finite a" "is_finite b" "is_finite a'" "is_finite b'"
    and "f_mag a \<le> f_mag a'" "f_mag b \<le> f_mag b'"
  shows "f_mag (f_mul a b) \<le> f_mag (f_mul a' b')"
  using assms by (simp add: f_mul_nonneg_mag(2) round_mag_mono mult_le_mono mag_val_mono)

lemma finite_consts [simp]: "is_finite f_zero" "is_finite f_one" "is_finite f_two"
  by (simp_all add: is_finite_def f_mag_def f_zero_def f_one_def f_two_def)

end
