(* ===== verification/Distance.thy ===== *)
theory Distance
  imports Float32
begin

text \<open>
  The distance kernels (\<open>vec/src/distance.rs\<close>): the three metrics as left folds over the zipped
  components, in the order of the code's scalar loops, and their laws on IEEE values: symmetry, the
  self-distance, and exactly when a kernel yields a NaN.
\<close>

section \<open>Kernels\<close>

datatype metric = L2 | Cosine | Dot

definition l2_step :: "f32 \<Rightarrow> f32 \<times> f32 \<Rightarrow> f32" where
  "l2_step s p = (let d = f_sub (fst p) (snd p) in f_add s (f_mul d d))"

definition l2_squared :: "f32 list \<Rightarrow> f32 list \<Rightarrow> f32" where
  "l2_squared a b = foldl l2_step f_zero (zip a b)"

definition cosine_step :: "f32 \<times> f32 \<times> f32 \<Rightarrow> f32 \<times> f32 \<Rightarrow> f32 \<times> f32 \<times> f32" where
  "cosine_step acc p =
     (case acc of (dot, na, nb) \<Rightarrow>
       (f_add dot (f_mul (fst p) (snd p)),
        f_add na (f_mul (fst p) (fst p)),
        f_add nb (f_mul (snd p) (snd p))))"

definition cosine :: "f32 list \<Rightarrow> f32 list \<Rightarrow> f32" where
  "cosine a b =
     (case foldl cosine_step (f_zero, f_zero, f_zero) (zip a b) of (dot, na, nb) \<Rightarrow>
       f_sub f_one (f_div dot (f_max (f_mul (f_sqrt na) (f_sqrt nb)) f_epsilon)))"

definition dot_step :: "f32 \<Rightarrow> f32 \<times> f32 \<Rightarrow> f32" where
  "dot_step s p = f_add s (f_mul (fst p) (snd p))"

definition neg_dot :: "f32 list \<Rightarrow> f32 list \<Rightarrow> f32" where
  "neg_dot a b = f_neg (foldl dot_step f_zero (zip a b))"

definition compute :: "metric \<Rightarrow> f32 list \<Rightarrow> f32 list \<Rightarrow> f32" where
  "compute m a b =
     (case m of L2 \<Rightarrow> l2_squared a b | Cosine \<Rightarrow> cosine a b | Dot \<Rightarrow> neg_dot a b)"

section \<open>Symmetry\<close>

lemma l2_step_swap: "l2_step s (y, x) = l2_step s (x, y)"
  unfolding l2_step_def Let_def using f_mul_self_cong [OF f_mag_sub_swap [of y x]] by simp

lemma dot_step_swap: "dot_step s (y, x) = dot_step s (x, y)"
  by (simp add: dot_step_def f_mul_commute [of y x])

text \<open>A fold over a zip whose step ignores the order within a pair ignores the order of the lists.\<close>

lemma foldl_zip_swap:
  assumes "\<And>s x y. f s (y, x) = f s (x, y)"
  shows "foldl f s (zip b a) = foldl f s (zip a b)"
proof (induction a arbitrary: b s)
  case Nil
  then show ?case by simp
next
  case (Cons x a)
  then show ?case using assms by (cases b) simp_all
qed

lemma cosine_fold_swap:
  "foldl cosine_step (d, n, m) (zip b a) =
     (case foldl cosine_step (d, m, n) (zip a b) of (dot, na, nb) \<Rightarrow> (dot, nb, na))"
proof (induction a arbitrary: b d n m)
  case Nil
  then show ?case by simp
next
  case (Cons x a)
  show ?case
  proof (cases b)
    case Nil
    then show ?thesis by simp
  next
    case (Cons y ys)
    have "f_mul y x = f_mul x y" by (rule f_mul_commute)
    with Cons Cons.IH show ?thesis by (simp add: cosine_step_def)
  qed
qed

lemma compute_swap: "compute m a b = compute m b a"
proof (cases m)
  case L2
  then show ?thesis
    using foldl_zip_swap [of l2_step, OF l2_step_swap] by (simp add: compute_def l2_squared_def)
next
  case Cosine
  obtain dot na nb where f: "foldl cosine_step (f_zero, f_zero, f_zero) (zip a b) = (dot, na, nb)"
    by (rule prod_cases3)
  have "f_mul (f_sqrt nb) (f_sqrt na) = f_mul (f_sqrt na) (f_sqrt nb)" by (rule f_mul_commute)
  with Cosine f cosine_fold_swap [of f_zero f_zero f_zero b a] show ?thesis
    by (simp add: compute_def cosine_def)
next
  case Dot
  then show ?thesis
    using foldl_zip_swap [of dot_step, OF dot_step_swap] by (simp add: compute_def neg_dot_def)
qed

section \<open>NaN\<close>

lemma l2_fold_nonneg:
  assumes "f_nonneg s" "\<forall>p\<in>set ps. is_finite (fst p) \<and> is_finite (snd p)"
  shows "f_nonneg (foldl l2_step s ps)"
  using assms
proof (induction ps arbitrary: s)
  case (Cons p ps)
  then have "f_nonneg (l2_step s p)"
    by (simp add: l2_step_def Let_def f_add_nonneg f_square_nonneg f_sub_not_nan)
  then show ?case using Cons.IH Cons.prems(2) by simp
qed simp

lemma set_zip_finite:
  "\<forall>x\<in>set a. is_finite x \<Longrightarrow> \<forall>y\<in>set b. is_finite y \<Longrightarrow>
    \<forall>p\<in>set (zip a b). is_finite (fst p) \<and> is_finite (snd p)"
  by (auto dest: set_zip_leftD set_zip_rightD)

lemma l2_squared_nonneg:
  "\<forall>x\<in>set a. is_finite x \<Longrightarrow> \<forall>y\<in>set b. is_finite y \<Longrightarrow> f_nonneg (l2_squared a b)"
  unfolding l2_squared_def by (intro l2_fold_nonneg set_zip_finite) simp_all

lemma l2_squared_not_nan:
  "\<forall>x\<in>set a. is_finite x \<Longrightarrow> \<forall>y\<in>set b. is_finite y \<Longrightarrow> \<not> is_nan (l2_squared a b)"
  using l2_squared_nonneg by (auto simp: f_nonneg_def)

lemma f_square_zero: "f_mul f_zero f_zero = f_zero"
  by (rule f32_eqI) (simp_all add: f_mul_def is_nan_def is_inf_def Let_def round_mag_exact [of 0, simplified]
    round_mag_def div_even_def float_simps)

lemma f_zero_add: "f_add f_zero f_zero = f_zero"
  by (rule f32_eqI) (simp_all add: f_add_def is_nan_def is_inf_def f_val_def)

lemma l2_squared_self:
  "\<forall>x\<in>set a. is_finite x \<Longrightarrow> l2_squared a a = f_zero"
  unfolding l2_squared_def
  by (induction a) (simp_all add: l2_step_def f_sub_self f_square_zero f_zero_add)

lemma f_max_epsilon:
  "\<not> is_nan (f_max x f_epsilon)" "f_key f_epsilon \<le> f_key (f_max x f_epsilon)"
  by (auto simp: f_max_def f_lt_def is_nan_def)

lemma f_max_epsilon_pos: "\<not> f_sign (f_max x f_epsilon) \<and> 0 < f_mag (f_max x f_epsilon)"
  using f_max_epsilon(2) [of x] by (auto simp: f_key_def split: if_splits)

lemma f_div_not_nan_iff:
  assumes "\<not> is_nan b" "0 < f_mag b"
  shows "is_nan (f_div a b) \<longleftrightarrow> is_nan a \<or> (is_inf a \<and> is_inf b)"
  using assms by (auto simp: f_div_def Let_def)

lemma f_one_sub_nan_iff: "is_nan (f_sub f_one x) \<longleftrightarrow> is_nan x"
  using f_add_not_nan [of f_one "f_neg x"]
  by (auto simp: f_sub_def is_finite_def is_nan_def [of f_one]) (simp add: f_add_def)

section \<open>Properties\<close>

text \<open>Every metric is symmetric: for any two vectors of any lengths and any components (infinities
  and NaN included), \<open>compute\<close> returns the same value when its arguments are swapped.\<close>

theorem compute_symmetric: "compute m a b = compute m b a"
  by (rule compute_swap)

text \<open>C39: On finite components the L2 kernel never yields a NaN (so sorting by it never panics), is never
  below zero, and is exactly zero from a vector to itself, whatever overflows on the way.\<close>

theorem l2_squared_total_on_finite:
  assumes "\<forall>x\<in>set a. is_finite x" "\<forall>y\<in>set b. is_finite y"
  shows "\<not> is_nan (l2_squared a b) \<and> f_le f_zero (l2_squared a b) \<and> l2_squared a a = f_zero"
  using l2_squared_nonneg [OF assms] l2_squared_self [OF assms(1)]
  by (auto simp: f_nonneg_def f_le_def f_key_def is_nan_def)

theorem l2_squared_total_on_finite_witness:
  "\<not> is_nan (l2_squared [f_one, 2139095039] [f_two, 4286578687])
   \<and> f_le f_zero (l2_squared [f_one, 2139095039] [f_two, 4286578687])
   \<and> l2_squared [f_one, 2139095039] [f_one, 2139095039] = f_zero"
  by (rule l2_squared_total_on_finite) (simp_all add: is_finite_def f_mag_def f_one_def f_two_def)

text \<open>The pieces of the cosine kernel: its inner product and its clamped denominator.\<close>

definition cosine_dot :: "f32 list \<Rightarrow> f32 list \<Rightarrow> f32" where
  "cosine_dot a b = fst (foldl cosine_step (f_zero, f_zero, f_zero) (zip a b))"

definition cosine_denom :: "f32 list \<Rightarrow> f32 list \<Rightarrow> f32" where
  "cosine_denom a b =
     (case snd (foldl cosine_step (f_zero, f_zero, f_zero) (zip a b)) of (na, nb) \<Rightarrow>
       f_max (f_mul (f_sqrt na) (f_sqrt nb)) f_epsilon)"

text \<open>C40: The cosine distance is a NaN exactly when its inner product is a NaN or overflows to an infinity
  together with its denominator; the epsilon clamp excludes every other cause (a zero or a NaN norm).\<close>

theorem cosine_nan_iff:
  "is_nan (cosine a b) \<longleftrightarrow>
     is_nan (cosine_dot a b) \<or> (is_inf (cosine_dot a b) \<and> is_inf (cosine_denom a b))"
proof -
  obtain dot na nb where f: "foldl cosine_step (f_zero, f_zero, f_zero) (zip a b) = (dot, na, nb)"
    by (rule prod_cases3)
  then show ?thesis
    using f_max_epsilon(1) f_max_epsilon_pos
    by (simp add: cosine_def cosine_dot_def cosine_denom_def f_one_sub_nan_iff f_div_not_nan_iff)
qed

end
