(* ===== verification/Runtime.thy ===== *)
theory Runtime
  imports Distance
begin

text \<open>
  What the vector engine takes from outside the repository, gathered in one record that the
  definitions receive: the unstable sort of \<open>std\<close> (which leaves the order of ties open), the total
  order of the \<open>ordered\_float\<close> crate, \<open>f32::ln\<close> (precision unspecified), the \<open>DefaultHasher\<close> of
  \<open>std\<close> (algorithm unspecified), where the allocator places a byte buffer, and the bitmaps of the
  \<open>roaring\<close> crate. \<open>runtime_ok\<close> states the documented behaviour the code relies on.
\<close>

section \<open>The record of external functions\<close>

record 'b runtime =
  rt_sort_hits :: "(u64 \<times> f32) list \<Rightarrow> (u64 \<times> f32) list"
  rt_sort_nodes :: "(nat \<times> f32) list \<Rightarrow> (nat \<times> f32) list"
  rt_of_le :: "f32 \<Rightarrow> f32 \<Rightarrow> bool"
  rt_ln :: "f32 \<Rightarrow> f32"
  rt_hash :: "u64 \<Rightarrow> u64"
  rt_aligned :: "nat \<Rightarrow> bool"
  bm_new :: 'b
  bm_insert :: "u64 \<Rightarrow> 'b \<Rightarrow> 'b"
  bm_or :: "'b \<Rightarrow> 'b \<Rightarrow> 'b"
  bm_and :: "'b \<Rightarrow> 'b \<Rightarrow> 'b"
  bm_sub :: "'b \<Rightarrow> 'b \<Rightarrow> 'b"
  bm_contains :: "'b \<Rightarrow> u64 \<Rightarrow> bool"
  bm_len :: "'b \<Rightarrow> nat"

section \<open>Documented behaviour\<close>

text \<open>\<open>OrderedFloat\<close>: every NaN is equal to itself and greater than all other values.\<close>

definition of_key :: "f32 \<Rightarrow> int" where
  "of_key x = (if is_nan x then 2 ^ 40 else f_key x)"

definition sort_ok :: "(('a \<times> f32) list \<Rightarrow> ('a \<times> f32) list) \<Rightarrow> bool" where
  "sort_ok srt \<longleftrightarrow>
     (\<forall>xs. mset (srt xs) = mset xs \<and>
        ((\<forall>x\<in>set xs. \<not> is_nan (snd x)) \<longrightarrow> sorted (map (\<lambda>x. f_key (snd x)) (srt xs))))"

definition bitmap_ok :: "'b runtime \<Rightarrow> ('b \<Rightarrow> u64 set) \<Rightarrow> bool" where
  "bitmap_ok R B \<longleftrightarrow>
     B (bm_new R) = {}
     \<and> (\<forall>x b. B (bm_insert R x b) = insert x (B b))
     \<and> (\<forall>a b. B (bm_or R a b) = B a \<union> B b)
     \<and> (\<forall>a b. B (bm_and R a b) = B a \<inter> B b)
     \<and> (\<forall>a b. B (bm_sub R a b) = B a - B b)
     \<and> (\<forall>b x. bm_contains R b x \<longleftrightarrow> x \<in> B b)
     \<and> (\<forall>b. bm_len R b = card (B b))"

definition order_ok :: "'b runtime \<Rightarrow> bool" where
  "order_ok R \<longleftrightarrow>
     sort_ok (rt_sort_hits R) \<and> sort_ok (rt_sort_nodes R)
     \<and> (\<forall>a b. rt_of_le R a b \<longleftrightarrow> of_key a \<le> of_key b)"

text \<open>An instance, to run the model on concrete inputs: insertion sort, the order by \<open>of\_key\<close>, a
  logarithm that is \<open>-inf\<close> at zero and 1 elsewhere, the identity as hash, and bitmaps as sets.\<close>

definition demo_runtime :: "u64 set runtime" where
  "demo_runtime =
     \<lparr> rt_sort_hits = sort_key (\<lambda>x. f_key (snd x)), rt_sort_nodes = sort_key (\<lambda>x. f_key (snd x)),
       rt_of_le = (\<lambda>a b. of_key a \<le> of_key b),
       rt_ln = (\<lambda>x. if x = f_zero then f_neg_inf else f_one),
       rt_hash = (\<lambda>x. x), rt_aligned = (\<lambda>n. True),
       bm_new = {}, bm_insert = insert, bm_or = (\<union>), bm_and = (\<inter>), bm_sub = (-),
       bm_contains = (\<lambda>b x. x \<in> b), bm_len = card \<rparr>"

lemma demo_order_ok: "order_ok demo_runtime"
  by (auto simp: order_ok_def sort_ok_def demo_runtime_def)

lemma demo_bitmap_ok: "bitmap_ok demo_runtime (\<lambda>b. b)"
  by (auto simp: bitmap_ok_def demo_runtime_def)

lemma of_key_le_strict: "is_nan b \<Longrightarrow> \<not> is_nan a \<Longrightarrow> of_key a < of_key b"
  using f_key_bounds [of a] by (simp add: of_key_def)

lemma of_key_not_nan [simp]: "\<not> is_nan x \<Longrightarrow> of_key x = f_key x"
  by (simp add: of_key_def)

section \<open>Sorting by distance\<close>

text \<open>
  \<open>sort\_unstable\_by(|a, b| a.1.partial\_cmp(&b.1).unwrap())\<close>: a sort of two or more elements compares
  each of them at least once, and the comparison panics when one side is a NaN.
\<close>

definition sort_by_dist ::
  "(('a \<times> f32) list \<Rightarrow> ('a \<times> f32) list) \<Rightarrow> ('a \<times> f32) list \<Rightarrow> ('e, ('a \<times> f32) list) outcome" where
  "sort_by_dist srt xs =
     (if 2 \<le> length xs \<and> list_ex (\<lambda>x. is_nan (snd x)) xs then Panic else Ok (srt xs))"

lemma sort_by_dist_Ok:
  assumes "sort_ok srt" "sort_by_dist srt xs = Ok ys"
  shows "mset ys = mset xs" "sorted (map (\<lambda>x. f_key (snd x)) ys)"
proof -
  have ys: "ys = srt xs" and c: "length xs < 2 \<or> (\<forall>x\<in>set xs. \<not> is_nan (snd x))"
    using assms(2) by (auto simp: sort_by_dist_def list_ex_iff split: if_splits)
  from assms(1) ys show m: "mset ys = mset xs" by (auto simp: sort_ok_def)
  show "sorted (map (\<lambda>x. f_key (snd x)) ys)"
  proof (cases "length xs < 2")
    case True
    then have "length ys < 2" using mset_eq_len [OF m] by simp
    then show ?thesis by (cases ys; cases "tl ys") auto
  next
    case False
    then show ?thesis using c assms(1) ys by (auto simp: sort_ok_def)
  qed
qed

lemma sort_by_dist_total:
  "\<forall>x\<in>set xs. \<not> is_nan (snd x) \<Longrightarrow> sort_by_dist srt xs = Ok (srt xs)"
  by (auto simp: sort_by_dist_def list_ex_iff)

lemma sort_by_dist_no_Err [simp]: "sort_by_dist srt xs \<noteq> Err e"
  by (simp add: sort_by_dist_def)

end
