(* ===== verification/Byte_Codec.thy ===== *)
theory Byte_Codec
  imports Prelude
begin

text \<open>
  Little-endian encodings (\<open>to\_le\_bytes\<close>, \<open>from\_le\_bytes\<close>, \<open>bytemuck::cast\_slice\<close> on a
  little-endian machine) and the contract the file formats share: a decoder that reads an encoding
  off the front of a buffer and leaves the rest.
\<close>

section \<open>Little-endian numbers\<close>

fun le_enc :: "nat \<Rightarrow> nat \<Rightarrow> bytes" where
  "le_enc 0 n = []"
| "le_enc (Suc k) n = word_of_nat (n mod 256) # le_enc k (n div 256)"

fun le_dec :: "bytes \<Rightarrow> nat" where
  "le_dec [] = 0"
| "le_dec (b # bs) = unat b + 256 * le_dec bs"

lemma le_enc_length [simp]: "length (le_enc k n) = k"
  by (induction k n rule: le_enc.induct) auto

lemma le_dec_enc [simp]: "n < 256 ^ k \<Longrightarrow> le_dec (le_enc k n) = n"
proof (induction k n rule: le_enc.induct)
  case (2 k n)
  then have "n div 256 < 256 ^ k" by (simp add: less_mult_imp_div_less mult.commute)
  with 2 show ?case by (simp add: unat_of_nat)
qed simp

text \<open>\<open>read\_exact\<close>: the next \<open>n\<close> bytes, or none when the buffer ends before.\<close>

definition take_exact :: "nat \<Rightarrow> bytes \<Rightarrow> (bytes \<times> bytes) option" where
  "take_exact n bs = (if n \<le> length bs then Some (take n bs, drop n bs) else None)"

lemma take_exact_append [codec_simps]:
  "length xs = n \<Longrightarrow> take_exact n (xs @ r) = Some (xs, r)"
  by (simp add: take_exact_def)

lemma take_exact_None_iff: "take_exact n bs = None \<longleftrightarrow> length bs < n"
  by (auto simp: take_exact_def)

lemma take_exact_Some: "take_exact n bs = Some (x, r) \<longleftrightarrow> n \<le> length bs \<and> x = take n bs \<and> r = drop n bs"
  by (auto simp: take_exact_def)

section \<open>The codec interface\<close>

locale prefix_codec =
  fixes enc :: "'a \<Rightarrow> bytes"
    and dec :: "bytes \<Rightarrow> ('a \<times> bytes) option"
    and valid :: "'a \<Rightarrow> bool"
  assumes dec_enc: "valid x \<Longrightarrow> dec (enc x @ r) = Some (x, r)"
begin

lemma enc_prefix_free: "valid x \<Longrightarrow> valid y \<Longrightarrow> enc x @ r = enc y @ s \<Longrightarrow> x = y \<and> r = s"
  by (metis dec_enc option.inject prod.inject)

lemma enc_inject: "valid x \<Longrightarrow> valid y \<Longrightarrow> enc x = enc y \<Longrightarrow> x = y"
  using enc_prefix_free [of x y "[]" "[]"] by blast

text \<open>A counted sequence of encodings is read back by reading that many times.\<close>

fun dec_many :: "nat \<Rightarrow> bytes \<Rightarrow> ('a list \<times> bytes) option" where
  "dec_many 0 bs = Some ([], bs)"
| "dec_many (Suc n) bs =
     (case dec bs of None \<Rightarrow> None
      | Some (x, r) \<Rightarrow> map_option (\<lambda>(xs, s). (x # xs, s)) (dec_many n r))"

lemma dec_many_enc:
  "\<forall>x\<in>set xs. valid x \<Longrightarrow> dec_many (length xs) (concat (map enc xs) @ r) = Some (xs, r)"
  by (induction xs) (auto simp: dec_enc)

end

section \<open>Words\<close>

definition u64_bytes :: "u64 \<Rightarrow> bytes" where "u64_bytes x = le_enc 8 (unat x)"
definition u32_bytes :: "32 word \<Rightarrow> bytes" where "u32_bytes x = le_enc 4 (unat x)"

definition u64_of_bytes :: "bytes \<Rightarrow> u64" where "u64_of_bytes bs = word_of_nat (le_dec bs)"
definition u32_of_bytes :: "bytes \<Rightarrow> 32 word" where "u32_of_bytes bs = word_of_nat (le_dec bs)"

definition get_u64 :: "bytes \<Rightarrow> (u64 \<times> bytes) option" where
  "get_u64 bs = map_option (\<lambda>(x, r). (u64_of_bytes x, r)) (take_exact 8 bs)"

definition get_u32 :: "bytes \<Rightarrow> (32 word \<times> bytes) option" where
  "get_u32 bs = map_option (\<lambda>(x, r). (u32_of_bytes x, r)) (take_exact 4 bs)"

lemma u64_bytes_length [simp]: "length (u64_bytes x) = 8"
  by (simp add: u64_bytes_def)

lemma u32_bytes_length [simp]: "length (u32_bytes x) = 4"
  by (simp add: u32_bytes_def)

lemma u64_of_bytes_inv [simp]: "u64_of_bytes (u64_bytes x) = x"
  using unsigned_less [of x, where 'a = nat] by (simp add: u64_of_bytes_def u64_bytes_def)

lemma u32_of_bytes_inv [simp]: "u32_of_bytes (u32_bytes x) = x"
  using unsigned_less [of x, where 'a = nat] by (simp add: u32_of_bytes_def u32_bytes_def)

interpretation u64_codec: prefix_codec u64_bytes get_u64 "\<lambda>_. True"
  by unfold_locales (simp add: get_u64_def codec_simps)

interpretation u32_codec: prefix_codec u32_bytes get_u32 "\<lambda>_. True"
  by unfold_locales (simp add: get_u32_def codec_simps)

section \<open>Slices of floats\<close>

text \<open>\<open>cast\_slice\<close> between \<open>[f32]\<close> and \<open>[u8]\<close>: four bytes per element.\<close>

definition f32s_bytes :: "32 word list \<Rightarrow> bytes" where
  "f32s_bytes v = concat (map u32_bytes v)"

fun f32s_of_bytes :: "bytes \<Rightarrow> 32 word list" where
  "f32s_of_bytes (a # b # c # d # r) = u32_of_bytes [a, b, c, d] # f32s_of_bytes r"
| "f32s_of_bytes bs = []"

lemma f32s_bytes_length [simp]: "length (f32s_bytes v) = 4 * length v"
  by (induction v) (auto simp: f32s_bytes_def)

lemma length_4_conv: "length xs = 4 \<Longrightarrow> \<exists>a b c d. xs = [a, b, c, d]"
  by (cases xs; cases "tl xs"; cases "tl (tl xs)"; cases "tl (tl (tl xs))") auto

lemma f32s_of_bytes_u32:
  "f32s_of_bytes (u32_bytes x @ r) = x # f32s_of_bytes r"
proof -
  obtain a b c d where "u32_bytes x = [a, b, c, d]"
    using u32_bytes_length [of x] by (metis length_4_conv)
  moreover from this have "u32_of_bytes [a, b, c, d] = x"
    using u32_of_bytes_inv [of x] by simp
  ultimately show ?thesis by simp
qed

lemma f32s_roundtrip [simp]: "f32s_of_bytes (f32s_bytes v) = v"
  by (induction v) (simp_all add: f32s_bytes_def f32s_of_bytes_u32)

definition get_f32s :: "nat \<Rightarrow> bytes \<Rightarrow> (32 word list \<times> bytes) option" where
  "get_f32s n bs = map_option (\<lambda>(x, r). (f32s_of_bytes x, r)) (take_exact (n * 4) bs)"

lemma get_f32s_append [codec_simps]:
  "length v = n \<Longrightarrow> get_f32s n (f32s_bytes v @ r) = Some (v, r)"
  by (simp add: get_f32s_def codec_simps)

section \<open>Writing into a file\<close>

text \<open>A write at a position of a file: past the end the gap reads as zeros.\<close>

definition write_at :: "nat \<Rightarrow> bytes \<Rightarrow> bytes \<Rightarrow> bytes" where
  "write_at p xs disk =
     (if xs = [] then disk
      else take p disk @ replicate (p - length disk) 0 @ xs @ drop (p + length xs) disk)"

lemma write_at_end: "write_at (length disk) xs disk = disk @ xs"
  by (simp add: write_at_def)

lemma write_at_inside:
  "length xs = length ys \<Longrightarrow> write_at (length pre) xs (pre @ ys @ post) = pre @ xs @ post"
  by (auto simp: write_at_def)

end
