(* ===== verification/Wal.thy ===== *)
theory Wal
  imports Runtime Byte_Codec
begin

text \<open>
  The write-ahead log (\<open>vec/src/storage/wal.rs\<close>): the writer behind its \<open>BufWriter\<close>, with the bytes
  that reached the file and those still in the buffer kept apart so that a crash can lose the
  latter, and the replay that reads entries until the end of the file or the first damage.
\<close>

section \<open>Entries\<close>

datatype wal_error = WalIo io_error | WalCorrupt nat

datatype wal_entry = WalInsert u64 "f32 list"

text \<open>The chunks \<open>append\<close> hands to the buffered file, in order; the length is cast to 32 bits.\<close>

fun wal_chunks :: "wal_entry \<Rightarrow> bytes list" where
  "wal_chunks (WalInsert i v) = [[1], u64_bytes i, u32_bytes (word_of_nat (length v)), f32s_bytes v]"

definition wal_bytes :: "wal_entry \<Rightarrow> bytes" where
  "wal_bytes e = concat (wal_chunks e)"

fun wal_entry_ok :: "wal_entry \<Rightarrow> bool" where
  "wal_entry_ok (WalInsert i v) = (length v < 2 ^ 32)"

section \<open>The buffered writer\<close>

text \<open>
  \<open>ww\_pos\<close> is \<open>None\<close> for a handle in append mode and the file position otherwise. A physical write
  takes a fault: \<open>Some (n, e)\<close> writes \<open>n\<close> bytes and fails with \<open>e\<close>.
\<close>

record wal_writer =
  ww_disk :: bytes
  ww_buf :: bytes
  ww_pos :: "nat option"
  ww_committed :: nat

type_synonym fault = "(nat \<times> io_error) option"

definition buf_capacity :: nat where "buf_capacity = 8192"

definition put_disk :: "bytes \<Rightarrow> wal_writer \<Rightarrow> wal_writer" where
  "put_disk xs w =
     (case ww_pos w of
        None \<Rightarrow> w\<lparr> ww_disk := ww_disk w @ xs \<rparr>
      | Some p \<Rightarrow> w\<lparr> ww_disk := write_at p xs (ww_disk w), ww_pos := Some (p + length xs) \<rparr>)"

definition flush_buf :: "fault \<Rightarrow> wal_writer \<Rightarrow> wal_writer \<times> (wal_error, unit) outcome" where
  "flush_buf flt w =
     (case flt of
        None \<Rightarrow> ((put_disk (ww_buf w) w)\<lparr> ww_buf := [] \<rparr>, Ok ())
      | Some (n, e) \<Rightarrow>
          ((put_disk (take n (ww_buf w)) w)\<lparr> ww_buf := drop n (ww_buf w) \<rparr>, Err (WalIo e)))"

definition direct_write :: "fault \<Rightarrow> bytes \<Rightarrow> wal_writer \<Rightarrow> wal_writer \<times> (wal_error, unit) outcome" where
  "direct_write flt xs w =
     (case flt of
        None \<Rightarrow> (put_disk xs w, Ok ())
      | Some (n, e) \<Rightarrow> (put_disk (take n xs) w, Err (WalIo e)))"

text \<open>\<open>BufWriter::write\_all\<close>: copy into the buffer while it fits, else flush first; what is as large
  as the buffer goes to the file at once.\<close>

definition buf_write ::
  "fault \<times> fault \<Rightarrow> bytes \<Rightarrow> wal_writer \<Rightarrow> wal_writer \<times> (wal_error, unit) outcome" where
  "buf_write flts xs w =
     (let spare = buf_capacity - length (ww_buf w) in
      if length xs < spare then (w\<lparr> ww_buf := ww_buf w @ xs \<rparr>, Ok ())
      else and_then (if spare < length xs then flush_buf (fst flts) w else (w, Ok ()))
        (\<lambda>w1 _. if buf_capacity \<le> length xs then direct_write (snd flts) xs w1
                else (w1\<lparr> ww_buf := ww_buf w1 @ xs \<rparr>, Ok ())))"

fun write_chunks ::
  "(nat \<Rightarrow> fault \<times> fault) \<Rightarrow> bytes list \<Rightarrow> wal_writer \<Rightarrow> wal_writer \<times> (wal_error, unit) outcome" where
  "write_chunks flts [] w = (w, Ok ())"
| "write_chunks flts (c # cs) w =
     and_then (buf_write (flts (length cs)) c w) (\<lambda>w1 _. write_chunks flts cs w1)"

section \<open>Operations of the log\<close>

text \<open>\<open>open\<close>: the contents of the file, empty when it is created; the handle appends.\<close>

definition wal_open :: "io_error option \<Rightarrow> bytes option \<Rightarrow> (wal_error, wal_writer) outcome" where
  "wal_open io file =
     (case io of
        Some e \<Rightarrow> Err (WalIo e)
      | None \<Rightarrow> (let disk = (case file of None \<Rightarrow> [] | Some bs \<Rightarrow> bs)
                 in Ok \<lparr> ww_disk = disk, ww_buf = [], ww_pos = None, ww_committed = length disk \<rparr>))"

definition wal_append ::
  "(nat \<Rightarrow> fault \<times> fault) \<Rightarrow> wal_entry \<Rightarrow> wal_writer \<Rightarrow> wal_writer \<times> (wal_error, unit) outcome" where
  "wal_append flts e w = write_chunks flts (wal_chunks e) w"

definition wal_commit ::
  "fault \<times> io_error option \<Rightarrow> wal_writer \<Rightarrow> wal_writer \<times> (wal_error, unit) outcome" where
  "wal_commit flts w =
     and_then (flush_buf (fst flts) w)
       (\<lambda>w1 _. case snd flts of
          Some e \<Rightarrow> (w1, Err (WalIo e))
        | None \<Rightarrow> (w1\<lparr> ww_committed := length (ww_disk w1) \<rparr>, Ok ()))"

text \<open>\<open>reset\<close> truncates through a second handle that does not append; replacing the writer drops the
  old \<open>BufWriter\<close>, which flushes what its buffer still holds through the old handle.\<close>

definition wal_reset ::
  "io_error option \<Rightarrow> fault \<Rightarrow> wal_writer \<Rightarrow> wal_writer \<times> (wal_error, unit) outcome" where
  "wal_reset io flt w =
     (case io of
        Some e \<Rightarrow> (w, Err (WalIo e))
      | None \<Rightarrow>
          (let dropped = fst (flush_buf flt (w\<lparr> ww_disk := [] \<rparr>))
           in (\<lparr> ww_disk = ww_disk dropped, ww_buf = [], ww_pos = Some 0, ww_committed = 0 \<rparr>, Ok ())))"

text \<open>One entry after its tag: the entry, the bytes it took and the rest.\<close>

definition read_entry ::
  "'b runtime \<Rightarrow> bytes \<Rightarrow> (wal_error, wal_entry \<times> nat \<times> bytes) outcome" where
  "read_entry R bs =
     (case get_u64 bs of None \<Rightarrow> Err (WalIo IoUnexpectedEof)
      | Some (i, r1) \<Rightarrow>
     (case get_u32 r1 of None \<Rightarrow> Err (WalIo IoUnexpectedEof)
      | Some (d, r2) \<Rightarrow>
     (case get_f32s (unat d) r2 of None \<Rightarrow> Err (WalIo IoUnexpectedEof)
      | Some (v, r3) \<Rightarrow>
          if rt_aligned R (unat d * 4) then Ok (WalInsert i v, 8 + 4 + unat d * 4, r3) else Panic)))"

lemma read_entry_shorter: "read_entry R bs = Ok (e, n, r) \<Longrightarrow> length r < length bs"
  by (auto simp: read_entry_def get_u64_def get_u32_def get_f32s_def take_exact_Some
      split: option.splits if_splits intro!: diff_less)

text \<open>The loop: the entries passed to the callback before it stopped, and how it stopped.\<close>

function replay_loop ::
  "'b runtime \<Rightarrow> nat \<Rightarrow> nat \<Rightarrow> bytes \<Rightarrow> wal_entry list \<times> (wal_error, unit) outcome" where
  "replay_loop R len off bs =
     (if off < len then
        (case bs of
           [] \<Rightarrow> ([], Err (WalCorrupt off))
         | tag # r \<Rightarrow>
             if tag = 1 then
               (case read_entry R r of
                  Ok (e, n, r') \<Rightarrow>
                    (case replay_loop R len (off + 1 + n) r' of (es, res) \<Rightarrow> (e # es, res))
                | Err x \<Rightarrow> ([], Err x)
                | Panic \<Rightarrow> ([], Panic))
             else ([], Err (WalCorrupt (off + 1 - 1))))
      else ([], Ok ()))"
  by pat_completeness auto
termination
  by (relation "measure (\<lambda>(_, _, _, bs). length bs)") (auto dest: read_entry_shorter)

declare replay_loop.simps [simp del]

text \<open>\<open>replay\<close> takes what \<open>File::open\<close> gave: a missing file is an empty log.\<close>

definition wal_replay ::
  "'b runtime \<Rightarrow> (io_error, bytes) outcome \<Rightarrow> wal_entry list \<times> (wal_error, unit) outcome" where
  "wal_replay R file =
     (case file of
        Ok bs \<Rightarrow> replay_loop R (length bs) 0 bs
      | Err e \<Rightarrow> if e = IoNotFound then ([], Ok ()) else ([], Err (WalIo e))
      | Panic \<Rightarrow> ([], Panic))"

section \<open>Writing keeps a prefix of the stream on disk\<close>

text \<open>The bytes given to the writer so far; a sequential writer appends or stands at the end.\<close>

definition ww_stream :: "wal_writer \<Rightarrow> bytes" where
  "ww_stream w = ww_disk w @ ww_buf w"

definition ww_wf :: "wal_writer \<Rightarrow> bool" where
  "ww_wf w \<longleftrightarrow> (ww_pos w = None \<or> ww_pos w = Some (length (ww_disk w))) \<and> length (ww_buf w) \<le> buf_capacity"

text \<open>What a run of writes may do: extend the file, and extend the stream by a prefix of the data,
  by all of it when the run succeeds.\<close>

definition writes :: "bytes \<Rightarrow> wal_writer \<Rightarrow> wal_writer \<times> (wal_error, unit) outcome \<Rightarrow> bool" where
  "writes xs w res \<longleftrightarrow>
     ww_wf (fst res) \<and> prefix (ww_disk w) (ww_disk (fst res)) \<and> snd res \<noteq> Panic
     \<and> (\<exists>d. prefix d xs \<and> ww_stream (fst res) = ww_stream w @ d \<and> (snd res = Ok () \<longrightarrow> d = xs))"

lemma put_disk_wf:
  assumes "ww_wf w"
  shows "ww_disk (put_disk xs w) = ww_disk w @ xs" "ww_buf (put_disk xs w) = ww_buf w"
    and "ww_wf (put_disk xs w)"
  using assms by (auto simp: put_disk_def ww_wf_def write_at_def split: option.splits)

lemma put_disk_buf_wf:
  "ww_wf w \<Longrightarrow> n \<le> length (ww_buf w) \<Longrightarrow> ww_wf ((put_disk xs w)\<lparr> ww_buf := drop n (ww_buf w) \<rparr>)"
  using put_disk_wf(3) [of w xs] by (auto simp: ww_wf_def)

lemma flush_buf_writes:
  assumes "ww_wf w"
  shows "writes [] w (flush_buf flt w)" "snd (flush_buf flt w) = Ok () \<Longrightarrow> ww_buf (fst (flush_buf flt w)) = []"
proof -
  show "writes [] w (flush_buf flt w)"
  proof (cases flt)
    case None
    then show ?thesis
      using put_disk_wf [OF assms] put_disk_buf_wf [OF assms order_refl]
      by (simp add: writes_def flush_buf_def ww_stream_def)
  next
    case (Some ne)
    have "ww_wf ((put_disk (take n (ww_buf w)) w)\<lparr> ww_buf := drop n (ww_buf w) \<rparr>)" for n
      using put_disk_wf(3) [OF assms, of "take n (ww_buf w)"] assms by (auto simp: ww_wf_def)
    then show ?thesis
      using Some put_disk_wf(1,2) [OF assms]
      by (cases ne) (simp add: writes_def flush_buf_def ww_stream_def)
  qed
  show "snd (flush_buf flt w) = Ok () \<Longrightarrow> ww_buf (fst (flush_buf flt w)) = []"
    by (auto simp: flush_buf_def split: option.splits)
qed

lemma direct_write_writes:
  assumes "ww_wf w" "ww_buf w = []"
  shows "writes xs w (direct_write flt xs w)"
  using assms put_disk_wf [OF assms(1)]
  by (auto simp: writes_def direct_write_def ww_stream_def take_is_prefix split: option.splits)

lemma writes_trans:
  assumes "writes xs w (w1, Ok ())" "writes ys w1 res"
  shows "writes (xs @ ys) w res"
proof -
  from assms obtain d where "prefix d ys" "ww_stream (fst res) = ww_stream w @ xs @ d"
    "snd res = Ok () \<longrightarrow> d = ys"
    by (auto simp: writes_def)
  moreover have "prefix (ww_disk w) (ww_disk (fst res))"
    using assms by (auto simp: writes_def intro: prefix_order.trans)
  ultimately show ?thesis using assms(2) by (auto simp: writes_def)
qed

lemma writes_and_then:
  assumes "writes xs w res" "\<And>w1. res = (w1, Ok ()) \<Longrightarrow> writes ys w1 (f w1 ())"
  shows "writes (xs @ ys) w (and_then res f)"
proof (cases res)
  case (Pair w1 r)
  show ?thesis
  proof (cases r)
    case (Ok u)
    then show ?thesis using assms Pair writes_trans [of xs w w1 ys] by simp
  next
    case (Err e)
    then show ?thesis using assms(1) Pair by (auto simp: writes_def)
  next
    case Panic
    then show ?thesis using assms(1) Pair by (auto simp: writes_def)
  qed
qed

lemma writes_buffered:
  "ww_wf w \<Longrightarrow> length (ww_buf w) + length xs \<le> buf_capacity \<Longrightarrow>
    writes xs w (w\<lparr> ww_buf := ww_buf w @ xs \<rparr>, Ok ())"
  by (auto simp: writes_def ww_wf_def ww_stream_def)

lemma buf_write_writes:
  assumes "ww_wf w"
  shows "writes xs w (buf_write flts xs w)"
proof (cases "length xs < buf_capacity - length (ww_buf w)")
  case True
  then show ?thesis using writes_buffered [OF assms] by (simp add: buf_write_def Let_def)
next
  case False
  let ?r = "if buf_capacity - length (ww_buf w) < length xs then flush_buf (fst flts) w else (w, Ok ())"
  let ?k = "\<lambda>w1 (_ :: unit). if buf_capacity \<le> length xs then direct_write (snd flts) xs w1
                else (w1\<lparr> ww_buf := ww_buf w1 @ xs \<rparr>, Ok ())"
  have r: "writes [] w ?r"
    using assms flush_buf_writes(1) [OF assms] by (auto simp: writes_def)
  have k: "writes xs w1 (?k w1 ())" if w1: "?r = (w1, Ok ())" for w1
  proof (cases "buf_capacity \<le> length xs")
    case True
    moreover have "ww_buf w1 = []"
    proof (cases "buf_capacity - length (ww_buf w) < length xs")
      case True
      then show ?thesis using w1 flush_buf_writes(2) [OF assms, of "fst flts"] by simp
    next
      case no_flush: False
      then have "buf_capacity \<le> buf_capacity - length (ww_buf w)" using True by linarith
      then have "length (ww_buf w) = 0" unfolding buf_capacity_def by linarith
      then show ?thesis using w1 no_flush by simp
    qed
    moreover have "ww_wf w1" using r w1 by (simp add: writes_def)
    ultimately show ?thesis using direct_write_writes by simp
  next
    case len: False
    have "length (ww_buf w1) + length xs \<le> buf_capacity"
      using w1 False len flush_buf_writes(2) [OF assms, of "fst flts"] assms
      by (auto simp: ww_wf_def split: if_splits)
    moreover have "ww_wf w1" using r w1 by (simp add: writes_def)
    ultimately show ?thesis using len writes_buffered by simp
  qed
  have "writes ([] @ xs) w (and_then ?r ?k)" using r k by (rule writes_and_then)
  then show ?thesis using False by (simp add: buf_write_def Let_def)
qed

lemma write_chunks_writes:
  "ww_wf w \<Longrightarrow> writes (concat cs) w (write_chunks flts cs w)"
proof (induction cs arbitrary: w)
  case Nil
  then show ?case by (simp add: writes_def)
next
  case (Cons c cs)
  have c: "writes c w (buf_write (flts (length cs)) c w)" by (rule buf_write_writes) fact
  have "writes (concat cs) w1 (write_chunks flts cs w1)"
    if "buf_write (flts (length cs)) c w = (w1, Ok ())" for w1
    using that c by (intro Cons.IH) (simp add: writes_def)
  then show ?case using writes_and_then [OF c] by simp
qed

text \<open>A run of appends, one fault plan each, that stops at the first failure.\<close>

fun wal_appends ::
  "(nat \<Rightarrow> fault \<times> fault) list \<Rightarrow> wal_entry list \<Rightarrow> wal_writer \<Rightarrow> wal_writer \<times> (wal_error, unit) outcome" where
  "wal_appends (flts # fs) (e # es) w = and_then (wal_append flts e w) (\<lambda>w1 _. wal_appends fs es w1)"
| "wal_appends _ _ w = (w, Ok ())"

abbreviation wal_log :: "wal_entry list \<Rightarrow> bytes" where
  "wal_log es \<equiv> concat (map wal_bytes es)"

lemma wal_appends_writes:
  "ww_wf w \<Longrightarrow> length fs = length es \<Longrightarrow> writes (wal_log es) w (wal_appends fs es w)"
proof (induction fs es w rule: wal_appends.induct)
  case (1 flts fs e es w)
  have e: "writes (wal_bytes e) w (wal_append flts e w)"
    unfolding wal_append_def wal_bytes_def using 1(2) by (rule write_chunks_writes)
  have "writes (wal_log es) w1 (wal_appends fs es w1)" if "wal_append flts e w = (w1, Ok ())" for w1
  proof -
    have "ww_wf w1" using that e by (simp add: writes_def)
    with 1 show ?thesis by simp
  qed
  then show ?case using writes_and_then [OF e] by simp
qed (auto simp: writes_def)

section \<open>Replay\<close>

lemma wal_bytes_tag: "wal_bytes (WalInsert i v) = 1 # u64_bytes i @ u32_bytes (word_of_nat (length v)) @ f32s_bytes v"
  by (simp add: wal_bytes_def)

lemma unat_len32: "length v < 2 ^ 32 \<Longrightarrow> unat (word_of_nat (length v) :: 32 word) = length v"
  by (simp add: unat_of_nat)

text \<open>Whether the allocator gives the buffers of these entries an alignment \<open>cast\_slice\<close> accepts.\<close>

fun entry_aligned :: "'b runtime \<Rightarrow> wal_entry \<Rightarrow> bool" where
  "entry_aligned R (WalInsert i v) = rt_aligned R (length v * 4)"

definition wal_readable :: "'b runtime \<Rightarrow> wal_entry \<Rightarrow> bool" where
  "wal_readable R e \<longleftrightarrow> wal_entry_ok e \<and> entry_aligned R e"

lemma read_entry_bytes:
  assumes "length v < 2 ^ 32" "rt_aligned R (length v * 4)"
  shows "read_entry R (u64_bytes i @ u32_bytes (word_of_nat (length v)) @ f32s_bytes v @ r)
     = Ok (WalInsert i v, 8 + 4 + length v * 4, r)"
  using assms
  by (simp add: read_entry_def u64_codec.dec_enc u32_codec.dec_enc unat_len32 codec_simps)

text \<open>The decoder of one tagged entry, which reads back what \<open>append\<close> wrote.\<close>

definition get_entry :: "'b runtime \<Rightarrow> bytes \<Rightarrow> (wal_entry \<times> bytes) option" where
  "get_entry R bs =
     (case bs of
        [] \<Rightarrow> None
      | tag # r \<Rightarrow> if tag = 1
          then (case read_entry R r of Ok (e, n, r') \<Rightarrow> Some (e, r') | Err _ \<Rightarrow> None | Panic \<Rightarrow> None)
          else None)"

interpretation wal_codec: prefix_codec wal_bytes "get_entry R" "wal_readable R"
proof
  fix e r assume "wal_readable R e"
  then show "get_entry R (wal_bytes e @ r) = Some (e, r)"
    by (cases e) (simp add: wal_readable_def wal_bytes_tag get_entry_def read_entry_bytes)
qed

text \<open>Every proper prefix of the body of an entry ends in the middle of a \<open>read\_exact\<close>.\<close>

lemma read_entry_cut:
  assumes len: "length v < 2 ^ 32"
    and p: "strict_prefix p (u64_bytes i @ u32_bytes (word_of_nat (length v)) @ f32s_bytes v)"
  shows "read_entry R p = Err (WalIo IoUnexpectedEof)"
proof (cases "length p < 8")
  case True
  then show ?thesis by (simp add: read_entry_def get_u64_def take_exact_def)
next
  case False
  let ?n = "u32_bytes (word_of_nat (length v))"
  from p have pre: "prefix p (u64_bytes i @ ?n @ f32s_bytes v)" by simp
  then have "prefix (u64_bytes i) p"
    by (rule prefix_length_prefix [OF prefixI [OF refl]]) (use False in simp)
  then obtain p1 where p1: "p = u64_bytes i @ p1" by (auto simp: prefix_def)
  show ?thesis
  proof (cases "length p1 < 4")
    case True
    then show ?thesis by (simp add: p1 read_entry_def u64_codec.dec_enc get_u32_def take_exact_def)
  next
    case False
    from pre p1 have pre1: "prefix p1 (?n @ f32s_bytes v)" by simp
    then have "prefix ?n p1"
      by (rule prefix_length_prefix [OF prefixI [OF refl]]) (use False in simp)
    then obtain p2 where p2: "p1 = ?n @ p2" by (auto simp: prefix_def)
    have "strict_prefix p2 (f32s_bytes v)" using p p1 p2 by (auto simp: strict_prefix_def)
    then have "length p2 < length v * 4" using prefix_length_less by fastforce
    then show ?thesis
      by (simp add: p1 p2 read_entry_def u64_codec.dec_enc u32_codec.dec_enc unat_len32 [OF len]
          get_f32s_def take_exact_def)
  qed
qed

lemma replay_loop_step:
  assumes "wal_readable R e" "off + length (wal_bytes e @ bs) = len"
  shows "replay_loop R len off (wal_bytes e @ bs)
     = (case replay_loop R len (off + length (wal_bytes e)) bs of (es, res) \<Rightarrow> (e # es, res))"
proof (cases e)
  case (WalInsert i v)
  then show ?thesis
    using assms by (subst replay_loop.simps)
      (simp add: wal_bytes_tag wal_readable_def read_entry_bytes algebra_simps)
qed

lemma replay_loop_cut:
  assumes "wal_entry_ok e" "strict_prefix p (wal_bytes e)" "off + length p = len"
  shows "replay_loop R len off p = ([], if p = [] then Ok () else Err (WalIo IoUnexpectedEof))"
proof (cases p)
  case Nil
  then show ?thesis using assms(3) by (subst replay_loop.simps) simp
next
  case (Cons t q)
  obtain i v where e: "e = WalInsert i v" by (cases e)
  have "t = 1" "strict_prefix q (u64_bytes i @ u32_bytes (word_of_nat (length v)) @ f32s_bytes v)"
    using assms(2) by (simp_all add: e Cons wal_bytes_tag)
  then have "read_entry R q = Err (WalIo IoUnexpectedEof)"
    using assms(1) by (intro read_entry_cut) (simp_all add: e)
  with \<open>t = 1\<close> show ?thesis using assms(3) Cons by (subst replay_loop.simps) simp
qed

lemma replay_loop_log:
  assumes "\<forall>e\<in>set es. wal_readable R e" "off + length (wal_log es @ bs) = len"
  shows "replay_loop R len off (wal_log es @ bs)
     = (case replay_loop R len (off + length (wal_log es)) bs of (fs, res) \<Rightarrow> (es @ fs, res))"
  using assms
proof (induction es arbitrary: off)
  case Nil
  then show ?case by (simp split: prod.split)
next
  case (Cons e es)
  have "replay_loop R len off (wal_bytes e @ wal_log es @ bs)
      = (case replay_loop R len (off + length (wal_bytes e)) (wal_log es @ bs) of (es, res) \<Rightarrow> (e # es, res))"
    using Cons.prems by (intro replay_loop_step) auto
  with Cons show ?case by (simp add: algebra_simps split: prod.splits)
qed

text \<open>A prefix of a log is whole entries and a cut of the next one.\<close>

lemma log_prefix_split:
  "prefix p (wal_log es) \<Longrightarrow> p = wal_log es \<or>
     (\<exists>n q. n < length es \<and> p = wal_log (take n es) @ q \<and> strict_prefix q (wal_bytes (es ! n)))"
proof (induction es arbitrary: p)
  case Nil
  then show ?case by simp
next
  case (Cons e es)
  show ?case
  proof (cases "prefix (wal_bytes e) p")
    case True
    then obtain p' where p': "p = wal_bytes e @ p'" by (auto simp: prefix_def)
    with Cons.prems have "prefix p' (wal_log es)" by simp
    from Cons.IH [OF this] show ?thesis
    proof
      assume "p' = wal_log es" then show ?thesis by (simp add: p')
    next
      assume "\<exists>n q. n < length es \<and> p' = wal_log (take n es) @ q \<and> strict_prefix q (wal_bytes (es ! n))"
      then obtain n q where "n < length es" "p' = wal_log (take n es) @ q" "strict_prefix q (wal_bytes (es ! n))"
        by blast
      then show ?thesis by (intro disjI2 exI [of _ "Suc n"] exI [of _ q]) (simp add: p')
    qed
  next
    case False
    have "prefix p (wal_bytes e) \<or> prefix (wal_bytes e) p"
      using Cons.prems by (intro prefix_same_cases [of _ "wal_log (e # es)"]) auto
    with False have "strict_prefix p (wal_bytes e)" by (auto simp: strict_prefix_def)
    then show ?thesis by (intro disjI2 exI [of _ 0] exI [of _ p]) simp
  qed
qed

lemma replay_log: "\<forall>e\<in>set es. wal_readable R e \<Longrightarrow> wal_replay R (Ok (wal_log es)) = (es, Ok ())"
proof -
  assume "\<forall>e\<in>set es. wal_readable R e"
  note replay_loop_log [OF this, of 0 "[]" "length (wal_log es)"]
  moreover have "replay_loop R n n [] = ([], Ok ())" for n by (subst replay_loop.simps) simp
  ultimately show ?thesis by (simp add: wal_replay_def)
qed

text \<open>A replay that ends normally has read the file to its end, so that the file ends between entries.\<close>

lemma replay_prefix_clean:
  assumes "\<forall>e\<in>set (old @ es). wal_readable R e" "prefix r (wal_log es)"
  shows "\<exists>n res. wal_replay R (Ok (wal_log old @ r)) = (old @ take n es, res) \<and> n \<le> length es
     \<and> (res = Ok () \<or> res = Err (WalIo IoUnexpectedEof)) \<and> (res = Ok () \<longrightarrow> r = wal_log (take n es))"
  using log_prefix_split [OF assms(2)]
proof
  assume "r = wal_log es"
  then show ?thesis
    using replay_log [OF assms(1)] by (intro exI [of _ "length es"] exI [of _ "Ok ()"]) simp
next
  assume "\<exists>n q. n < length es \<and> r = wal_log (take n es) @ q \<and> strict_prefix q (wal_bytes (es ! n))"
  then obtain n q where nq: "n < length es" "r = wal_log (take n es) @ q" "strict_prefix q (wal_bytes (es ! n))"
    by blast
  let ?p = "wal_log (old @ take n es) @ q"
  have ok: "wal_entry_ok (es ! n)" using assms(1) nq(1) by (simp add: wal_readable_def)
  have "\<forall>e\<in>set (old @ take n es). wal_readable R e" using assms(1) by (auto dest: in_set_takeD)
  note replay_loop_log [OF this, of 0 q "length ?p"]
    replay_loop_cut [OF ok nq(3), of "length (wal_log (old @ take n es))" "length ?p" R]
  then have "wal_replay R (Ok ?p) = (old @ take n es, if q = [] then Ok () else Err (WalIo IoUnexpectedEof))"
    by (simp add: wal_replay_def)
  then show ?thesis using nq
    by (intro exI [of _ n] exI [of _ "if q = [] then Ok () else Err (WalIo IoUnexpectedEof)"]) auto
qed

lemma replay_prefix:
  assumes "\<forall>e\<in>set (old @ es). wal_readable R e" "prefix r (wal_log es)"
  shows "\<exists>n res. wal_replay R (Ok (wal_log old @ r)) = (old @ take n es, res) \<and> n \<le> length es
     \<and> (res = Ok () \<or> res = Err (WalIo IoUnexpectedEof))"
  using replay_prefix_clean [OF assms] by blast

text \<open>A commit that succeeds leaves the whole stream in the file.\<close>

lemma wal_commit_Ok:
  assumes "ww_wf w" "wal_commit cf w = (w', Ok ())"
  shows "ww_disk w' = ww_stream w \<and> ww_buf w' = [] \<and> ww_committed w' = length (ww_stream w)
     \<and> ww_wf w'"
proof -
  obtain w1 where "flush_buf (fst cf) w = (w1, Ok ())"
    and w': "w' = w1\<lparr> ww_committed := length (ww_disk w1) \<rparr>"
    using assms(2) by (cases "flush_buf (fst cf) w"; cases "snd (flush_buf (fst cf) w)")
      (auto simp: wal_commit_def split: option.splits)
  then have "ww_buf w1 = []" "ww_stream w1 = ww_stream w" "ww_wf w1"
    using flush_buf_writes [OF assms(1), of "fst cf"] by (auto simp: writes_def)
  with w' show ?thesis by (simp add: ww_stream_def ww_wf_def)
qed

section \<open>Properties\<close>

text \<open>C7: Crash recovery: take a log whose file holds the entries \<open>old\<close>, append entries under any plan of
  short and failed writes (the run stops at the first failure), and crash, losing the buffer. Replaying
  the file delivers all of \<open>old\<close> followed by a prefix of the appended entries, in order and unaltered;
  it ends normally when the file ends between entries and with an end-of-file error otherwise, and a
  run that succeeded and was committed loses nothing.\<close>

theorem wal_crash_recovery:
  assumes "\<forall>e\<in>set (old @ es). wal_readable R e" "length fs = length es"
    and "wal_open None (Some (wal_log old)) = Ok w"
  shows "\<exists>n res. n \<le> length es
     \<and> wal_replay R (Ok (ww_disk (fst (wal_appends fs es w)))) = (old @ take n es, res)
     \<and> (res = Ok () \<or> res = Err (WalIo IoUnexpectedEof))
     \<and> (\<forall>w'. snd (wal_appends fs es w) = Ok () \<and>
            wal_commit cf (fst (wal_appends fs es w)) = (w', Ok ()) \<longrightarrow>
            wal_replay R (Ok (ww_disk w')) = (old @ es, Ok ())
            \<and> ww_committed w' = length (wal_log (old @ es)))"
proof -
  let ?run = "wal_appends fs es w"
  have w: "ww_wf w" "ww_disk w = wal_log old" "ww_stream w = wal_log old"
    using assms(3) by (auto simp: wal_open_def ww_wf_def ww_stream_def Let_def)
  have run: "writes (wal_log es) w ?run" by (rule wal_appends_writes [OF w(1) assms(2)])
  then obtain d where d: "prefix d (wal_log es)" "ww_stream (fst ?run) = wal_log old @ d"
    "snd ?run = Ok () \<longrightarrow> d = wal_log es"
    using w(3) by (auto simp: writes_def)
  obtain r where r: "ww_disk (fst ?run) = wal_log old @ r"
    using run w(2) by (auto simp: writes_def prefix_def)
  have "prefix (ww_disk (fst ?run)) (ww_stream (fst ?run))" by (simp add: ww_stream_def)
  with r d have "prefix r (wal_log es)" by (auto intro: prefix_order.trans)
  from replay_prefix [OF assms(1) this] obtain n res where
    "n \<le> length es" "wal_replay R (Ok (ww_disk (fst ?run))) = (old @ take n es, res)"
    "res = Ok () \<or> res = Err (WalIo IoUnexpectedEof)"
    unfolding r by blast
  moreover have "wal_replay R (Ok (ww_disk w')) = (old @ es, Ok ()) \<and> ww_committed w' = length (wal_log (old @ es))"
    if "snd ?run = Ok ()" and c: "wal_commit cf (fst ?run) = (w', Ok ())" for w'
  proof -
    have "ww_wf (fst ?run)" using run by (simp add: writes_def)
    from wal_commit_Ok [OF this c] show ?thesis using d that(1) replay_log [OF assms(1)] by simp
  qed
  ultimately show ?thesis by blast
qed

theorem wal_crash_recovery_witness:
  "\<exists>n res. n \<le> length [WalInsert 2 [f_two]]
     \<and> wal_replay demo_runtime (Ok (ww_disk (fst (wal_appends [\<lambda>_. (Some (3, IoOther 28), None)]
          [WalInsert 2 [f_two]]
          \<lparr> ww_disk = wal_log [WalInsert 1 [f_one]], ww_buf = [], ww_pos = None,
            ww_committed = length (wal_log [WalInsert 1 [f_one]]) \<rparr>))))
        = ([WalInsert 1 [f_one]] @ take n [WalInsert 2 [f_two]], res)"
proof -
  have "wal_open None (Some (wal_log [WalInsert 1 [f_one]])) =
      Ok \<lparr> ww_disk = wal_log [WalInsert 1 [f_one]], ww_buf = [], ww_pos = None,
            ww_committed = length (wal_log [WalInsert 1 [f_one]]) \<rparr>"
    by (simp add: wal_open_def Let_def)
  moreover have "\<forall>e\<in>set ([WalInsert 1 [f_one]] @ [WalInsert 2 [f_two]]). wal_readable demo_runtime e"
    by (simp add: wal_readable_def demo_runtime_def)
  ultimately show ?thesis
    using wal_crash_recovery [of "[WalInsert 1 [f_one]]" "[WalInsert 2 [f_two]]" demo_runtime
        "[\<lambda>_. (Some (3, IoOther 28), None)]"] by fastforce
qed

text \<open>Damage is detected: when an entry is followed by a byte that is not a tag the code knows, the
  replay delivers the entries before it and reports the offset of that byte.\<close>

theorem wal_unknown_tag:
  assumes "\<forall>e\<in>set es. wal_readable R e" "t \<noteq> 1"
  shows "wal_replay R (Ok (wal_log es @ t # rest)) = (es, Err (WalCorrupt (length (wal_log es))))"
proof -
  let ?n = "length (wal_log es)"
  have "replay_loop R (length (wal_log es @ t # rest)) ?n (t # rest) = ([], Err (WalCorrupt ?n))"
    using assms(2) by (subst replay_loop.simps) simp
  then show ?thesis
    using replay_loop_log [OF assms(1), of 0 "t # rest" "length (wal_log es @ t # rest)"]
    by (simp add: wal_replay_def)
qed

theorem wal_unknown_tag_witness:
  "wal_replay demo_runtime (Ok (wal_log [WalInsert 5 [f_one, f_zero]] @ 2 # [0, 0]))
     = ([WalInsert 5 [f_one, f_zero]], Err (WalCorrupt (length (wal_log [WalInsert 5 [f_one, f_zero]]))))"
  by (rule wal_unknown_tag) (simp_all add: wal_readable_def demo_runtime_def)

end
