(* ===== verification/Segments.thy ===== *)
theory Segments
  imports Float32 Byte_Codec
begin

text \<open>
  Sealed segments (\<open>vec/src/storage/segments.rs\<close>): the 64-byte header, the offset table, the node
  records, the writer that fills the table in last, and the accessors over the mapped file, each
  slice of which panics when it is out of range. The map starts at a page boundary, so a cast of a
  slice to \<open>[f32]\<close> panics unless its offset is a multiple of four.
\<close>

section \<open>The file format\<close>

datatype segment_error =
    SegBadMagic | SegUnsupportedVersion u32 | SegIo io_error | SegTruncated | SegDimensionMismatch

record seg_header =
  sh_magic :: bytes
  sh_version :: u32
  sh_num_nodes :: u32
  sh_dims :: u32
  sh_m :: u32
  sh_m_max :: u32
  sh_pq_subvectors :: u32
  sh_pq_enabled :: u8
  sh_reserved :: bytes

definition seg_magic :: bytes where
  "seg_magic = [86, 73, 86, 89, 83, 69, 71, 0]"

definition seg_version :: u32 where "seg_version = 1"

definition header_size :: nat where "header_size = 64"

text \<open>\<open>bytemuck::bytes\_of\<close> on the \<open>repr(C)\<close> header, which has no padding.\<close>

definition header_bytes :: "seg_header \<Rightarrow> bytes" where
  "header_bytes h =
     sh_magic h @ u32_bytes (sh_version h) @ u32_bytes (sh_num_nodes h) @ u32_bytes (sh_dims h)
     @ u32_bytes (sh_m h) @ u32_bytes (sh_m_max h) @ u32_bytes (sh_pq_subvectors h)
     @ [sh_pq_enabled h] @ sh_reserved h"

definition sub_bytes :: "nat \<Rightarrow> nat \<Rightarrow> bytes \<Rightarrow> bytes" where
  "sub_bytes p n b = take n (drop p b)"

definition header_of_bytes :: "bytes \<Rightarrow> seg_header" where
  "header_of_bytes b =
     \<lparr> sh_magic = sub_bytes 0 8 b, sh_version = u32_of_bytes (sub_bytes 8 4 b),
       sh_num_nodes = u32_of_bytes (sub_bytes 12 4 b), sh_dims = u32_of_bytes (sub_bytes 16 4 b),
       sh_m = u32_of_bytes (sub_bytes 20 4 b), sh_m_max = u32_of_bytes (sub_bytes 24 4 b),
       sh_pq_subvectors = u32_of_bytes (sub_bytes 28 4 b), sh_pq_enabled = b ! 32,
       sh_reserved = sub_bytes 33 31 b \<rparr>"

record node_record =
  nr_id :: u64
  nr_level :: u32
  nr_neighbors :: "u32 list list"
  nr_pq_code :: "bytes option"
  nr_vector :: "f32 list option"

section \<open>The mapped segment\<close>

record sealed_segment =
  ss_mmap :: bytes
  ss_table_off :: nat
  ss_data_off :: nat
  ss_num_nodes :: nat
  ss_dims :: nat
  ss_m :: nat
  ss_m_max :: nat
  ss_pq_enabled :: bool
  ss_pq_subvectors :: nat
  ss_has_codebook :: bool
  ss_codebook_off :: nat

definition seg_from_mmap :: "bytes \<Rightarrow> (segment_error, sealed_segment) outcome" where
  "seg_from_mmap b =
     (if length b < header_size then Err SegTruncated
      else (let h = header_of_bytes (take header_size b) in
        if sh_magic h \<noteq> seg_magic then Err SegBadMagic
        else if sh_version h \<noteq> seg_version then Err (SegUnsupportedVersion (sh_version h))
        else (let n = unat (sh_num_nodes h);
                  pq = sh_pq_enabled h \<noteq> 0;
                  subs = unat (sh_pq_subvectors h);
                  codebook = header_size + n * 8;
                  data = codebook + (if pq then subs * 256 * 4 else 0)
              in if length b < data + (if 0 < n then 12 else 0) then Err SegTruncated
                 else Ok \<lparr> ss_mmap = b, ss_table_off = header_size, ss_data_off = data,
                           ss_num_nodes = n, ss_dims = unat (sh_dims h), ss_m = unat (sh_m h),
                           ss_m_max = unat (sh_m_max h), ss_pq_enabled = pq,
                           ss_pq_subvectors = subs, ss_has_codebook = pq,
                           ss_codebook_off = codebook \<rparr>)))"

text \<open>\<open>open\<close> on what the file system gave.\<close>

definition seg_open :: "(io_error, bytes) outcome \<Rightarrow> (segment_error, sealed_segment) outcome" where
  "seg_open file = obind (map_err SegIo file) seg_from_mmap"

text \<open>Slices and the readers on them; \<open>usize\<close> additions that leave 64 bits panic.\<close>

definition slice :: "nat \<Rightarrow> nat \<Rightarrow> bytes \<Rightarrow> (segment_error, bytes) outcome" where
  "slice p n b = (if p + n \<le> length b then Ok (sub_bytes p n b) else Panic)"

definition slice_from :: "nat \<Rightarrow> bytes \<Rightarrow> (segment_error, bytes) outcome" where
  "slice_from p b = (if p \<le> length b then Ok (drop p b) else Panic)"

definition usize_add :: "nat \<Rightarrow> nat \<Rightarrow> (segment_error, nat) outcome" where
  "usize_add a b = (if a + b < 2 ^ 64 then Ok (a + b) else Panic)"

definition rd_u32 :: "nat \<Rightarrow> bytes \<Rightarrow> (segment_error, u32) outcome" where
  "rd_u32 p b = obind (slice p 4 b) (\<lambda>x. Ok (u32_of_bytes x))"

definition rd_u64 :: "nat \<Rightarrow> bytes \<Rightarrow> (segment_error, u64) outcome" where
  "rd_u64 p b = obind (slice p 8 b) (\<lambda>x. Ok (u64_of_bytes x))"

text \<open>\<open>cast\_slice(&buf[pos..pos + 4n])\<close>, where \<open>buf\<close> starts at \<open>start\<close> in the map.\<close>

definition cast_f32s :: "nat \<Rightarrow> nat \<Rightarrow> nat \<Rightarrow> bytes \<Rightarrow> (segment_error, f32 list) outcome" where
  "cast_f32s start p n b =
     obind (slice p (n * 4) b)
       (\<lambda>x. if (start + p) mod 4 = 0 then Ok (f32s_of_bytes x) else Panic)"

definition seg_offset_of :: "sealed_segment \<Rightarrow> nat \<Rightarrow> (segment_error, nat) outcome" where
  "seg_offset_of s i =
     (if ss_num_nodes s \<le> i then Err SegTruncated
      else obind (rd_u64 (ss_table_off s + i * 8) (ss_mmap s))
             (\<lambda>rel. usize_add (ss_data_off s) (unat rel)))"

definition seg_codebook :: "sealed_segment \<Rightarrow> (segment_error, f32 list option) outcome" where
  "seg_codebook s =
     (if \<not> ss_has_codebook s then Ok None
      else obind (cast_f32s 0 (ss_codebook_off s) (ss_pq_subvectors s * 256) (ss_mmap s))
             (\<lambda>v. Ok (Some v)))"

fun read_layer :: "nat \<Rightarrow> nat \<Rightarrow> bytes \<Rightarrow> (segment_error, u32 list \<times> nat) outcome" where
  "read_layer 0 p b = Ok ([], p)"
| "read_layer (Suc n) p b =
     obind (rd_u32 p b) (\<lambda>x. obind (read_layer n (p + 4) b) (\<lambda>(xs, q). Ok (x # xs, q)))"

fun read_layers :: "nat \<Rightarrow> nat \<Rightarrow> bytes \<Rightarrow> (segment_error, u32 list list \<times> nat) outcome" where
  "read_layers 0 p b = Ok ([], p)"
| "read_layers (Suc n) p b =
     obind (rd_u32 p b) (\<lambda>c.
     obind (read_layer (unat c) (p + 4) b) (\<lambda>(l, q).
     obind (read_layers n q b) (\<lambda>(ls, q'). Ok (l # ls, q'))))"

definition seg_read_node :: "sealed_segment \<Rightarrow> nat \<Rightarrow> (segment_error, node_record) outcome" where
  "seg_read_node s i =
     obind (seg_offset_of s i) (\<lambda>start.
     obind (slice_from start (ss_mmap s)) (\<lambda>buf.
     obind (rd_u64 0 buf) (\<lambda>node_id.
     obind (rd_u32 8 buf) (\<lambda>level.
     obind (read_layers (unat level + 1) 12 buf) (\<lambda>(layers, p).
       if ss_pq_enabled s
       then obind (slice p (ss_pq_subvectors s) buf) (\<lambda>code.
              Ok \<lparr> nr_id = node_id, nr_level = level, nr_neighbors = layers,
                   nr_pq_code = Some code, nr_vector = None \<rparr>)
       else obind (cast_f32s start p (ss_dims s) buf) (\<lambda>v.
              Ok \<lparr> nr_id = node_id, nr_level = level, nr_neighbors = layers,
                   nr_pq_code = None, nr_vector = Some v \<rparr>))))))"

fun skip_layers :: "nat \<Rightarrow> nat \<Rightarrow> bytes \<Rightarrow> (segment_error, nat) outcome" where
  "skip_layers 0 p b = Ok p"
| "skip_layers (Suc n) p b =
     obind (rd_u32 p b) (\<lambda>c. skip_layers n (p + (4 + unat c * 4)) b)"

definition seg_read_pq_code :: "sealed_segment \<Rightarrow> nat \<Rightarrow> (segment_error, bytes) outcome" where
  "seg_read_pq_code s i =
     obind (seg_offset_of s i) (\<lambda>start.
     obind (slice_from start (ss_mmap s)) (\<lambda>buf.
     obind (rd_u32 8 buf) (\<lambda>level.
     obind (skip_layers (unat level + 1) 12 buf) (\<lambda>p.
     slice p (ss_pq_subvectors s) buf))))"

definition seg_id_at :: "sealed_segment \<Rightarrow> nat \<Rightarrow> (segment_error, u64) outcome" where
  "seg_id_at s i =
     obind (seg_offset_of s i) (\<lambda>start.
     obind (usize_add start 8) (\<lambda>end_pos.
       if length (ss_mmap s) < end_pos then Err SegTruncated
       else rd_u64 start (ss_mmap s)))"

text \<open>The loop of \<open>vector\_at\<close>, which checks the bounds before it reads.\<close>

fun walk_layers :: "nat \<Rightarrow> nat \<Rightarrow> bytes \<Rightarrow> (segment_error, nat) outcome" where
  "walk_layers 0 p b = Ok p"
| "walk_layers (Suc n) p b =
     (if length b < p + 4 then Err SegTruncated
      else obind (rd_u32 p b) (\<lambda>c.
        if length b < p + 4 + unat c * 4 then Err SegTruncated
        else walk_layers n (p + 4 + unat c * 4) b))"

definition seg_vector_at :: "sealed_segment \<Rightarrow> nat \<Rightarrow> (segment_error, f32 list) outcome" where
  "seg_vector_at s i =
     obind (seg_offset_of s i) (\<lambda>start.
     obind (slice_from start (ss_mmap s)) (\<lambda>buf.
       if length buf < 12 then Err SegTruncated
       else obind (rd_u32 8 buf) (\<lambda>level.
            obind (walk_layers (unat level + 1) 12 buf) (\<lambda>p.
              if ss_pq_enabled s then Err SegDimensionMismatch
              else if length buf < p + ss_dims s * 4 then Err SegTruncated
              else cast_f32s start p (ss_dims s) buf))))"

section \<open>The writer\<close>

type_synonym seg_node = "u64 \<times> u32 \<times> u32 list list \<times> f32 list"

record seg_writer =
  sw_header :: seg_header
  sw_nodes :: "seg_node list"

definition seg_writer_new :: "u32 \<Rightarrow> u32 \<Rightarrow> u32 \<Rightarrow> seg_writer" where
  "seg_writer_new dims m m_max =
     \<lparr> sw_header = \<lparr> sh_magic = seg_magic, sh_version = seg_version, sh_num_nodes = 0,
         sh_dims = dims, sh_m = m, sh_m_max = m_max, sh_pq_subvectors = 0, sh_pq_enabled = 0,
         sh_reserved = replicate 31 0 \<rparr>,
       sw_nodes = [] \<rparr>"

definition seg_push ::
  "u64 \<Rightarrow> u32 \<Rightarrow> u32 list list \<Rightarrow> f32 list \<Rightarrow> seg_writer \<Rightarrow> (segment_error, seg_writer) outcome" where
  "seg_push i level neighbors v sw =
     (if length v \<noteq> unat (sh_dims (sw_header sw)) then Err SegDimensionMismatch
      else Ok (sw\<lparr> sw_nodes := sw_nodes sw @ [(i, level, neighbors, v)] \<rparr>))"

text \<open>The file behind the writer: its bytes and the position of the next write.\<close>

record cursor =
  cu_bytes :: bytes
  cu_pos :: nat

definition cu_write :: "bytes \<Rightarrow> cursor \<Rightarrow> cursor" where
  "cu_write xs c = \<lparr> cu_bytes = write_at (cu_pos c) xs (cu_bytes c), cu_pos = cu_pos c + length xs \<rparr>"

definition layer_chunks :: "u32 list \<Rightarrow> bytes list" where
  "layer_chunks l = u32_bytes (word_of_nat (length l)) # map u32_bytes l"

definition node_chunks :: "nat \<Rightarrow> seg_node \<Rightarrow> bytes list" where
  "node_chunks dims n =
     (case n of (i, level, neighbors, v) \<Rightarrow>
       [u64_bytes i, u32_bytes level] @ concat (map layer_chunks neighbors)
       @ [take (dims * 4) (f32s_bytes v)])"

fun write_nodes :: "nat \<Rightarrow> nat \<Rightarrow> seg_node list \<Rightarrow> cursor \<Rightarrow> cursor \<times> u64 list" where
  "write_nodes dims start [] c = (c, [])"
| "write_nodes dims start (n # ns) c =
     (case write_nodes dims start ns (foldl (\<lambda>c' xs. cu_write xs c') c (node_chunks dims n)) of
        (c', offs) \<Rightarrow> (c', word_of_nat (cu_pos c - start) # offs))"

definition seg_write :: "seg_writer \<Rightarrow> cursor \<Rightarrow> cursor" where
  "seg_write sw c =
     (let h = (sw_header sw)\<lparr> sh_num_nodes := word_of_nat (length (sw_nodes sw)) \<rparr>;
          c1 = cu_write (header_bytes h) c;
          c2 = foldl (\<lambda>c' _. cu_write (replicate 8 0) c') c1 (sw_nodes sw)
      in case write_nodes (unat (sh_dims h)) (cu_pos c2) (sw_nodes sw) c2 of
           (c3, offs) \<Rightarrow>
             (foldl (\<lambda>c' off. cu_write (u64_bytes off) c') (c3\<lparr> cu_pos := cu_pos c1 \<rparr>) offs)
               \<lparr> cu_pos := cu_pos c3 \<rparr>)"

section \<open>What the writer leaves in the file\<close>

definition layer_bytes :: "u32 list \<Rightarrow> bytes" where
  "layer_bytes l = concat (layer_chunks l)"

definition node_bytes :: "nat \<Rightarrow> seg_node \<Rightarrow> bytes" where
  "node_bytes dims n = concat (node_chunks dims n)"

fun offs_from :: "nat \<Rightarrow> nat \<Rightarrow> seg_node list \<Rightarrow> u64 list" where
  "offs_from dims b [] = []"
| "offs_from dims b (n # ns) = word_of_nat b # offs_from dims (b + length (node_bytes dims n)) ns"

lemma offs_from_length [simp]: "length (offs_from dims b ns) = length ns"
  by (induction dims b ns rule: offs_from.induct) auto

lemma offs_from_nth:
  "i < length ns \<Longrightarrow>
    offs_from dims b ns ! i = word_of_nat (b + length (concat (map (node_bytes dims) (take i ns))))"
proof (induction dims b ns arbitrary: i rule: offs_from.induct)
  case (2 dims b n ns)
  then show ?case by (cases i) (auto simp: algebra_simps)
qed simp

definition at_end :: "cursor \<Rightarrow> bool" where
  "at_end c \<longleftrightarrow> cu_pos c = length (cu_bytes c)"

definition extend :: "bytes \<Rightarrow> cursor \<Rightarrow> cursor" where
  "extend xs c = \<lparr> cu_bytes = cu_bytes c @ xs, cu_pos = length (cu_bytes c @ xs) \<rparr>"

lemma extend_simps [simp]:
  "at_end (extend xs c)" "cu_bytes (extend xs c) = cu_bytes c @ xs"
  "cu_pos (extend xs c) = length (cu_bytes c) + length xs"
  "extend ys (extend xs c) = extend (xs @ ys) c"
  by (simp_all add: at_end_def extend_def)

lemma cu_write_end: "at_end c \<Longrightarrow> cu_write xs c = extend xs c"
  by (simp add: cu_write_def at_end_def extend_def write_at_end)

lemma extend_Nil: "at_end c \<Longrightarrow> extend [] c = c"
  by (simp add: extend_def at_end_def)

lemma chunks_end: "at_end c \<Longrightarrow> foldl (\<lambda>c' xs. cu_write xs c') c css = extend (concat css) c"
  by (induction css arbitrary: c) (auto simp: cu_write_end extend_Nil)

lemma zeros_end:
  "at_end c \<Longrightarrow> foldl (\<lambda>c' _. cu_write (replicate 8 0) c') c ns = extend (replicate (8 * length ns) 0) c"
  by (induction ns arbitrary: c) (auto simp: cu_write_end extend_Nil replicate_add [symmetric])

lemma write_nodes_end:
  "at_end c \<Longrightarrow> start \<le> cu_pos c \<Longrightarrow>
    write_nodes dims start ns c =
      (extend (concat (map (node_bytes dims) ns)) c, offs_from dims (cu_pos c - start) ns)"
proof (induction ns arbitrary: c)
  case Nil
  then show ?case by (simp add: extend_Nil)
next
  case (Cons n ns)
  have pos: "cu_pos c = length (cu_bytes c)" using Cons.prems by (simp add: at_end_def)
  have "write_nodes dims start ns (extend (node_bytes dims n) c) =
      (extend (concat (map (node_bytes dims) ns)) (extend (node_bytes dims n) c),
       offs_from dims (cu_pos (extend (node_bytes dims n) c) - start) ns)"
    using Cons.prems pos by (intro Cons.IH) simp_all
  then show ?case
    using Cons.prems pos by (simp add: chunks_end node_bytes_def [symmetric])
qed

lemma fill_table:
  "length ys = 8 * length offs \<Longrightarrow> cu_bytes c = pre @ ys @ post \<Longrightarrow> cu_pos c = length pre \<Longrightarrow>
    cu_bytes (foldl (\<lambda>c' off. cu_write (u64_bytes off) c') c offs) = pre @ concat (map u64_bytes offs) @ post"
proof (induction offs arbitrary: c pre ys)
  case (Cons off offs)
  have "length (take 8 ys) = 8" using Cons.prems(1) by simp
  then obtain zs ws where ys: "ys = zs @ ws" "length zs = 8" by (metis append_take_drop_id)
  have "cu_bytes (cu_write (u64_bytes off) c) = (pre @ u64_bytes off) @ ws @ post"
    using Cons.prems(2,3) ys write_at_inside [of "u64_bytes off" zs pre "ws @ post"]
    by (simp add: cu_write_def)
  moreover have "cu_pos (cu_write (u64_bytes off) c) = length (pre @ u64_bytes off)"
    using Cons.prems(3) by (simp add: cu_write_def)
  ultimately show ?case
    using Cons.IH [of ws _ "pre @ u64_bytes off"] Cons.prems(1) ys by simp
qed simp

definition final_header :: "seg_writer \<Rightarrow> seg_header" where
  "final_header sw = (sw_header sw)\<lparr> sh_num_nodes := word_of_nat (length (sw_nodes sw)) \<rparr>"

definition seg_file :: "seg_writer \<Rightarrow> bytes" where
  "seg_file sw =
     header_bytes (final_header sw)
     @ concat (map u64_bytes (offs_from (unat (sh_dims (sw_header sw))) 0 (sw_nodes sw)))
     @ concat (map (node_bytes (unat (sh_dims (sw_header sw)))) (sw_nodes sw))"

lemma seg_write_file: "cu_bytes (seg_write sw \<lparr> cu_bytes = [], cu_pos = 0 \<rparr>) = seg_file sw"
proof -
  let ?c = "\<lparr> cu_bytes = [], cu_pos = 0 \<rparr>" and ?h = "header_bytes (final_header sw)"
  let ?d = "unat (sh_dims (sw_header sw))" and ?ns = "sw_nodes sw"
  have "at_end ?c" by (simp add: at_end_def)
  then have c1: "cu_write ?h ?c = extend ?h ?c" by (rule cu_write_end)
  define c2 where "c2 = extend (?h @ replicate (8 * length ?ns) 0) ?c"
  have c2: "foldl (\<lambda>c' _. cu_write (replicate 8 0) c') (extend ?h ?c) ?ns = c2" "at_end c2"
    by (simp_all add: zeros_end c2_def)
  have c3: "write_nodes ?d (cu_pos c2) ?ns c2 =
      (extend (concat (map (node_bytes ?d) ?ns)) c2, offs_from ?d 0 ?ns)"
    using c2(2) by (simp add: write_nodes_end)
  show ?thesis
    unfolding seg_write_def Let_def final_header_def [symmetric] c1 c2(1)
    by (simp add: c3 final_header_def seg_file_def)
       (rule fill_table [where ys = "replicate (8 * length ?ns) 0"];
        simp add: c2_def final_header_def)
qed

section \<open>Reading it back\<close>

definition seg_node_ok :: "nat \<Rightarrow> seg_node \<Rightarrow> bool" where
  "seg_node_ok dims n \<longleftrightarrow>
     (case n of (i, level, neighbors, v) \<Rightarrow>
        length v = dims \<and> length neighbors = unat level + 1
        \<and> (\<forall>l\<in>set neighbors. length l < 2 ^ 32))"

text \<open>What the writer is used with: a fresh header, nodes of the stated shape, sizes in range.\<close>

definition seg_writer_ok :: "seg_writer \<Rightarrow> bool" where
  "seg_writer_ok sw \<longleftrightarrow>
     sw_header sw = sw_header (seg_writer_new (sh_dims (sw_header sw)) (sh_m (sw_header sw)) (sh_m_max (sw_header sw)))
     \<and> (\<forall>n\<in>set (sw_nodes sw). seg_node_ok (unat (sh_dims (sw_header sw))) n)
     \<and> length (sw_nodes sw) < 2 ^ 32 \<and> length (seg_file sw) < 2 ^ 63"

lemma slice_at: "p = length pre \<Longrightarrow> n = length xs \<Longrightarrow> slice p n (pre @ xs @ r) = Ok xs"
  by (simp add: slice_def sub_bytes_def)

lemma rd_u32_at: "p = length pre \<Longrightarrow> rd_u32 p (pre @ u32_bytes x @ r) = Ok x"
  by (simp add: rd_u32_def slice_at)

lemma rd_u64_at: "p = length pre \<Longrightarrow> rd_u64 p (pre @ u64_bytes x @ r) = Ok x"
  by (simp add: rd_u64_def slice_at)

lemma unat_count: "length l < 2 ^ 32 \<Longrightarrow> unat (word_of_nat (length l) :: u32) = length l"
  by (simp add: unat_of_nat)

lemma layer_bytes_eq: "layer_bytes l = u32_bytes (word_of_nat (length l)) @ concat (map u32_bytes l)"
  by (simp add: layer_bytes_def layer_chunks_def)

lemma concat_u32_length [simp]: "length (concat (map u32_bytes l)) = 4 * length l"
  by (induction l) auto

lemma layer_bytes_length [simp]: "length (layer_bytes l) = 4 + 4 * length l"
  by (simp add: layer_bytes_eq)

lemma read_layer_at:
  "p = length pre \<Longrightarrow>
    read_layer (length l) p (pre @ concat (map u32_bytes l) @ r) = Ok (l, p + 4 * length l)"
proof (induction l arbitrary: pre p)
  case (Cons x l)
  then show ?case using Cons.IH [of "p + 4" "pre @ u32_bytes x"] by (simp add: rd_u32_at)
qed simp

lemma read_layers_at:
  "p = length pre \<Longrightarrow> \<forall>l\<in>set ls. length l < 2 ^ 32 \<Longrightarrow>
    read_layers (length ls) p (pre @ concat (map layer_bytes ls) @ r)
      = Ok (ls, p + length (concat (map layer_bytes ls)))"
proof (induction ls arbitrary: pre p)
  case (Cons l ls)
  have len: "length l < 2 ^ 32" using Cons.prems(2) by simp
  have "read_layer (length l) (p + 4) ((pre @ u32_bytes (word_of_nat (length l))) @ concat (map u32_bytes l)
      @ concat (map layer_bytes ls) @ r) = Ok (l, p + 4 + 4 * length l)"
    using Cons.prems(1) by (intro read_layer_at) simp
  moreover have "read_layers (length ls) (p + 4 + 4 * length l) ((pre @ layer_bytes l) @ concat (map layer_bytes ls) @ r)
      = Ok (ls, p + 4 + 4 * length l + length (concat (map layer_bytes ls)))"
    using Cons.prems by (intro Cons.IH) simp_all
  ultimately show ?case
    using Cons.prems(1) unat_count [OF len]
    by (simp add: layer_bytes_eq [of l] rd_u32_at algebra_simps)
qed simp

lemma walk_layers_at:
  "p = length pre \<Longrightarrow> \<forall>l\<in>set ls. length l < 2 ^ 32 \<Longrightarrow>
    walk_layers (length ls) p (pre @ concat (map layer_bytes ls) @ r)
      = Ok (p + length (concat (map layer_bytes ls)))"
proof (induction ls arbitrary: pre p)
  case (Cons l ls)
  have len: "length l < 2 ^ 32" using Cons.prems(2) by simp
  have "walk_layers (length ls) (p + 4 + 4 * length l) ((pre @ layer_bytes l) @ concat (map layer_bytes ls) @ r)
      = Ok (p + 4 + 4 * length l + length (concat (map layer_bytes ls)))"
    using Cons.prems by (intro Cons.IH) simp_all
  then show ?case
    using Cons.prems(1) unat_count [OF len]
    by (simp add: layer_bytes_eq [of l] rd_u32_at algebra_simps)
qed simp

lemma node_bytes_eq:
  "node_bytes dims (i, level, ls, v) =
     u64_bytes i @ u32_bytes level @ concat (map layer_bytes ls) @ take (dims * 4) (f32s_bytes v)"
proof -
  have "concat (concat (map layer_chunks ls)) = concat (map layer_bytes ls)"
    by (induction ls) (auto simp: layer_bytes_def)
  then show ?thesis by (simp add: node_bytes_def node_chunks_def)
qed

lemma layers_mod4: "length (concat (map layer_bytes ls)) mod 4 = 0"
proof (induction ls)
  case (Cons l ls)
  then show ?case by simp presburger
qed simp

lemma node_mod4: "seg_node_ok dims n \<Longrightarrow> length (node_bytes dims n) mod 4 = 0"
proof (cases n)
  case (fields i level ls v)
  have "length (concat (map layer_bytes ls)) mod 4 = 0" by (rule layers_mod4)
  moreover assume "seg_node_ok dims n"
  ultimately show ?thesis
    by (simp add: fields node_bytes_eq seg_node_ok_def mod_eq_0_iff_dvd)
qed

lemma nodes_mod4:
  "\<forall>n\<in>set ns. seg_node_ok dims n \<Longrightarrow> length (concat (map (node_bytes dims) ns)) mod 4 = 0"
proof (induction ns)
  case (Cons n ns)
  then have "length (node_bytes dims n) mod 4 = 0" by (simp add: node_mod4)
  with Cons show ?case by (simp add: mod_eq_0_iff_dvd)
qed simp

lemma header_roundtrip:
  "length (sh_magic h) = 8 \<Longrightarrow> length (sh_reserved h) = 31 \<Longrightarrow>
    header_of_bytes (header_bytes h) = h \<and> length (header_bytes h) = 64"
  by (simp add: header_of_bytes_def header_bytes_def sub_bytes_def nth_append)

lemma concat_u64_length [simp]: "length (concat (map u64_bytes l)) = 8 * length l"
  by (induction l) auto

lemma rd_table:
  assumes "i < length offs" "p = length pre + i * 8"
  shows "rd_u64 p (pre @ concat (map u64_bytes offs) @ r) = Ok (offs ! i)"
proof -
  have "concat (map u64_bytes offs) = concat (map u64_bytes (take i offs)) @ u64_bytes (offs ! i)
      @ concat (map u64_bytes (drop (Suc i) offs))"
    using arg_cong [OF id_take_nth_drop [OF assms(1)], of "\<lambda>l. concat (map u64_bytes l)"] by simp
  then show ?thesis
    using rd_u64_at [of p "pre @ concat (map u64_bytes (take i offs))" "offs ! i"
        "concat (map u64_bytes (drop (Suc i) offs)) @ r"] assms
    by simp
qed

text \<open>The segment the reader builds over the written file.\<close>

definition seg_of_writer :: "seg_writer \<Rightarrow> sealed_segment" where
  "seg_of_writer sw =
     (let n = length (sw_nodes sw); h = sw_header sw in
      \<lparr> ss_mmap = seg_file sw, ss_table_off = 64, ss_data_off = 64 + n * 8, ss_num_nodes = n,
        ss_dims = unat (sh_dims h), ss_m = unat (sh_m h), ss_m_max = unat (sh_m_max h),
        ss_pq_enabled = False, ss_pq_subvectors = 0, ss_has_codebook = False,
        ss_codebook_off = 64 + n * 8 \<rparr>)"

lemma seg_writer_ok_header:
  assumes "seg_writer_ok sw"
  shows "sh_magic (final_header sw) = seg_magic" "sh_version (final_header sw) = seg_version"
    and "sh_pq_enabled (final_header sw) = 0" "sh_pq_subvectors (final_header sw) = 0"
    and "length (sh_reserved (final_header sw)) = 31"
    and "unat (sh_num_nodes (final_header sw)) = length (sw_nodes sw)"
    and "sh_dims (final_header sw) = sh_dims (sw_header sw)"
    and "sh_m (final_header sw) = sh_m (sw_header sw)"
    and "sh_m_max (final_header sw) = sh_m_max (sw_header sw)"
proof -
  obtain d m mm where "sw_header sw = sw_header (seg_writer_new d m mm)" "length (sw_nodes sw) < 2 ^ 32"
    using assms by (auto simp: seg_writer_ok_def)
  then show "sh_magic (final_header sw) = seg_magic" "sh_version (final_header sw) = seg_version"
    "sh_pq_enabled (final_header sw) = 0" "sh_pq_subvectors (final_header sw) = 0"
    "length (sh_reserved (final_header sw)) = 31"
    "unat (sh_num_nodes (final_header sw)) = length (sw_nodes sw)"
    "sh_dims (final_header sw) = sh_dims (sw_header sw)"
    "sh_m (final_header sw) = sh_m (sw_header sw)"
    "sh_m_max (final_header sw) = sh_m_max (sw_header sw)"
    by (simp_all add: final_header_def seg_writer_new_def unat_of_nat)
qed

lemma node_bytes_min: "seg_node_ok dims n \<Longrightarrow> 12 \<le> length (node_bytes dims n)"
  by (cases n) (simp add: node_bytes_eq)

lemma seg_file_split:
  assumes "seg_writer_ok sw"
  shows "header_of_bytes (take 64 (seg_file sw)) = final_header sw"
    and "length (header_bytes (final_header sw)) = 64"
    and "length (seg_file sw) = 64 + length (sw_nodes sw) * 8
        + length (concat (map (node_bytes (unat (sh_dims (sw_header sw)))) (sw_nodes sw)))"
proof -
  have h: "header_of_bytes (header_bytes (final_header sw)) = final_header sw"
    "length (header_bytes (final_header sw)) = 64"
    using header_roundtrip [of "final_header sw"] seg_writer_ok_header [OF assms]
    by (simp_all add: seg_magic_def)
  then show "header_of_bytes (take 64 (seg_file sw)) = final_header sw"
    "length (header_bytes (final_header sw)) = 64"
    by (simp_all add: seg_file_def)
  show "length (seg_file sw) = 64 + length (sw_nodes sw) * 8
        + length (concat (map (node_bytes (unat (sh_dims (sw_header sw)))) (sw_nodes sw)))"
    using h(2) by (simp add: seg_file_def)
qed

lemma seg_open_written:
  assumes "seg_writer_ok sw"
  shows "seg_from_mmap (seg_file sw) = Ok (seg_of_writer sw)"
proof -
  have "length (concat (map (node_bytes (unat (sh_dims (sw_header sw)))) (sw_nodes sw))) \<ge> 12"
    if "sw_nodes sw \<noteq> []"
    using that assms node_bytes_min [of "unat (sh_dims (sw_header sw))" "hd (sw_nodes sw)"]
    by (cases "sw_nodes sw") (auto simp: seg_writer_ok_def)
  then show ?thesis
    using seg_file_split [OF assms] seg_writer_ok_header [OF assms]
    by (auto simp: seg_from_mmap_def header_size_def Let_def seg_of_writer_def not_less)
qed

text \<open>Where node \<open>i\<close> lies in the file, and what the accessors find there.\<close>

lemma seg_node_at:
  assumes "seg_writer_ok sw" "i < length (sw_nodes sw)"
  obtains pre post where "seg_file sw = pre @ node_bytes (unat (sh_dims (sw_header sw))) (sw_nodes sw ! i) @ post"
    and "seg_offset_of (seg_of_writer sw) i = Ok (length pre)" "length pre mod 4 = 0"
    and "length (seg_file sw) < 2 ^ 63"
proof -
  let ?d = "unat (sh_dims (sw_header sw))" and ?ns = "sw_nodes sw"
  let ?H = "header_bytes (final_header sw)" and ?offs = "offs_from ?d 0 ?ns"
  let ?D = "\<lambda>ns. concat (map (node_bytes ?d) ns)"
  let ?pre = "?H @ concat (map u64_bytes ?offs) @ ?D (take i ?ns)"
  have D: "?D ?ns = ?D (take i ?ns) @ node_bytes ?d (?ns ! i) @ ?D (drop (Suc i) ?ns)"
    using arg_cong [OF id_take_nth_drop [OF assms(2)], of ?D] by simp
  have whole: "seg_file sw = ?pre @ node_bytes ?d (?ns ! i) @ ?D (drop (Suc i) ?ns)"
    unfolding seg_file_def D by simp
  have small: "length (seg_file sw) < 2 ^ 63" and H: "length ?H = 64"
    using assms(1) seg_file_split(2) [OF assms(1)] by (simp_all add: seg_writer_ok_def)
  have pre: "length ?pre = 64 + length ?ns * 8 + length (?D (take i ?ns))" using H by simp
  have "length ?pre < 2 ^ 63" using small whole by simp
  then have off: "unat (word_of_nat (length (?D (take i ?ns))) :: u64) = length (?D (take i ?ns))"
    using pre by (simp add: unat_of_nat)
  have "rd_u64 (64 + i * 8) (seg_file sw) = Ok (?offs ! i)"
    unfolding seg_file_def using H assms(2) by (intro rd_table) simp_all
  then have at: "seg_offset_of (seg_of_writer sw) i = Ok (length ?pre)"
    using assms(2) off pre \<open>length ?pre < 2 ^ 63\<close>
    by (simp add: seg_offset_of_def seg_of_writer_def Let_def offs_from_nth usize_add_def)
  have "length (?D (take i ?ns)) mod 4 = 0"
    using assms(1) by (intro nodes_mod4) (auto simp: seg_writer_ok_def dest: in_set_takeD)
  then have "length ?pre mod 4 = 0" using pre by presburger
  from that [OF whole at this small] show ?thesis .
qed

lemma seg_read_back:
  assumes "seg_writer_ok sw" "i < length (sw_nodes sw)" "sw_nodes sw ! i = (x, level, ls, v)"
  shows "seg_id_at (seg_of_writer sw) i = Ok x"
    and "seg_vector_at (seg_of_writer sw) i = Ok v"
    and "seg_read_node (seg_of_writer sw) i = Ok \<lparr> nr_id = x, nr_level = level,
           nr_neighbors = ls, nr_pq_code = None, nr_vector = Some v \<rparr>"
proof -
  let ?d = "unat (sh_dims (sw_header sw))" and ?s = "seg_of_writer sw"
  from assms(1,2) obtain pre post where whole: "seg_file sw = pre @ node_bytes ?d (x, level, ls, v) @ post"
    and off: "seg_offset_of ?s i = Ok (length pre)" and m4: "length pre mod 4 = 0"
    and small: "length (seg_file sw) < 2 ^ 63"
    using assms(3) by (metis seg_node_at)
  have ok: "length v = ?d" "length ls = unat level + 1" "\<forall>l\<in>set ls. length l < 2 ^ 32"
    using assms nth_mem [OF assms(2)] by (auto simp: seg_writer_ok_def seg_node_ok_def)
  let ?L = "concat (map layer_bytes ls)"
  have nb: "node_bytes ?d (x, level, ls, v) = u64_bytes x @ u32_bytes level @ ?L @ f32s_bytes v"
    using ok(1) by (simp add: node_bytes_eq)
  have s: "ss_mmap ?s = seg_file sw" "ss_dims ?s = ?d" "\<not> ss_pq_enabled ?s"
    by (simp_all add: seg_of_writer_def Let_def)
  have buf: "slice_from (length pre) (seg_file sw) = Ok (u64_bytes x @ u32_bytes level @ ?L @ f32s_bytes v @ post)"
    by (simp add: slice_from_def whole nb)
  note small' = small [unfolded whole nb]
  show "seg_id_at ?s i = Ok x"
    using off small' by (simp add: seg_id_at_def s whole nb usize_add_def rd_u64_at)
  have r64: "rd_u64 0 (u64_bytes x @ r) = Ok x" for r using rd_u64_at [of 0 "[]"] by simp
  have r32: "rd_u32 8 (u64_bytes x @ u32_bytes level @ r) = Ok level" for r
    by (rule rd_u32_at) simp
  have walk: "walk_layers (unat level + 1) 12 (u64_bytes x @ u32_bytes level @ ?L @ f32s_bytes v @ post)
      = Ok (12 + length ?L)"
    using walk_layers_at [of 12 "u64_bytes x @ u32_bytes level" ls] ok by (simp del: walk_layers.simps)
  have rd: "read_layers (unat level + 1) 12 (u64_bytes x @ u32_bytes level @ ?L @ f32s_bytes v @ post)
      = Ok (ls, 12 + length ?L)"
    using read_layers_at [of 12 "u64_bytes x @ u32_bytes level" ls] ok by (simp del: read_layers.simps)
  have "slice (12 + length ?L) (?d * 4) ((u64_bytes x @ u32_bytes level @ ?L) @ f32s_bytes v @ post) = Ok (f32s_bytes v)"
    using ok(1) by (intro slice_at) simp_all
  moreover have "(length pre + (12 + length ?L)) mod 4 = 0" using m4 layers_mod4 [of ls] by presburger
  ultimately have cast: "cast_f32s (length pre) (12 + length ?L) ?d
      (u64_bytes x @ u32_bytes level @ ?L @ f32s_bytes v @ post) = Ok v"
    by (simp add: cast_f32s_def)
  show "seg_vector_at ?s i = Ok v"
    using off buf r32 walk cast ok(1) s by (simp add: seg_vector_at_def del: walk_layers.simps)
  show "seg_read_node ?s i = Ok \<lparr> nr_id = x, nr_level = level, nr_neighbors = ls, nr_pq_code = None, nr_vector = Some v \<rparr>"
    using off buf r64 r32 rd cast s by (simp add: seg_read_node_def del: read_layers.simps)
qed

section \<open>Properties\<close>

text \<open>C13: Round trip: the file the writer produces (the offset table filled in by seeking back) opens, has
  as many nodes as were pushed, and every node is read back exactly, by \<open>read_node\<close> with its
  neighbour lists and by \<open>id_at\<close> and \<open>vector_at\<close>, without a panic; past the last node the accessors
  answer with an error.\<close>

theorem segment_roundtrip:
  assumes "seg_writer_ok sw"
  shows "\<exists>s. seg_from_mmap (cu_bytes (seg_write sw \<lparr> cu_bytes = [], cu_pos = 0 \<rparr>)) = Ok s
     \<and> ss_num_nodes s = length (sw_nodes sw)
     \<and> (\<forall>i < length (sw_nodes sw). case sw_nodes sw ! i of (x, level, ls, v) \<Rightarrow>
          seg_id_at s i = Ok x \<and> seg_vector_at s i = Ok v
          \<and> seg_read_node s i = Ok \<lparr> nr_id = x, nr_level = level, nr_neighbors = ls,
                nr_pq_code = None, nr_vector = Some v \<rparr>)
     \<and> (\<forall>i \<ge> length (sw_nodes sw). seg_id_at s i = Err SegTruncated
          \<and> seg_vector_at s i = Err SegTruncated \<and> seg_read_node s i = Err SegTruncated)"
proof (intro exI [of _ "seg_of_writer sw"] conjI allI impI)
  show "seg_from_mmap (cu_bytes (seg_write sw \<lparr> cu_bytes = [], cu_pos = 0 \<rparr>)) = Ok (seg_of_writer sw)"
    using seg_open_written [OF assms] by (simp add: seg_write_file)
  show "ss_num_nodes (seg_of_writer sw) = length (sw_nodes sw)"
    by (simp add: seg_of_writer_def Let_def)
next
  fix i assume "i < length (sw_nodes sw)"
  then show "case sw_nodes sw ! i of (x, level, ls, v) \<Rightarrow>
          seg_id_at (seg_of_writer sw) i = Ok x \<and> seg_vector_at (seg_of_writer sw) i = Ok v
          \<and> seg_read_node (seg_of_writer sw) i = Ok \<lparr> nr_id = x, nr_level = level, nr_neighbors = ls,
                nr_pq_code = None, nr_vector = Some v \<rparr>"
    using seg_read_back [OF assms] by (cases "sw_nodes sw ! i") auto
qed (simp_all add: seg_id_at_def seg_vector_at_def seg_read_node_def seg_offset_of_def
      seg_of_writer_def Let_def)

text \<open>The two nodes of the repository's own test of this format.\<close>

definition demo_writer :: seg_writer where
  "demo_writer = (seg_writer_new 4 16 32)
     \<lparr> sw_nodes := [(42, 1, [[1, 2], [3]], [f_one, f_two, f_zero, f_one]),
                     (7, 0, [[0]], [f_two, f_two, f_one, f_zero])] \<rparr>"

theorem segment_roundtrip_witness:
  "\<exists>s. seg_from_mmap (cu_bytes (seg_write demo_writer \<lparr> cu_bytes = [], cu_pos = 0 \<rparr>)) = Ok s
     \<and> ss_num_nodes s = 2
     \<and> seg_read_node s 0 = Ok \<lparr> nr_id = 42, nr_level = 1, nr_neighbors = [[1, 2], [3]],
          nr_pq_code = None, nr_vector = Some [f_one, f_two, f_zero, f_one] \<rparr>
     \<and> seg_id_at s 1 = Ok 7 \<and> seg_id_at s 2 = Err SegTruncated"
proof -
  have "seg_writer_ok demo_writer"
    by (simp add: seg_writer_ok_def demo_writer_def seg_writer_new_def seg_node_ok_def seg_file_def
        header_bytes_def final_header_def seg_magic_def node_bytes_eq)
  from segment_roundtrip [OF this] obtain s where
    s: "seg_from_mmap (cu_bytes (seg_write demo_writer \<lparr> cu_bytes = [], cu_pos = 0 \<rparr>)) = Ok s"
      "ss_num_nodes s = length (sw_nodes demo_writer)"
    and "\<forall>i < length (sw_nodes demo_writer). case sw_nodes demo_writer ! i of (x, level, ls, v) \<Rightarrow>
          seg_id_at s i = Ok x \<and> seg_vector_at s i = Ok v
          \<and> seg_read_node s i = Ok \<lparr> nr_id = x, nr_level = level, nr_neighbors = ls,
                nr_pq_code = None, nr_vector = Some v \<rparr>"
    and "\<forall>i \<ge> length (sw_nodes demo_writer). seg_id_at s i = Err SegTruncated
          \<and> seg_vector_at s i = Err SegTruncated \<and> seg_read_node s i = Err SegTruncated"
    by blast
  from this(3) [rule_format, of 0] this(3) [rule_format, of 1] this(4) [rule_format, of 2] s
  show ?thesis by (intro exI [of _ s]) (simp add: demo_writer_def)
qed

end
