(* ===== verification/Rust_String.thy ===== *)
theory Rust_String
  imports Prelude
begin

text \<open>
  Rust strings as lists of UTF-8 bytes (Isabelle's \<open>char\<close> is a byte), with the parts of
  \<open>str\<close> that the code uses: \<open>trim\<close> over Unicode white space, \<open>lines\<close>, \<open>split_whitespace\<close>,
  \<open>join\<close>, \<open>replace\<close> and the validity test behind reading a file as text. \<open>len\<close> is the number
  of bytes, \<open>as_bytes\<close> and \<open>from_utf8_lossy\<close> are the identity on valid text.
\<close>

section \<open>White space and trimming\<close>

abbreviation byte :: "nat \<Rightarrow> char" where
  "byte n \<equiv> char_of n"

text \<open>The UTF-8 encodings of the 25 code points with the Unicode property White\_Space.\<close>

definition ws_seqs :: "string list" where
  "ws_seqs = map (map char_of)
     ([[9], [10], [11], [12], [13], [32], [194, 133], [194, 160], [225, 154, 128 :: nat]]
      @ map (\<lambda>k. [226, 128, k]) [128, 129, 130, 131, 132, 133, 134, 135, 136, 137, 138, 168, 169, 175]
      @ [[226, 129, 159], [227, 128, 128]])"

lemma ws_seqs_nonempty: "w \<in> set ws_seqs \<Longrightarrow> w \<noteq> []"
  by (auto simp: ws_seqs_def)

text \<open>The white-space sequence at the front of a string, if there is one.\<close>

definition ws_prefix :: "string \<Rightarrow> string option" where
  "ws_prefix s = find (\<lambda>w. prefix w s) ws_seqs"

definition ws_suffix :: "string \<Rightarrow> string option" where
  "ws_suffix s = find (\<lambda>w. suffix w s) ws_seqs"

lemma ws_prefix_Some: "ws_prefix s = Some w \<Longrightarrow> w \<noteq> [] \<and> prefix w s"
  unfolding ws_prefix_def find_Some_iff using ws_seqs_nonempty by (metis nth_mem)

lemma ws_suffix_Some: "ws_suffix s = Some w \<Longrightarrow> w \<noteq> [] \<and> suffix w s"
  unfolding ws_suffix_def find_Some_iff using ws_seqs_nonempty by (metis nth_mem)

function trim_start :: "string \<Rightarrow> string" where
  "trim_start s = (case ws_prefix s of None \<Rightarrow> s | Some w \<Rightarrow> trim_start (drop (length w) s))"
  by pat_completeness auto
termination
  by (relation "measure length") (auto dest!: ws_prefix_Some simp: prefix_def)

function trim_end :: "string \<Rightarrow> string" where
  "trim_end s = (case ws_suffix s of None \<Rightarrow> s
     | Some w \<Rightarrow> trim_end (take (length s - length w) s))"
  by pat_completeness auto
termination
  by (relation "measure length") (auto dest!: ws_suffix_Some simp: suffix_def)

declare trim_start.simps [simp del] trim_end.simps [simp del]

definition trim :: "string \<Rightarrow> string" where
  "trim s = trim_end (trim_start s)"

lemma trim_start_no_prefix: "ws_prefix (trim_start s) = None"
proof (induction s rule: trim_start.induct)
  case (1 s)
  then show ?case by (subst trim_start.simps) (auto split: option.splits)
qed

lemma trim_end_no_suffix: "ws_suffix (trim_end s) = None"
proof (induction s rule: trim_end.induct)
  case (1 s)
  then show ?case by (subst trim_end.simps) (auto split: option.splits)
qed

lemma trim_end_prefix: "prefix (trim_end s) s"
proof (induction s rule: trim_end.induct)
  case (1 s)
  show ?case
  proof (cases "ws_suffix s")
    case None
    then show ?thesis by (subst trim_end.simps) simp
  next
    case (Some w)
    with 1 have "prefix (trim_end (take (length s - length w) s)) s"
      using prefix_order.trans take_is_prefix by blast
    with Some show ?thesis by (subst trim_end.simps) simp
  qed
qed

lemma ws_prefix_mono: "prefix t s \<Longrightarrow> ws_prefix s = None \<Longrightarrow> ws_prefix t = None"
  by (auto simp: ws_prefix_def find_None_iff intro: prefix_order.trans)

lemma trim_start_id: "ws_prefix s = None \<Longrightarrow> trim_start s = s"
  by (subst trim_start.simps) simp

lemma trim_end_id: "ws_suffix s = None \<Longrightarrow> trim_end s = s"
  by (subst trim_end.simps) simp

text \<open>Trimming twice changes nothing: what the scope and the manifest rely on.\<close>

lemma trim_idem [simp]: "trim (trim s) = trim s"
proof -
  have "ws_prefix (trim s) = None"
    unfolding trim_def using trim_end_prefix trim_start_no_prefix by (rule ws_prefix_mono)
  moreover have "ws_suffix (trim s) = None"
    unfolding trim_def by (rule trim_end_no_suffix)
  ultimately show ?thesis by (simp add: trim_def [of "trim s"] trim_start_id trim_end_id)
qed

lemma trim_id: "ws_prefix s = None \<Longrightarrow> ws_suffix s = None \<Longrightarrow> trim s = s"
  by (simp add: trim_def trim_start_id trim_end_id)

lemma ws_seqs_ends:
  "w \<in> set ws_seqs \<Longrightarrow>
    (of_char (hd w) < (33 :: nat) \<or> 128 \<le> (of_char (hd w) :: nat))
    \<and> (of_char (last w) < (33 :: nat) \<or> 128 \<le> (of_char (last w) :: nat))"
  by (auto simp: ws_seqs_def)

text \<open>A string that starts and ends with visible ASCII characters is trimmed already.\<close>

lemma trim_visible:
  assumes "s \<noteq> []" "33 \<le> (of_char (hd s) :: nat)" "of_char (hd s) < (128 :: nat)"
    and "33 \<le> (of_char (last s) :: nat)" "of_char (last s) < (128 :: nat)"
  shows "trim s = s"
proof (rule trim_id)
  have "\<not> prefix w s \<and> \<not> suffix w s" if "w \<in> set ws_seqs" for w
    using ws_seqs_ends [OF that] ws_seqs_nonempty [OF that] assms
    by (auto simp: prefix_def suffix_def)
  then show "ws_prefix s = None" "ws_suffix s = None"
    by (auto simp: ws_prefix_def ws_suffix_def find_None_iff)
qed

section \<open>Lines\<close>

abbreviation nl :: char where "nl \<equiv> CHR 0x0A"
abbreviation cr :: char where "cr \<equiv> CHR 0x0D"

text \<open>\<open>BufRead::lines\<close>: split at line feeds, drop one carriage return before each, no last empty line.\<close>

definition strip_cr :: "string \<Rightarrow> string" where
  "strip_cr l = (if l \<noteq> [] \<and> last l = cr then butlast l else l)"

function str_lines :: "string \<Rightarrow> string list" where
  "str_lines s =
     (if s = [] then []
      else if nl \<in> set s
        then strip_cr (takeWhile (\<lambda>c. c \<noteq> nl) s) # str_lines (tl (dropWhile (\<lambda>c. c \<noteq> nl) s))
      else [s])"
  by pat_completeness auto
termination
proof (relation "measure length")
  fix s :: string assume "s \<noteq> []"
  have "length (dropWhile (\<lambda>c. c \<noteq> nl) s) \<le> length s" by (rule length_dropWhile_le)
  then have "length (tl (dropWhile (\<lambda>c. c \<noteq> nl) s)) < length s"
    using \<open>s \<noteq> []\<close> by (cases s) (auto simp: le_diff_conv)
  then show "(tl (dropWhile (\<lambda>c. c \<noteq> nl) s), s) \<in> measure length" by simp
qed simp

declare str_lines.simps [simp del]

lemma str_lines_Nil [simp]: "str_lines [] = []"
  by (simp add: str_lines.simps)

lemma str_lines_cons:
  assumes "nl \<notin> set l"
  shows "str_lines (l @ nl # s) = strip_cr l # str_lines s"
proof -
  have "takeWhile (\<lambda>c. c \<noteq> nl) (l @ nl # s) = l" "dropWhile (\<lambda>c. c \<noteq> nl) (l @ nl # s) = nl # s"
    using assms by (induction l) auto
  then show ?thesis by (simp add: str_lines.simps [of "l @ nl # s"])
qed

lemma str_lines_concat:
  assumes "\<forall>l\<in>set ls. nl \<notin> set l"
  shows "str_lines (concat (map (\<lambda>l. l @ [nl]) ls)) = map strip_cr ls"
  using assms by (induction ls) (auto simp: str_lines_cons)

section \<open>UTF-8\<close>

text \<open>
  The length of the code point that starts a byte string, 0 when the string does not start with a
  well-formed one (a stray continuation byte, an overlong form, a surrogate, a value past U+10FFFF).
\<close>

definition cont :: "char \<Rightarrow> bool" where
  "cont c = (of_char c div 64 = (2 :: nat))"

definition cp_len :: "string \<Rightarrow> nat" where
  "cp_len s =
     (case s of [] \<Rightarrow> 0 | c # r \<Rightarrow>
      (let b = (of_char c :: nat); b2 = (case r of [] \<Rightarrow> 0 | d # _ \<Rightarrow> (of_char d :: nat)) in
       if b < 128 then 1
       else if 194 \<le> b \<and> b \<le> 223 \<and> 1 \<le> length r \<and> list_all cont (take 1 r) then 2
       else if 224 \<le> b \<and> b \<le> 239 \<and> 2 \<le> length r \<and> list_all cont (take 2 r)
            \<and> (b = 224 \<longrightarrow> 160 \<le> b2) \<and> (b = 237 \<longrightarrow> b2 < 160) then 3
       else if 240 \<le> b \<and> b \<le> 244 \<and> 3 \<le> length r \<and> list_all cont (take 3 r)
            \<and> (b = 240 \<longrightarrow> 144 \<le> b2) \<and> (b = 244 \<longrightarrow> b2 < 144) then 4
       else 0))"

lemma cp_len_pos: "0 < cp_len s \<Longrightarrow> s \<noteq> []"
  by (auto simp: cp_len_def)

text \<open>\<open>chars\<close>: the code points of a string, each as its bytes; \<open>None\<close> for invalid UTF-8.\<close>

function utf8_chars :: "string \<Rightarrow> string list option" where
  "utf8_chars s =
     (if s = [] then Some []
      else if cp_len s = 0 then None
      else map_option (\<lambda>cs. take (cp_len s) s # cs) (utf8_chars (drop (cp_len s) s)))"
  by pat_completeness auto
termination
  by (relation "measure length") (auto simp: Suc_le_eq)

declare utf8_chars.simps [simp del]

definition valid_utf8 :: "string \<Rightarrow> bool" where
  "valid_utf8 s = (utf8_chars s \<noteq> None)"

lemma utf8_chars_ascii: "list_all (\<lambda>c. (of_char c :: nat) < 128) s \<Longrightarrow> utf8_chars s = Some (map (\<lambda>c. [c]) s)"
proof (induction s)
  case Nil
  then show ?case by (simp add: utf8_chars.simps)
next
  case (Cons c s)
  then show ?case by (simp add: utf8_chars.simps [of "c # s"] cp_len_def Let_def)
qed

lemma valid_utf8_ascii: "list_all (\<lambda>c. (of_char c :: nat) < 128) s \<Longrightarrow> valid_utf8 s"
  by (simp add: valid_utf8_def utf8_chars_ascii)

text \<open>\<open>String::from_utf8_lossy\<close>: every maximal ill-formed part, at most three bytes long, becomes the
  replacement character U+FFFD.\<close>

definition bad_len :: "string \<Rightarrow> nat" where
  "bad_len s =
     (case s of
        c # d # e # _ \<Rightarrow>
          (let b = (of_char c :: nat); b2 = (of_char d :: nat) in
           if 224 \<le> b \<and> b \<le> 239 \<and> cont d \<and> (b = 224 \<longrightarrow> 160 \<le> b2) \<and> (b = 237 \<longrightarrow> b2 < 160) then 2
           else if 240 \<le> b \<and> b \<le> 244 \<and> cont d \<and> (b = 240 \<longrightarrow> 144 \<le> b2) \<and> (b = 244 \<longrightarrow> b2 < 144)
             then (if cont e then 3 else 2)
           else 1)
      | [c, d] \<Rightarrow>
          (let b = (of_char c :: nat); b2 = (of_char d :: nat) in
           if 224 \<le> b \<and> b \<le> 244 \<and> cont d \<and> (b = 224 \<longrightarrow> 160 \<le> b2) \<and> (b = 237 \<longrightarrow> b2 < 160)
             \<and> (b = 240 \<longrightarrow> 144 \<le> b2) \<and> (b = 244 \<longrightarrow> b2 < 144) then 2 else 1)
      | _ \<Rightarrow> 1)"

lemma bad_len_pos: "0 < bad_len s"
  by (simp add: bad_len_def Let_def split: list.split)

function from_utf8_lossy :: "string \<Rightarrow> string" where
  "from_utf8_lossy s =
     (if s = [] then []
      else if cp_len s = 0 then map char_of [239, 191, 189 :: nat] @ from_utf8_lossy (drop (bad_len s) s)
      else take (cp_len s) s @ from_utf8_lossy (drop (cp_len s) s))"
  by pat_completeness auto
termination
  by (relation "measure length") (auto simp: bad_len_pos)

declare from_utf8_lossy.simps [simp del]

lemma from_utf8_lossy_valid: "valid_utf8 s \<Longrightarrow> from_utf8_lossy s = s"
proof (induction s rule: utf8_chars.induct)
  case (1 s)
  then show ?case
    by (subst from_utf8_lossy.simps) (auto simp: valid_utf8_def utf8_chars.simps [of s] split: if_splits)
qed

text \<open>The characters of a string that is valid, as every \<open>str\<close> is.\<close>

definition str_chars :: "string \<Rightarrow> string list" where
  "str_chars s = (case utf8_chars s of Some cs \<Rightarrow> cs | None \<Rightarrow> [])"

section \<open>Words, joining and replacing\<close>

lemma str_chars_ascii: "list_all (\<lambda>c. (of_char c :: nat) < 128) s \<Longrightarrow> str_chars s = map (\<lambda>c. [c]) s"
  by (simp add: str_chars_def utf8_chars_ascii)

lemma visible_not_ws: "33 \<le> (of_char c :: nat) \<Longrightarrow> of_char c < (128 :: nat) \<Longrightarrow> [c] \<notin> set ws_seqs"
  using ws_seqs_ends [of "[c]"] by fastforce

text \<open>\<open>split_whitespace\<close>, with the word read so far.\<close>

fun ws_words :: "string list \<Rightarrow> string \<Rightarrow> string list" where
  "ws_words [] w = (if w = [] then [] else [w])"
| "ws_words (c # cs) w =
     (if c \<in> set ws_seqs then (if w = [] then ws_words cs [] else w # ws_words cs [])
      else ws_words cs (w @ c))"

definition split_whitespace :: "string \<Rightarrow> string list" where
  "split_whitespace s = ws_words (str_chars s) []"

lemma ws_words_nonempty: "t \<in> set (ws_words cs w) \<Longrightarrow> [] \<notin> set cs \<Longrightarrow> t \<noteq> []"
  by (induction cs w rule: ws_words.induct) (auto split: if_splits)

lemma ws_words_chars: "t \<in> set (ws_words cs w) \<Longrightarrow> set t \<subseteq> set w \<union> (\<Union>c\<in>set cs. set c)"
  by (induction cs w rule: ws_words.induct) (auto split: if_splits)

fun str_join :: "string \<Rightarrow> string list \<Rightarrow> string" where
  "str_join sep [] = []"
| "str_join sep [t] = t"
| "str_join sep (t # ts) = t @ sep @ str_join sep ts"

text \<open>\<open>str::replace\<close> for a pattern that is not empty: left to right, without overlap.\<close>

function str_replace :: "string \<Rightarrow> string \<Rightarrow> string \<Rightarrow> string" where
  "str_replace pat to s =
     (if s = [] then []
      else if pat \<noteq> [] \<and> prefix pat s then to @ str_replace pat to (drop (length pat) s)
      else hd s # str_replace pat to (tl s))"
  by pat_completeness auto
termination
  by (relation "measure (\<lambda>(pat, to, s). length s)") auto

declare str_replace.simps [simp del]

section \<open>Numbers\<close>

text \<open>Decimal digits of a number, as \<open>format!\<close> writes them.\<close>

fun nat_str :: "nat \<Rightarrow> string" where
  "nat_str n = (if n < 10 then [char_of (48 + n)] else nat_str (n div 10) @ [char_of (48 + n mod 10)])"

declare nat_str.simps [simp del]

end
