(* ===== verification/Manifest.thy ===== *)
theory Manifest
  imports Rust_String
begin

text \<open>
  The manifest of a data directory (\<open>vec/src/storage/manifest.rs\<close>): the list of committed segment
  files, saved by writing a temporary file, syncing it and renaming it over the old manifest.
\<close>

section \<open>State\<close>

datatype manifest_error = MfIo io_error | MfInvalidMagic | MfCorrupt

record manifest =
  mf_segments :: "string list"

text \<open>A data directory: the manifest file, this process's temporary file, the segment files.\<close>

record data_dir =
  dd_manifest :: "string option"
  dd_tmp :: "string option"
  dd_files :: "(string \<times> bytes) list"

definition manifest_new :: "string list \<Rightarrow> manifest" where
  "manifest_new segs = \<lparr> mf_segments = segs \<rparr>"

definition manifest_magic :: string where
  "manifest_magic = ''VIVY_MANIFEST_V1''"

section \<open>Operations\<close>

fun load_lines :: "string list \<Rightarrow> (manifest_error, string list) outcome" where
  "load_lines [] = Ok []"
| "load_lines (l # ls) =
     (if \<not> valid_utf8 l then Err (MfIo IoInvalidData)
      else obind (load_lines ls)
        (\<lambda>segs. Ok (if trim l \<noteq> [] then trim l # segs else segs)))"

definition manifest_load :: "io_error option \<Rightarrow> data_dir \<Rightarrow> (manifest_error, manifest option) outcome" where
  "manifest_load io d =
     (case io of
        Some e \<Rightarrow> if e = IoNotFound then Ok None else Err (MfIo e)
      | None \<Rightarrow>
     (case dd_manifest d of
        None \<Rightarrow> Ok None
      | Some s \<Rightarrow>
     (case str_lines s of
        [] \<Rightarrow> Err MfCorrupt
      | h # ls \<Rightarrow>
          if \<not> valid_utf8 h then Err (MfIo IoInvalidData)
          else if h \<noteq> manifest_magic then Err MfInvalidMagic
          else obind (load_lines ls) (\<lambda>segs. Ok (Some \<lparr> mf_segments = segs \<rparr>)))))"

definition manifest_text :: "manifest \<Rightarrow> string" where
  "manifest_text m = concat (map (\<lambda>l. l @ [nl]) (manifest_magic # mf_segments m))"

text \<open>Where a save stops: opening the temporary file, after \<open>n\<close> bytes of it, syncing it, or renaming
  it. A crash stops at the same points, without an answer.\<close>

datatype save_stop = AtOpen io_error | AtWrite nat io_error | AtSync io_error | AtRename io_error

definition manifest_save ::
  "save_stop option \<Rightarrow> manifest \<Rightarrow> data_dir \<Rightarrow> data_dir \<times> (manifest_error, unit) outcome" where
  "manifest_save stop m d =
     (case stop of
        Some (AtOpen e) \<Rightarrow> (d, Err (MfIo e))
      | Some (AtWrite n e) \<Rightarrow> (d\<lparr> dd_tmp := Some (take n (manifest_text m)) \<rparr>, Err (MfIo e))
      | Some (AtSync e) \<Rightarrow> (d\<lparr> dd_tmp := Some (manifest_text m) \<rparr>, Err (MfIo e))
      | Some (AtRename e) \<Rightarrow> (d\<lparr> dd_tmp := Some (manifest_text m) \<rparr>, Err (MfIo e))
      | None \<Rightarrow> (d\<lparr> dd_tmp := None, dd_manifest := Some (manifest_text m) \<rparr>, Ok ()))"

section \<open>Lemmas\<close>

text \<open>A name the format carries unchanged: not blank, without surrounding white space or a line feed.\<close>

definition mf_name_ok :: "string \<Rightarrow> bool" where
  "mf_name_ok s \<longleftrightarrow> s \<noteq> [] \<and> trim s = s \<and> nl \<notin> set s \<and> valid_utf8 s"

definition manifest_ok :: "manifest \<Rightarrow> bool" where
  "manifest_ok m \<longleftrightarrow> (\<forall>s\<in>set (mf_segments m). mf_name_ok s)"

lemma cr_is_ws: "[cr] \<in> set ws_seqs"
proof -
  have "[cr] = map char_of [13 :: nat]" by (simp add: char_of_def bit_0)
  then show ?thesis unfolding ws_seqs_def set_map by (rule image_eqI) simp
qed

lemma strip_cr_trimmed: "trim s = s \<Longrightarrow> strip_cr s = s"
proof -
  assume "trim s = s"
  then have "ws_suffix s = None" using trim_end_no_suffix by (metis trim_def)
  then have "\<not> suffix [cr] s" using cr_is_ws by (auto simp: ws_suffix_def find_None_iff)
  then have "s = [] \<or> last s \<noteq> cr" by (metis append_butlast_last_id suffixI)
  then show "strip_cr s = s" by (auto simp: strip_cr_def)
qed

lemma magic_ok: "nl \<notin> set manifest_magic" "valid_utf8 manifest_magic" "strip_cr manifest_magic = manifest_magic"
proof -
  show "nl \<notin> set manifest_magic" by (simp add: manifest_magic_def)
  show "valid_utf8 manifest_magic"
    unfolding manifest_magic_def by (rule valid_utf8_ascii) simp
  show "strip_cr manifest_magic = manifest_magic" by (simp add: manifest_magic_def strip_cr_def)
qed

lemma load_lines_ok: "\<forall>s\<in>set ls. mf_name_ok s \<Longrightarrow> load_lines ls = Ok ls"
  by (induction ls) (auto simp: mf_name_ok_def)

lemma manifest_text_lines:
  "manifest_ok m \<Longrightarrow> str_lines (manifest_text m) = manifest_magic # mf_segments m"
proof -
  assume m: "manifest_ok m"
  have "str_lines (manifest_text m) = map strip_cr (manifest_magic # mf_segments m)"
    unfolding manifest_text_def
    using m magic_ok(1) by (intro str_lines_concat) (auto simp: manifest_ok_def mf_name_ok_def)
  moreover have "map strip_cr (mf_segments m) = mf_segments m"
    using m by (intro map_idI) (auto simp: manifest_ok_def mf_name_ok_def strip_cr_trimmed)
  ultimately show ?thesis using magic_ok(3) by simp
qed

lemma manifest_load_saved:
  "manifest_ok m \<Longrightarrow> dd_manifest d = Some (manifest_text m) \<Longrightarrow> manifest_load None d = Ok (Some m)"
  using magic_ok(2)
  by (auto simp: manifest_load_def manifest_text_lines manifest_ok_def load_lines_ok split: option.splits)

section \<open>Properties\<close>

text \<open>C15: Saving is atomic and read back exactly: wherever a save stops (a failure or a crash while
  opening, after any number of bytes, while syncing or renaming), the next load sees precisely what
  it saw before the save, and after a completed save it sees the saved list of segments; the segment
  files are not touched.\<close>

theorem manifest_save_atomic:
  assumes "manifest_ok m"
  shows "(case stop of
       Some s \<Rightarrow> manifest_load None (fst (manifest_save (Some s) m d)) = manifest_load None d
               \<and> snd (manifest_save (Some s) m d) \<noteq> Ok ()
     | None \<Rightarrow> manifest_load None (fst (manifest_save None m d)) = Ok (Some m)
               \<and> snd (manifest_save None m d) = Ok ())
     \<and> dd_files (fst (manifest_save stop m d)) = dd_files d"
proof (cases stop)
  case None
  then show ?thesis using manifest_load_saved [OF assms] by (simp add: manifest_save_def)
next
  case (Some s)
  then show ?thesis by (cases s) (simp_all add: manifest_save_def manifest_load_def)
qed

theorem manifest_save_atomic_witness:
  "manifest_load None (fst (manifest_save None \<lparr> mf_segments = [''seg-1.vivy'', ''seg-2.vivy''] \<rparr>
        \<lparr> dd_manifest = None, dd_tmp = None, dd_files = [] \<rparr>))
     = Ok (Some \<lparr> mf_segments = [''seg-1.vivy'', ''seg-2.vivy''] \<rparr>)"
proof -
  have "trim ''seg-1.vivy'' = ''seg-1.vivy''" "trim ''seg-2.vivy'' = ''seg-2.vivy''"
    by (simp_all add: trim_visible)
  then have "manifest_ok \<lparr> mf_segments = [''seg-1.vivy'', ''seg-2.vivy''] \<rparr>"
    by (simp add: manifest_ok_def mf_name_ok_def valid_utf8_ascii)
  from manifest_save_atomic [OF this, where stop = None] show ?thesis by simp
qed

end
