(* ===== verification/Vivy_Error.thy ===== *)
theory Vivy_Error
  imports Wal Segments Manifest
begin

text \<open>The error type of the vector engine (\<open>vec/src/error.rs\<close>).\<close>

datatype vivy_error =
    VivyWal wal_error | VivySegment segment_error | VivyIo io_error | VivyDimensionMismatch

end
