(* ===== verification/Hnsw.thy ===== *)
theory Hnsw
  imports Vivy_Error
begin

text \<open>
  The HNSW graph index (\<open>vec/src/hnsw.rs\<close>): insertion with greedy descent, the ef-search of one
  layer, bidirectional connection and trimming, and the filtered search that doubles \<open>ef\<close>. Every
  index into a vector of the structure is checked, a failed check is a panic. The random number of
  an insertion is an argument.
\<close>

section \<open>State\<close>

record hnsw =
  hx_vectors :: "f32 list"
  hx_dims :: nat
  hx_ids :: "u64 list"
  hx_neighbors :: "nat list list list"
  hx_levels :: "nat list"
  hx_entry :: "nat option"
  hx_max_level :: nat
  hx_m :: nat
  hx_m_max :: nat
  hx_ef_construction :: nat
  hx_ml :: f32
  hx_metric :: metric

type_synonym 'a vresult = "(vivy_error, 'a) outcome"

definition hnsw_new :: "'b runtime \<Rightarrow> nat \<Rightarrow> metric \<Rightarrow> hnsw" where
  "hnsw_new R dims m =
     \<lparr> hx_vectors = [], hx_dims = dims, hx_ids = [], hx_neighbors = [], hx_levels = [],
       hx_entry = None, hx_max_level = 0, hx_m = 16, hx_m_max = 16 * 2, hx_ef_construction = 200,
       hx_ml = f_div f_one (rt_ln R (f_of_nat 16)), hx_metric = m \<rparr>"

definition hnsw_len :: "hnsw \<Rightarrow> nat" where
  "hnsw_len h = length (hx_ids h)"

section \<open>Access to nodes\<close>

text \<open>\<open>&self.vectors[n * dims..(n + 1) * dims]\<close>\<close>

definition node_slice :: "hnsw \<Rightarrow> nat \<Rightarrow> f32 list" where
  "node_slice h n = take (hx_dims h) (drop (n * hx_dims h) (hx_vectors h))"

definition node_vec :: "hnsw \<Rightarrow> nat \<Rightarrow> f32 list vresult" where
  "node_vec h n = (if (n + 1) * hx_dims h \<le> length (hx_vectors h) then Ok (node_slice h n) else Panic)"

definition dist_to :: "hnsw \<Rightarrow> f32 list \<Rightarrow> nat \<Rightarrow> f32 vresult" where
  "dist_to h q n = obind (node_vec h n) (\<lambda>v. Ok (compute (hx_metric h) q v))"

text \<open>\<open>self.neighbors[n].get(layer)\<close>, no neighbours when the node is below the layer.\<close>

definition layer_neighbors :: "hnsw \<Rightarrow> nat \<Rightarrow> nat \<Rightarrow> nat list vresult" where
  "layer_neighbors h n layer =
     (if n < length (hx_neighbors h)
      then Ok (if layer < length (hx_neighbors h ! n) then hx_neighbors h ! n ! layer else [])
      else Panic)"

section \<open>Greedy descent\<close>

definition greedy_step :: "hnsw \<Rightarrow> f32 list \<Rightarrow> nat \<times> bool \<Rightarrow> nat \<Rightarrow> (nat \<times> bool) vresult" where
  "greedy_step h q st n =
     obind (dist_to h q n) (\<lambda>d.
     obind (dist_to h q (fst st)) (\<lambda>e. Ok (if f_lt d e then (n, True) else st)))"

lemma greedy_pass_improves:
  assumes "ofold (greedy_step h q) (ep, False) ns = Ok (ep', imp)"
  shows "(ep' = ep \<and> \<not> imp) \<or> (imp \<and> (\<exists>d e. dist_to h q ep' = Ok d \<and> dist_to h q ep = Ok e \<and> f_lt d e))"
proof -
  let ?P = "\<lambda>st. (fst st = ep \<and> \<not> snd st) \<or>
     (snd st \<and> (\<exists>d e. dist_to h q (fst st) = Ok d \<and> dist_to h q ep = Ok e \<and> f_lt d e))"
  have "?P (ep', imp)"
    by (rule ofold_invariant [OF assms])
      (auto simp: greedy_step_def outcome_iff f_lt_def split: if_splits)
  then show ?thesis by simp
qed

function greedy_down :: "hnsw \<Rightarrow> f32 list \<Rightarrow> nat \<Rightarrow> nat \<Rightarrow> nat vresult" where
  "greedy_down h q ep layer =
     obind (layer_neighbors h ep layer) (\<lambda>neigh.
     obind (ofold (greedy_step h q) (ep, False) neigh) (\<lambda>st.
       if snd st then greedy_down h q (fst st) layer else Ok (fst st)))"
  by pat_completeness auto
termination
proof (relation "measure (\<lambda>(h, q, ep, layer). case dist_to h q ep of Ok d \<Rightarrow> nat (f_key d + 2147483648) | _ \<Rightarrow> 0)")
  fix h q ep layer neigh and st :: "nat \<times> bool"
  assume "ofold (greedy_step h q) (ep, False) neigh = Ok st" "snd st"
  then obtain d e where "dist_to h q (fst st) = Ok d" "dist_to h q ep = Ok e" "f_lt d e"
    using greedy_pass_improves [of h q ep neigh "fst st" "snd st"] by (cases st) auto
  then show "((h, q, fst st, layer), h, q, ep, layer)
      \<in> measure (\<lambda>(h, q, ep, layer). case dist_to h q ep of Ok d \<Rightarrow> nat (f_key d + 2147483648) | _ \<Rightarrow> 0)"
    using f_key_bounds [of e] by (simp add: f_lt_def)
qed simp

declare greedy_down.simps [simp del]

section \<open>Candidates and heaps\<close>

text \<open>A \<open>Candidate\<close>: node index and distance, ordered by distance and then by index.\<close>

type_synonym candidate = "nat \<times> f32"

definition cand_le :: "'b runtime \<Rightarrow> candidate \<Rightarrow> candidate \<Rightarrow> bool" where
  "cand_le R a b =
     (if rt_of_le R (snd a) (snd b)
      then (if rt_of_le R (snd b) (snd a) then fst a \<le> fst b else True) else False)"

text \<open>A \<open>BinaryHeap\<close>, seen as the list of its elements from the greatest to the least: \<open>peek\<close> is the
  head, \<open>pop\<close> takes it off, \<open>into\_sorted\_vec\<close> is the reverse.\<close>

fun heap_push :: "'b runtime \<Rightarrow> candidate \<Rightarrow> candidate list \<Rightarrow> candidate list" where
  "heap_push R c [] = [c]"
| "heap_push R c (x # xs) = (if cand_le R x c then c # x # xs else x # heap_push R c xs)"

section \<open>The search of one layer\<close>

type_synonym ef_state = "candidate list \<times> candidate list \<times> nat set"

definition ef_visit :: "'b runtime \<Rightarrow> hnsw \<Rightarrow> f32 list \<Rightarrow> nat \<Rightarrow> ef_state \<Rightarrow> nat \<Rightarrow> ef_state vresult" where
  "ef_visit R h q ef st n =
     (case st of (candidates, results, visited) \<Rightarrow>
       if n \<in> visited then Ok st
       else obind (dist_to h q n) (\<lambda>d.
         case results of
           [] \<Rightarrow> Panic
         | furthest # _ \<Rightarrow>
             if \<not> rt_of_le R (snd furthest) d \<or> length results < ef
             then (let results' = heap_push R (n, d) results in
                   Ok (heap_push R (n, d) candidates,
                       if ef < length results' then tl results' else results', insert n visited))
             else Ok (candidates, results, insert n visited)))"

definition all_edges :: "hnsw \<Rightarrow> nat set" where
  "all_edges h = set (concat (concat (hx_neighbors h)))"

lemma heap_push_length [simp]: "length (heap_push R c xs) = Suc (length xs)"
  by (induction xs) auto

definition ef_measure :: "hnsw \<Rightarrow> ef_state \<Rightarrow> nat" where
  "ef_measure h st = (case st of (candidates, results, visited) \<Rightarrow>
     2 * card (all_edges h - visited) + length candidates)"

lemma ef_visit_measure:
  assumes "ef_visit R h q ef st n = Ok st'" "n \<in> all_edges h"
  shows "ef_measure h st' \<le> ef_measure h st"
proof -
  obtain cs rs vs where st: "st = (cs, rs, vs)" by (rule prod_cases3)
  have fin: "finite (all_edges h - vs)" by (simp add: all_edges_def)
  have "card (all_edges h - insert n vs) < card (all_edges h - vs)" if "n \<notin> vs"
    using that assms(2) by (intro psubset_card_mono [OF fin]) auto
  with assms(1) show ?thesis
    by (cases rs; cases "n \<in> vs")
      (auto simp: st ef_visit_def ef_measure_def outcome_iff Let_def split: if_splits)
qed

lemma layer_neighbors_edges: "layer_neighbors h n layer = Ok ns \<Longrightarrow> set ns \<subseteq> all_edges h"
  by (auto simp: layer_neighbors_def all_edges_def in_set_conv_nth split: if_splits)
     (metis nth_mem)

lemma ef_pass_decreases:
  assumes "layer_neighbors h n layer = Ok neigh"
    and "ofold (ef_visit R h q ef) (cs, results, visited) neigh = Ok st'"
  shows "ef_measure h st' < ef_measure h (c # cs, results, visited)"
proof -
  have "ef_measure h st' \<le> ef_measure h (cs, results, visited)"
    by (rule ofold_invariant [OF assms(2)])
      (use layer_neighbors_edges [OF assms(1)] in \<open>auto dest: ef_visit_measure\<close>)
  then show ?thesis by (simp add: ef_measure_def)
qed

function ef_loop :: "'b runtime \<Rightarrow> hnsw \<Rightarrow> f32 list \<Rightarrow> nat \<Rightarrow> nat \<Rightarrow> ef_state \<Rightarrow> candidate list vresult" where
  "ef_loop R h q ef layer st =
     (case st of (candidates, results, visited) \<Rightarrow>
       (case candidates of
          [] \<Rightarrow> Ok results
        | c # cs \<Rightarrow>
          (case results of
             [] \<Rightarrow> Panic
           | furthest # _ \<Rightarrow>
               if \<not> rt_of_le R (snd c) (snd furthest) then Ok results
               else obind (layer_neighbors h (fst c) layer) (\<lambda>neigh.
                    obind (ofold (ef_visit R h q ef) (cs, results, visited) neigh)
                      (ef_loop R h q ef layer)))))"
  by pat_completeness auto
termination
  by (relation "measure (\<lambda>(R, h, q, ef, layer, st). ef_measure h st)") (auto intro: ef_pass_decreases)

declare ef_loop.simps [simp del]

definition ef_search :: "'b runtime \<Rightarrow> hnsw \<Rightarrow> f32 list \<Rightarrow> nat \<Rightarrow> nat \<Rightarrow> nat \<Rightarrow> candidate list vresult" where
  "ef_search R h q entry ef layer =
     obind (dist_to h q entry) (\<lambda>d.
     obind (ef_loop R h q ef layer ([(entry, d)], [(entry, d)], {entry})) (\<lambda>results.
     Ok (rev results)))"

section \<open>Insertion\<close>

definition closest_n :: "'b runtime \<Rightarrow> candidate list \<Rightarrow> nat \<Rightarrow> nat list vresult" where
  "closest_n R candidates n =
     obind (sort_by_dist (rt_sort_nodes R) candidates) (\<lambda>sorted. Ok (map fst (take n sorted)))"

definition hnsw_trim :: "'b runtime \<Rightarrow> hnsw \<Rightarrow> nat \<Rightarrow> nat \<Rightarrow> nat list vresult" where
  "hnsw_trim R h node layer =
     obind (layer_neighbors h node layer) (\<lambda>ns.
     obind (omap (\<lambda>n. obind (node_vec h node) (\<lambda>v. obind (dist_to h v n) (\<lambda>d. Ok (n, d)))) ns) (\<lambda>v.
     obind (sort_by_dist (rt_sort_nodes R) v) (\<lambda>sorted.
     Ok (map fst (take (hx_m_max h) sorted)))))"

definition set_layer :: "hnsw \<Rightarrow> nat \<Rightarrow> nat \<Rightarrow> nat list \<Rightarrow> hnsw" where
  "set_layer h node layer ns =
     h\<lparr> hx_neighbors := (hx_neighbors h)[node := (hx_neighbors h ! node)[layer := ns]] \<rparr>"

text \<open>\<open>self.neighbors[node][layer].push(x)\<close>\<close>

definition push_neighbor :: "hnsw \<Rightarrow> nat \<Rightarrow> nat \<Rightarrow> nat \<Rightarrow> hnsw vresult" where
  "push_neighbor h node layer x =
     (if node < length (hx_neighbors h) \<and> layer < length (hx_neighbors h ! node)
      then Ok (set_layer h node layer (hx_neighbors h ! node ! layer @ [x])) else Panic)"

text \<open>The body of the loop over the selected neighbours: an edge each way, the other end trimmed.\<close>

definition hnsw_connect :: "'b runtime \<Rightarrow> nat \<Rightarrow> nat \<Rightarrow> hnsw \<Rightarrow> nat \<Rightarrow> hnsw vresult" where
  "hnsw_connect R idx lc h n =
     obind (push_neighbor h idx lc n) (\<lambda>h1.
       if n < length (hx_neighbors h1) then
         (if lc < length (hx_neighbors h1 ! n) then
            obind (push_neighbor h1 n lc idx) (\<lambda>h2.
              if hx_m_max h2 < length (hx_neighbors h2 ! n ! lc)
              then obind (hnsw_trim R h2 n lc) (\<lambda>ns. Ok (set_layer h2 n lc ns))
              else Ok h2)
          else Ok h1)
       else Panic)"

definition insert_layer ::
  "'b runtime \<Rightarrow> nat \<Rightarrow> f32 list \<Rightarrow> hnsw \<times> nat \<Rightarrow> nat \<Rightarrow> (hnsw \<times> nat) vresult" where
  "insert_layer R idx q st lc =
     (case st of (h, ep) \<Rightarrow>
       obind (ef_search R h q ep (hx_ef_construction h) lc) (\<lambda>candidates.
       obind (closest_n R candidates (if lc = 0 then hx_m_max h else hx_m h)) (\<lambda>selected.
       obind (ofold (hnsw_connect R idx lc) h selected) (\<lambda>h'.
       Ok (h', case selected of [] \<Rightarrow> ep | s # _ \<Rightarrow> s)))))"

text \<open>\<open>floor(-ln(r) * ml) as usize\<close>, saturating.\<close>

definition random_level :: "'b runtime \<Rightarrow> hnsw \<Rightarrow> f32 \<Rightarrow> nat" where
  "random_level R h r = f_to_usize (f_floor (f_mul (f_neg (rt_ln R r)) (hx_ml h)))"

text \<open>The new node: its vector, id, level and empty layers.\<close>

definition append_node :: "nat \<Rightarrow> u64 \<Rightarrow> f32 list \<Rightarrow> hnsw \<Rightarrow> hnsw" where
  "append_node level i v h =
     h\<lparr> hx_vectors := hx_vectors h @ v, hx_ids := hx_ids h @ [i],
        hx_levels := hx_levels h @ [level],
        hx_neighbors := hx_neighbors h @ [replicate (level + 1) []] \<rparr>"

definition hnsw_insert :: "'b runtime \<Rightarrow> f32 \<Rightarrow> u64 \<Rightarrow> f32 list \<Rightarrow> hnsw \<Rightarrow> hnsw vresult" where
  "hnsw_insert R r i v h =
     (let idx = length (hx_ids h);
          level = random_level R h r;
          h1 = append_node level i v h
      in if 2 ^ 64 \<le> level + 1 then Panic
         else (case hx_entry h1 of
           None \<Rightarrow> Ok (h1\<lparr> hx_entry := Some idx, hx_max_level := level \<rparr>)
         | Some entry \<Rightarrow>
             obind (node_vec h1 idx) (\<lambda>q.
             obind (ofold (\<lambda>ep lc. greedy_down h1 q ep lc) entry (rev [level + 1 ..< hx_max_level h1 + 1])) (\<lambda>ep.
             obind (ofold (insert_layer R idx q) (h1, ep) (rev [0 ..< min level (hx_max_level h1) + 1])) (\<lambda>st.
             Ok (if hx_max_level (fst st) < level
                 then (fst st)\<lparr> hx_entry := Some idx, hx_max_level := level \<rparr> else fst st))))))"

section \<open>Reading\<close>

definition hnsw_snapshot :: "hnsw \<Rightarrow> (u64 \<times> f32 list) list vresult" where
  "hnsw_snapshot h =
     omap (\<lambda>(idx, i). obind (node_vec h idx) (\<lambda>v. Ok (i, v))) (enumerate 0 (hx_ids h))"

definition hnsw_drain :: "hnsw \<Rightarrow> (hnsw \<times> (u64 \<times> f32 list) list) vresult" where
  "hnsw_drain h =
     obind (hnsw_snapshot h) (\<lambda>snap.
     Ok (h\<lparr> hx_vectors := [], hx_ids := [], hx_neighbors := [], hx_levels := [],
            hx_entry := None, hx_max_level := 0 \<rparr>, snap))"

section \<open>Search\<close>

definition keep_hits :: "'b runtime \<Rightarrow> 'b option \<Rightarrow> (u64 \<times> f32) list \<Rightarrow> (u64 \<times> f32) list" where
  "keep_hits R bm hits =
     (case bm of None \<Rightarrow> hits | Some b \<Rightarrow> filter (\<lambda>hit. bm_contains R b (fst hit)) hits)"

text \<open>The loop that doubles \<open>ef\<close>. Its argument is \<open>ef - 1\<close>: \<open>ef\<close> starts at 100 or more and never
  becomes zero.\<close>

function search_loop ::
  "'b runtime \<Rightarrow> hnsw \<Rightarrow> f32 list \<Rightarrow> nat \<Rightarrow> nat \<Rightarrow> 'b option \<Rightarrow> nat \<Rightarrow> (u64 \<times> f32) list vresult" where
  "search_loop R h q best k bm ef1 =
     obind (ef_search R h q best (Suc ef1) 0) (\<lambda>found.
     obind (omap (\<lambda>(idx, d). if idx < length (hx_ids h) then Ok (hx_ids h ! idx, d) else Panic) found) (\<lambda>hits.
       let results = keep_hits R bm hits in
       if k \<le> length results \<or> 1000 \<le> Suc ef1 then Ok (take k results)
       else search_loop R h q best k bm (min (Suc ef1 * 2) 1000 - 1)))"
  by pat_completeness auto
termination
  by (relation "measure (\<lambda>(R, h, q, best, k, bm, ef1). 1000 - ef1)") auto

declare search_loop.simps [simp del]

definition hnsw_search_filtered ::
  "'b runtime \<Rightarrow> hnsw \<Rightarrow> f32 list \<Rightarrow> nat \<Rightarrow> 'b option \<Rightarrow> (u64 \<times> f32) list vresult" where
  "hnsw_search_filtered R h q k bm =
     (case hx_entry h of
        None \<Rightarrow> Ok []
      | Some ep \<Rightarrow>
          obind (ofold (\<lambda>best lc. greedy_down h q best lc) ep (rev [1 ..< hx_max_level h + 1])) (\<lambda>best.
          search_loop R h q best k bm (max k 100 - 1)))"

definition hnsw_search :: "'b runtime \<Rightarrow> hnsw \<Rightarrow> f32 list \<Rightarrow> nat \<Rightarrow> (u64 \<times> f32) list vresult" where
  "hnsw_search R h q k = hnsw_search_filtered R h q k None"

end
