(* ===== verification/Hnsw_Search.thy ===== *)
theory Hnsw_Search
  imports Hnsw
begin

text \<open>
  What the searches of the HNSW index do on a well-formed graph: the descent and the layer search
  never panic and stay within any set of nodes closed under the edges of the layer, the layer search
  keeps its heaps sorted and free of duplicates, and when \<open>ef\<close> is at least the size of such a set it
  collects everything reachable from its entry.
\<close>

section \<open>Well-formed graphs\<close>

definition nbs :: "hnsw \<Rightarrow> nat \<Rightarrow> nat \<Rightarrow> nat list" where
  "nbs h n l = (if l < length (hx_neighbors h ! n) then hx_neighbors h ! n ! l else [])"

text \<open>The links of a node: other nodes, each once, at most \<open>M\_max\<close> of them.\<close>

definition links_ok :: "hnsw \<Rightarrow> nat \<Rightarrow> nat list \<Rightarrow> bool" where
  "links_ok h n ns \<longleftrightarrow> set ns \<subseteq> {..<length (hx_ids h)} - {n} \<and> distinct ns \<and> length ns \<le> hx_m_max h"

definition hnsw_graph :: "hnsw \<Rightarrow> bool" where
  "hnsw_graph h \<longleftrightarrow>
     length (hx_vectors h) = length (hx_ids h) * hx_dims h
     \<and> length (hx_neighbors h) = length (hx_ids h) \<and> length (hx_levels h) = length (hx_ids h)
     \<and> (\<forall>n<length (hx_ids h). length (hx_neighbors h ! n) = hx_levels h ! n + 1)
     \<and> (\<forall>n<length (hx_ids h). \<forall>l. links_ok h n (nbs h n l))
     \<and> hx_m h = 16 \<and> hx_m_max h = 32 \<and> hx_ef_construction h = 200"

definition hnsw_wf :: "hnsw \<Rightarrow> bool" where
  "hnsw_wf h \<longleftrightarrow> hnsw_graph h
     \<and> (case hx_entry h of None \<Rightarrow> hx_ids h = []
        | Some e \<Rightarrow> e < length (hx_ids h) \<and> hx_levels h ! e = hx_max_level h)"

lemma graph_links: "hnsw_graph h \<Longrightarrow> n < length (hx_ids h) \<Longrightarrow> links_ok h n (nbs h n l)"
  by (simp add: hnsw_graph_def)

lemma graph_sizes:
  assumes "hnsw_graph h"
  shows "length (hx_vectors h) = length (hx_ids h) * hx_dims h"
    and "length (hx_neighbors h) = length (hx_ids h)"
    and "n < length (hx_ids h) \<Longrightarrow> length (hx_neighbors h ! n) = hx_levels h ! n + 1"
    and "hx_m h = 16" "hx_m_max h = 32" "hx_ef_construction h = 200"
  using assms by (simp_all add: hnsw_graph_def)

definition node_dist :: "hnsw \<Rightarrow> f32 list \<Rightarrow> nat \<Rightarrow> f32" where
  "node_dist h q n = compute (hx_metric h) q (node_slice h n)"

lemma node_bound: "n < (k :: nat) \<Longrightarrow> (n + 1) * d \<le> k * d"
  by (intro mult_le_mono1) simp

lemma node_vec_graph: "hnsw_graph h \<Longrightarrow> n < length (hx_ids h) \<Longrightarrow> node_vec h n = Ok (node_slice h n)"
  using node_bound [of n "length (hx_ids h)" "hx_dims h"] by (simp add: node_vec_def hnsw_graph_def)

lemma dist_to_graph: "hnsw_graph h \<Longrightarrow> n < length (hx_ids h) \<Longrightarrow> dist_to h q n = Ok (node_dist h q n)"
  by (simp add: dist_to_def node_vec_graph node_dist_def)

lemma layer_neighbors_graph:
  "hnsw_graph h \<Longrightarrow> n < length (hx_ids h) \<Longrightarrow> layer_neighbors h n l = Ok (nbs h n l)"
  by (simp add: layer_neighbors_def nbs_def hnsw_graph_def)

lemmas graph_access = node_vec_graph dist_to_graph layer_neighbors_graph

text \<open>A set of nodes that the edges of a layer do not leave.\<close>

definition closed_at :: "hnsw \<Rightarrow> nat \<Rightarrow> nat set \<Rightarrow> bool" where
  "closed_at h l S \<longleftrightarrow> S \<subseteq> {..<length (hx_ids h)} \<and> (\<forall>x\<in>S. set (nbs h x l) \<subseteq> S)"

lemma closed_all: "hnsw_graph h \<Longrightarrow> closed_at h l {..<length (hx_ids h)}"
  by (auto simp: closed_at_def hnsw_graph_def links_ok_def)

lemma closed_lt: "closed_at h l S \<Longrightarrow> x \<in> S \<Longrightarrow> x < length (hx_ids h)"
  by (auto simp: closed_at_def)

lemma closed_finite: "closed_at h l S \<Longrightarrow> finite S"
  by (auto simp: closed_at_def intro: finite_subset)

section \<open>Greedy descent\<close>

lemma greedy_pass_yields:
  assumes "hnsw_graph h" "closed_at h l S" "ep \<in> S" "set ns \<subseteq> S"
  shows "yields c (ofold (greedy_step h q) (ep, b) ns) (\<lambda>st. fst st \<in> S)"
proof (rule yields_ofold [where I = "\<lambda>_ st. fst st \<in> S"])
  fix pre x suf and st :: "nat \<times> bool"
  assume x: "ns = pre @ x # suf" "fst st \<in> S"
  then have "x \<in> S" using assms(4) by auto
  then show "yields c (greedy_step h q st x) (\<lambda>st. fst st \<in> S)"
    using x assms(1,2) by (simp add: greedy_step_def dist_to_graph closed_lt)
qed (use assms in simp)

lemma greedy_down_yields:
  assumes "hnsw_graph h" "closed_at h l S" "ep \<in> S"
  shows "yields c (greedy_down h q ep l) (\<lambda>e. e \<in> S)"
  using assms
proof (induction h q ep l rule: greedy_down.induct)
  case (1 h q ep l)
  have nb: "layer_neighbors h ep l = Ok (nbs h ep l)"
    using 1 by (simp add: layer_neighbors_graph closed_lt)
  have pass: "yields True (ofold (greedy_step h q) (ep, False) (nbs h ep l)) (\<lambda>st. fst st \<in> S)"
    using 1 by (intro greedy_pass_yields) (auto simp: closed_at_def)
  then obtain st where st: "ofold (greedy_step h q) (ep, False) (nbs h ep l) = Ok st" "fst st \<in> S"
    by (auto dest: yields_total)
  show ?case
    by (subst greedy_down.simps) (use nb st 1 in auto)
qed

lemma descent_yields:
  assumes "hnsw_graph h" "ep \<in> S" "\<And>l. l \<in> set ls \<Longrightarrow> closed_at h l S"
  shows "yields c (ofold (\<lambda>e l. greedy_down h q e l) ep ls) (\<lambda>e. e \<in> S)"
  by (rule yields_ofold [where I = "\<lambda>_ e. e \<in> S"])
    (use assms in \<open>auto intro: greedy_down_yields\<close>)

section \<open>Heaps\<close>

definition heap_ok :: "'b runtime \<Rightarrow> candidate list \<Rightarrow> bool" where
  "heap_ok R xs \<longleftrightarrow> sorted_wrt (\<lambda>x y. cand_le R y x) xs"

lemma cand_le_iff:
  "order_ok R \<Longrightarrow> cand_le R a b \<longleftrightarrow>
     of_key (snd a) < of_key (snd b) \<or> (of_key (snd a) = of_key (snd b) \<and> fst a \<le> fst b)"
  by (auto simp: cand_le_def order_ok_def)

lemma heap_push_mset [simp]: "mset (heap_push R c xs) = add_mset c (mset xs)"
  by (induction xs) auto

lemma heap_push_set [simp]: "set (heap_push R c xs) = insert c (set xs)"
  by (induction xs) auto

lemma heap_push_ok: "order_ok R \<Longrightarrow> heap_ok R xs \<Longrightarrow> heap_ok R (heap_push R c xs)"
  by (induction xs) (auto simp: heap_ok_def cand_le_iff)

lemma heap_push_distinct:
  "distinct (map fst (heap_push R c xs)) \<longleftrightarrow> fst c \<notin> fst ` set xs \<and> distinct (map fst xs)"
  by (induction xs) auto

lemma heap_ok_tl: "heap_ok R xs \<Longrightarrow> heap_ok R (tl xs)"
  by (cases xs) (auto simp: heap_ok_def)

lemma heap_ok_hd: "order_ok R \<Longrightarrow> heap_ok R (f # xs) \<Longrightarrow> c \<in> set (f # xs) \<Longrightarrow> rt_of_le R (snd c) (snd f)"
  by (auto simp: heap_ok_def cand_le_iff) (auto simp: order_ok_def)

section \<open>The layer search\<close>

text \<open>
  The state of the search: every candidate was visited and carries its distance, the results are a
  heap of distinct nodes, at least one and at most \<open>ef\<close>.
\<close>

definition ef_inv :: "'b runtime \<Rightarrow> hnsw \<Rightarrow> f32 list \<Rightarrow> nat \<Rightarrow> nat set \<Rightarrow> nat \<Rightarrow> ef_state \<Rightarrow> bool" where
  "ef_inv R h q ef S entry st \<longleftrightarrow>
     (case st of (cs, rs, vs) \<Rightarrow>
        vs \<subseteq> S \<and> entry \<in> vs \<and> (\<forall>c\<in>set cs \<union> set rs. fst c \<in> vs \<and> snd c = node_dist h q (fst c))
        \<and> heap_ok R rs \<and> distinct (map fst rs) \<and> rs \<noteq> [] \<and> length rs \<le> ef)"

text \<open>When \<open>ef\<close> covers the set nothing is discarded: the results are all that was visited, and only
  nodes that are still candidates (or in \<open>P\<close>) may have unvisited neighbours.\<close>

definition ef_complete :: "hnsw \<Rightarrow> nat \<Rightarrow> nat \<Rightarrow> nat set \<Rightarrow> nat set \<Rightarrow> ef_state \<Rightarrow> bool" where
  "ef_complete h l ef S P st \<longleftrightarrow>
     (card S \<le> ef \<longrightarrow>
       (case st of (cs, rs, vs) \<Rightarrow>
          fst ` set rs = vs \<and> set cs \<subseteq> set rs
          \<and> (\<forall>x\<in>vs. x \<in> fst ` set cs \<or> x \<in> P \<or> set (nbs h x l) \<subseteq> vs)))"

lemma ef_inv_room:
  assumes "ef_inv R h q ef S entry (cs, rs, vs)" "ef_complete h l ef S P (cs, rs, vs)"
    and "finite S" "n \<in> S" "n \<notin> vs" "card S \<le> ef"
  shows "length rs < ef"
proof -
  have "length rs = card (fst ` set rs)"
    using assms(1) by (metis (no_types, lifting) case_prod_conv distinct_card ef_inv_def length_map list.set_map)
  also have "\<dots> = card vs" using assms(2,6) by (simp add: ef_complete_def)
  also have "\<dots> < card S"
    using assms by (intro psubset_card_mono) (auto simp: ef_inv_def)
  finally show ?thesis using assms(6) by simp
qed

lemma ef_visit_yields:
  assumes R: "order_ok R" and g: "hnsw_graph h" and S: "closed_at h l S" and n: "n \<in> S" and ef: "0 < ef"
    and inv: "ef_inv R h q ef S entry st" "ef_complete h l ef S P st"
  shows "yields c (ef_visit R h q ef st n)
    (\<lambda>st'. ef_inv R h q ef S entry st' \<and> ef_complete h l ef S P st'
       \<and> n \<in> snd (snd st') \<and> snd (snd st) \<subseteq> snd (snd st'))"
proof -
  obtain cs rs vs where st: "st = (cs, rs, vs)" by (rule prod_cases3)
  have d: "dist_to h q n = Ok (node_dist h q n)" using g S n by (simp add: dist_to_graph closed_lt)
  obtain f rs' where rs: "rs = f # rs'" using inv(1) by (cases rs) (auto simp: st ef_inv_def)
  show ?thesis
  proof (cases "n \<in> vs")
    case True
    then show ?thesis using inv by (simp add: st ef_visit_def)
  next
    case new: False
    let ?push = "heap_push R (n, node_dist h q n)"
    have fresh: "n \<notin> fst ` set rs" using inv(1) new by (auto simp: st ef_inv_def)
    have room: "card S \<le> ef \<Longrightarrow> length rs < ef"
      using ef_inv_room [OF inv [unfolded st] closed_finite [OF S] n new] .
    show ?thesis
    proof (cases "\<not> rt_of_le R (snd f) (node_dist h q n) \<or> length rs < ef")
      case False
      then have "\<not> card S \<le> ef" using room by auto
      then show ?thesis
        using False inv n new d by (auto simp: st rs ef_visit_def ef_inv_def ef_complete_def)
    next
      case True
      have push: "heap_ok R (?push rs)" "distinct (map fst (?push rs))"
        using inv(1) R fresh by (auto simp: st ef_inv_def heap_push_ok heap_push_distinct)
      let ?rs = "if ef < length (?push rs) then tl (?push rs) else ?push rs"
      have "set ?rs \<subseteq> insert (n, node_dist h q n) (set rs)"
        using in_set_tl [of _ "?push rs"] by auto
      moreover have "heap_ok R ?rs" "distinct (map fst ?rs)"
        using push heap_ok_tl by (auto simp: map_tl distinct_tl)
      moreover have "?rs \<noteq> []" "length ?rs \<le> ef"
        using inv(1) ef by (auto simp: st rs ef_inv_def simp flip: length_greater_0_conv)
      ultimately have "ef_inv R h q ef S entry (?push cs, ?rs, insert n vs)"
        using inv(1) n by (auto simp: st ef_inv_def)
      moreover have "ef_complete h l ef S P (?push cs, ?rs, insert n vs)"
        using inv(2) room by (auto simp: st ef_complete_def)
      ultimately show ?thesis
        using True new d by (auto simp: st rs ef_visit_def Let_def)
    qed
  qed
qed

text \<open>The neighbours of one popped candidate.\<close>

lemma ef_pass_yields:
  assumes R: "order_ok R" and g: "hnsw_graph h" and S: "closed_at h l S" and x: "x \<in> S" and ef: "0 < ef"
    and inv: "ef_inv R h q ef S entry st" "ef_complete h l ef S {x} st"
  shows "yields c (ofold (ef_visit R h q ef) st (nbs h x l))
    (\<lambda>st'. ef_inv R h q ef S entry st' \<and> ef_complete h l ef S {} st')"
proof -
  let ?I = "\<lambda>pre st'. ef_inv R h q ef S entry st' \<and> ef_complete h l ef S {x} st' \<and> set pre \<subseteq> snd (snd st')"
  have "yields c (ofold (ef_visit R h q ef) st (nbs h x l)) (?I (nbs h x l))"
  proof (rule yields_ofold [where I = ?I])
    fix pre n suf st' assume a: "nbs h x l = pre @ n # suf" "?I pre st'"
    then have "n \<in> S" using S x by (fastforce simp: closed_at_def)
    show "yields c (ef_visit R h q ef st' n) (?I (pre @ [n]))"
      by (rule yields_mono [OF ef_visit_yields [OF R g S \<open>n \<in> S\<close> ef, where P = "{x}"]]) (use a in auto)
  qed (use inv in simp)
  then show ?thesis
    by (rule yields_mono) (auto simp: ef_complete_def split: prod.splits)
qed

text \<open>What the loop leaves in the results heap.\<close>

definition ef_result :: "'b runtime \<Rightarrow> hnsw \<Rightarrow> f32 list \<Rightarrow> nat \<Rightarrow> nat \<Rightarrow> nat set \<Rightarrow> nat \<Rightarrow> candidate list \<Rightarrow> bool" where
  "ef_result R h q ef l S entry rs \<longleftrightarrow>
     (\<forall>c\<in>set rs. fst c \<in> S \<and> snd c = node_dist h q (fst c))
     \<and> heap_ok R rs \<and> distinct (map fst rs) \<and> rs \<noteq> [] \<and> length rs \<le> ef
     \<and> (card S \<le> ef \<longrightarrow> entry \<in> fst ` set rs \<and> (\<forall>x\<in>fst ` set rs. set (nbs h x l) \<subseteq> fst ` set rs))"

lemma ef_loop_yields:
  assumes "order_ok R" "hnsw_graph h" "closed_at h l S" "0 < ef"
    and "ef_inv R h q ef S entry st" "ef_complete h l ef S {} st"
  shows "yields np (ef_loop R h q ef l st) (ef_result R h q ef l S entry)"
  using assms
proof (induction R h q ef l st rule: ef_loop.induct)
  case (1 R h q ef l st)
  obtain cs rs vs where st: "st = (cs, rs, vs)" by (rule prod_cases3)
  obtain f rs' where rs: "rs = f # rs'" using 1 by (cases rs) (auto simp: st ef_inv_def)
  show ?case
  proof (cases cs)
    case Nil
    have "ef_result R h q ef l S entry rs"
      using 1 by (auto simp: st Nil ef_result_def ef_inv_def ef_complete_def)
    then show ?thesis by (subst ef_loop.simps) (simp add: st Nil)
  next
    case (Cons c cs')
    have c: "fst c \<in> S" "snd c = node_dist h q (fst c)" using 1 by (auto simp: st Cons ef_inv_def)
    show ?thesis
    proof (cases "rt_of_le R (snd c) (snd f)")
      case False
      have "\<not> card S \<le> ef"
        using 1 False heap_ok_hd [of R f rs' c] by (auto simp: st rs Cons ef_inv_def ef_complete_def)
      then have "ef_result R h q ef l S entry rs" using 1 by (auto simp: st ef_result_def ef_inv_def)
      then show ?thesis using False by (subst ef_loop.simps) (simp add: st Cons rs)
    next
      case True
      have nb: "layer_neighbors h (fst c) l = Ok (nbs h (fst c) l)"
        using 1 c by (simp add: layer_neighbors_graph closed_lt)
      have "ef_inv R h q ef S entry (cs', rs, vs)" "ef_complete h l ef S {fst c} (cs', rs, vs)"
        using 1 by (auto simp: st Cons ef_inv_def ef_complete_def)
      from ef_pass_yields [OF 1(2,3,4) c(1) 1(5) this]
      have "yields True (ofold (ef_visit R h q ef) (cs', rs, vs) (nbs h (fst c) l))
        (\<lambda>st'. ef_inv R h q ef S entry st' \<and> ef_complete h l ef S {} st')" .
      then obtain st' where st': "ofold (ef_visit R h q ef) (cs', rs, vs) (nbs h (fst c) l) = Ok st'"
        "ef_inv R h q ef S entry st'" "ef_complete h l ef S {} st'"
        by (auto dest: yields_total)
      have "yields np (ef_loop R h q ef l st') (ef_result R h q ef l S entry)"
        by (rule 1(1) [OF st [symmetric] refl Cons rs _ nb st'(1)]) (use True st' 1 in auto)
      then show ?thesis using True nb st' by (subst ef_loop.simps) (simp add: st Cons rs)
    qed
  qed
qed

lemma ef_search_yields:
  assumes "order_ok R" "hnsw_graph h" "closed_at h l S" "0 < ef" "entry \<in> S"
  shows "yields c (ef_search R h q entry ef l) (\<lambda>found. ef_result R h q ef l S entry (rev found))"
proof -
  let ?st = "([(entry, node_dist h q entry)], [(entry, node_dist h q entry)], {entry})"
  have "ef_inv R h q ef S entry ?st" "ef_complete h l ef S {} ?st"
    using assms by (auto simp: ef_inv_def ef_complete_def heap_ok_def)
  from ef_loop_yields [OF assms(1-4) this]
  show ?thesis
    using assms by (simp add: ef_search_def dist_to_graph closed_lt) (rule yields_bind, auto)
qed

section \<open>The whole search\<close>

text \<open>What \<open>ef\_search\<close> returns, as nodes: distinct, in order of distance, all of them when \<open>ef\<close>
  covers the set.\<close>

definition near_nodes :: "hnsw \<Rightarrow> f32 list \<Rightarrow> nat \<Rightarrow> nat \<Rightarrow> nat set \<Rightarrow> nat \<Rightarrow> nat list \<Rightarrow> bool" where
  "near_nodes h q ef l S entry ns \<longleftrightarrow>
     distinct ns \<and> set ns \<subseteq> S \<and> sorted (map (\<lambda>n. of_key (node_dist h q n)) ns)
     \<and> (card S \<le> ef \<longrightarrow> entry \<in> set ns \<and> (\<forall>x\<in>set ns. set (nbs h x l) \<subseteq> set ns))"

definition node_hit :: "hnsw \<Rightarrow> f32 list \<Rightarrow> nat \<Rightarrow> u64 \<times> f32" where
  "node_hit h q n = (hx_ids h ! n, node_dist h q n)"

lemma ef_result_nodes:
  assumes "order_ok R" "ef_result R h q ef l S entry (rev found)"
  shows "near_nodes h q ef l S entry (map fst found)"
    and "found = map (\<lambda>n. (n, node_dist h q n)) (map fst found)"
proof -
  have f: "\<forall>c\<in>set found. snd c = node_dist h q (fst c)" using assms(2) by (auto simp: ef_result_def)
  then show "found = map (\<lambda>n. (n, node_dist h q n)) (map fst found)"
    by (auto simp: o_def intro!: map_idI [symmetric])
  have "sorted_wrt (cand_le R) found"
    using assms(2) by (simp add: ef_result_def heap_ok_def sorted_wrt_rev)
  then have "sorted (map (\<lambda>c. of_key (snd c)) found)"
    by (simp add: sorted_map) (erule sorted_wrt_mono_rel [rotated], auto simp: cand_le_iff [OF assms(1)])
  moreover have "map (\<lambda>c. of_key (snd c)) found = map (\<lambda>n. of_key (node_dist h q n)) (map fst found)"
    using f by simp
  ultimately show "near_nodes h q ef l S entry (map fst found)"
    using assms(2) by (auto simp: ef_result_def near_nodes_def rev_map [symmetric])
qed

lemma search_loop_yields:
  assumes "order_ok R" "hnsw_graph h" "closed_at h 0 S" "best \<in> S" "ef \<le> Suc ef1"
  shows "yields np (search_loop R h q best k bm ef1)
    (\<lambda>hits. \<exists>ns. near_nodes h q ef 0 S best ns \<and> hits = take k (keep_hits R bm (map (node_hit h q) ns)))"
  using assms
proof (induction R h q best k bm ef1 rule: search_loop.induct)
  case (1 R h q best k bm ef1)
  obtain found where found: "ef_search R h q best (Suc ef1) 0 = Ok found"
    "ef_result R h q (Suc ef1) 0 S best (rev found)"
    using yields_total [OF ef_search_yields [OF 1(2,3,4) _ 1(5)]] by blast
  note fn = ef_result_nodes [OF 1(2) found(2)]
  let ?hits = "map (node_hit h q) (map fst found)"
  have idx: "\<forall>c\<in>set found. fst c < length (hx_ids h)"
    using found(2) closed_lt [OF 1(4)] by (auto simp: ef_result_def)
  have hits: "omap (\<lambda>(idx, d). if idx < length (hx_ids h) then Ok (hx_ids h ! idx, d) else Panic) found
      = (Ok ?hits :: (u64 \<times> f32) list vresult)"
    by (subst fn(2), subst omap_total [where g = "\<lambda>(n, d). (hx_ids h ! n, d)"])
      (use idx in \<open>auto simp: node_hit_def\<close>)
  have near: "near_nodes h q ef 0 S best (map fst found)"
    using fn(1) 1(6) by (auto simp: near_nodes_def)
  show ?case
  proof (cases "k \<le> length (keep_hits R bm ?hits) \<or> 1000 \<le> Suc ef1")
    case True
    then show ?thesis using near
      by (subst search_loop.simps) (auto simp: found hits Let_def simp del: map_map)
  next
    case False
    have "yields np (search_loop R h q best k bm (min (Suc ef1 * 2) 1000 - 1))
      (\<lambda>hits. \<exists>ns. near_nodes h q ef 0 S best ns \<and> hits = take k (keep_hits R bm (map (node_hit h q) ns)))"
      by (rule 1(1) [OF found(1) hits refl]) (use False 1 in auto)
    then show ?thesis using False
      by (subst search_loop.simps) (simp add: found hits Let_def del: map_map)
  qed
qed

lemma search_filtered_yields:
  assumes "order_ok R" "hnsw_wf h" "hx_entry h = Some e" "ef \<le> max k 100"
  shows "yields np (hnsw_search_filtered R h q k bm)
    (\<lambda>hits. \<exists>best ns. best < length (hx_ids h)
        \<and> near_nodes h q ef 0 {..<length (hx_ids h)} best ns
        \<and> hits = take k (keep_hits R bm (map (node_hit h q) ns)))"
proof -
  let ?S = "{..<length (hx_ids h)}"
  have g: "hnsw_graph h" and e: "e \<in> ?S" using assms(2,3) by (auto simp: hnsw_wf_def)
  have "yields np (search_loop R h q best k bm (max k 100 - 1))
    (\<lambda>hits. \<exists>best ns. best < length (hx_ids h) \<and> near_nodes h q ef 0 ?S best ns
        \<and> hits = take k (keep_hits R bm (map (node_hit h q) ns)))" if "best \<in> ?S" for best
    by (rule yields_mono [OF search_loop_yields [OF assms(1) g closed_all [OF g] that, of ef]])
      (use assms(4) that in auto)
  then show ?thesis
    unfolding hnsw_search_filtered_def assms(3) option.case
    by (intro yields_bind [OF descent_yields [OF g e closed_all [OF g]]])
qed

lemma keep_hits_filter: "keep_hits R bm hits = filter (\<lambda>hit. case bm of None \<Rightarrow> True | Some b \<Rightarrow> bm_contains R b (fst hit)) hits"
  by (simp add: keep_hits_def split: option.split)

section \<open>Properties\<close>

text \<open>C18: On every well-formed graph the filtered search returns, whatever the query, \<open>k\<close> and bitmap, and
  even when distances are NaN: the descent and the doubling of \<open>ef\<close> terminate without a panic, and the
  result has at most \<open>k\<close> entries, comes from distinct stored nodes with their exact distances, is
  sorted (a NaN after every number) and holds only ids the bitmap contains.\<close>

theorem hnsw_search_sound:
  assumes "order_ok R" "hnsw_wf h"
  shows "\<exists>hits ns. hnsw_search_filtered R h q k bm = Ok hits \<and> length hits \<le> k
     \<and> distinct ns \<and> set ns \<subseteq> {..<length (hx_ids h)}
     \<and> hits = map (\<lambda>n. (hx_ids h ! n, compute (hx_metric h) q (node_slice h n))) ns
     \<and> sorted (map (\<lambda>hit. of_key (snd hit)) hits)
     \<and> (\<forall>b hit. bm = Some b \<and> hit \<in> set hits \<longrightarrow> bm_contains R b (fst hit))"
proof (cases "hx_entry h")
  case None
  then show ?thesis
    by (intro exI [of _ "[]"]) (simp add: hnsw_search_filtered_def)
next
  case (Some e)
  then obtain best ns where
    ns: "near_nodes h q 0 0 {..<length (hx_ids h)} best ns"
    and hits: "hnsw_search_filtered R h q k bm = Ok (take k (keep_hits R bm (map (node_hit h q) ns)))"
    using yields_total [OF search_filtered_yields [OF assms Some, of 0 k]] by blast
  let ?P = "\<lambda>hit. case bm of None \<Rightarrow> True | Some b \<Rightarrow> bm_contains R b (fst hit)"
  let ?ns = "take k (filter (\<lambda>n. ?P (node_hit h q n)) ns)"
  have eq: "take k (keep_hits R bm (map (node_hit h q) ns)) = map (node_hit h q) ?ns"
    by (simp add: keep_hits_filter filter_map take_map o_def)
  have "sorted (map (\<lambda>n. of_key (node_dist h q n)) ?ns)"
    using ns by (auto simp: near_nodes_def sorted_wrt_map intro: sorted_wrt_take sorted_wrt_filter)
  then show ?thesis
    using hits ns unfolding eq
    by (intro exI [of _ "map (node_hit h q) ?ns"] exI [of _ ?ns])
      (auto simp: near_nodes_def node_hit_def node_dist_def o_def dest!: in_set_takeD)
qed

text \<open>Two nodes linked to each other.\<close>

definition demo_hnsw :: hnsw where
  "demo_hnsw = \<lparr> hx_vectors = [f_one, f_two], hx_dims = 1, hx_ids = [7, 9], hx_neighbors = [[[1]], [[0]]],
     hx_levels = [0, 0], hx_entry = Some 0, hx_max_level = 0, hx_m = 16, hx_m_max = 32,
     hx_ef_construction = 200, hx_ml = f_one, hx_metric = L2 \<rparr>"

theorem hnsw_search_sound_witness:
  "\<exists>hits ns. hnsw_search_filtered demo_runtime demo_hnsw [f_two] 1 (Some {9}) = Ok hits \<and> length hits \<le> 1
     \<and> distinct ns \<and> set ns \<subseteq> {..<length (hx_ids demo_hnsw)}
     \<and> hits = map (\<lambda>n. (hx_ids demo_hnsw ! n, compute L2 [f_two] (node_slice demo_hnsw n))) ns"
proof -
  have "hnsw_wf demo_hnsw"
    by (auto simp: hnsw_wf_def hnsw_graph_def links_ok_def nbs_def demo_hnsw_def less_Suc_eq)
  from hnsw_search_sound [OF demo_order_ok this, where k = 1 and q = "[f_two]" and bm = "Some {9}"]
  obtain hits ns where "hnsw_search_filtered demo_runtime demo_hnsw [f_two] 1 (Some {9}) = Ok hits"
    "length hits \<le> 1" "distinct ns" "set ns \<subseteq> {..<length (hx_ids demo_hnsw)}"
    "hits = map (\<lambda>n. (hx_ids demo_hnsw ! n, compute (hx_metric demo_hnsw) [f_two] (node_slice demo_hnsw n))) ns"
    by blast
  moreover have "hx_metric demo_hnsw = L2" by (simp add: demo_hnsw_def)
  ultimately show ?thesis by (intro exI conjI) simp_all
qed

end
