(* ===== verification/Flat_Index.thy ===== *)
theory Flat_Index
  imports Runtime
begin

text \<open>
  The brute-force index (\<open>vec/src/flat.rs\<close>), the oracle the graph index is measured against: two
  parallel vectors of ids and embeddings, and a search that scans, sorts and truncates.
\<close>

section \<open>State and operations\<close>

record flat_index =
  fx_vectors :: "f32 list list"
  fx_ids :: "u64 list"
  fx_metric :: metric

definition flat_new :: "metric \<Rightarrow> flat_index" where
  "flat_new m = \<lparr> fx_vectors = [], fx_ids = [], fx_metric = m \<rparr>"

definition flat_insert :: "u64 \<Rightarrow> f32 list \<Rightarrow> flat_index \<Rightarrow> flat_index" where
  "flat_insert i v fx = fx\<lparr> fx_ids := fx_ids fx @ [i], fx_vectors := fx_vectors fx @ [v] \<rparr>"

definition flat_len :: "flat_index \<Rightarrow> nat" where
  "flat_len fx = length (fx_ids fx)"

definition flat_is_empty :: "flat_index \<Rightarrow> bool" where
  "flat_is_empty fx = (fx_ids fx = [])"

definition flat_hits :: "flat_index \<Rightarrow> f32 list \<Rightarrow> (u64 \<times> f32) list" where
  "flat_hits fx q = map (\<lambda>(v, i). (i, compute (fx_metric fx) v q)) (zip (fx_vectors fx) (fx_ids fx))"

definition flat_search ::
  "'b runtime \<Rightarrow> flat_index \<Rightarrow> f32 list \<Rightarrow> nat \<Rightarrow> ('e, (u64 \<times> f32) list) outcome" where
  "flat_search R fx q k =
     obind (sort_by_dist (rt_sort_hits R) (flat_hits fx q)) (\<lambda>hits. Ok (take k hits))"

fun position :: "u64 \<Rightarrow> u64 list \<Rightarrow> nat option" where
  "position x [] = None"
| "position x (y # ys) = (if y = x then Some 0 else map_option Suc (position x ys))"

definition flat_distance_to :: "flat_index \<Rightarrow> u64 \<Rightarrow> f32 list \<Rightarrow> f32 option" where
  "flat_distance_to fx i q =
     (case position i (fx_ids fx) of
        None \<Rightarrow> None
      | Some p \<Rightarrow> if p < length (fx_vectors fx)
                  then Some (compute (fx_metric fx) (fx_vectors fx ! p) q) else None)"

section \<open>Invariant and lemmas\<close>

text \<open>The two vectors stay parallel: every id has its embedding.\<close>

definition flat_wf :: "flat_index \<Rightarrow> bool" where
  "flat_wf fx \<longleftrightarrow> length (fx_vectors fx) = length (fx_ids fx)"

lemma flat_wf_new: "flat_wf (flat_new m)"
  by (simp add: flat_wf_def flat_new_def)

lemma flat_wf_insert: "flat_wf fx \<Longrightarrow> flat_wf (flat_insert i v fx)"
  by (simp add: flat_wf_def flat_insert_def)

definition flat_of :: "metric \<Rightarrow> (u64 \<times> f32 list) list \<Rightarrow> flat_index" where
  "flat_of m es = foldl (\<lambda>fx (i, v). flat_insert i v fx) (flat_new m) es"

lemma flat_of_fields:
  "fx_ids (flat_of m es) = map fst es" "fx_vectors (flat_of m es) = map snd es"
  "fx_metric (flat_of m es) = m"
  by (induction es rule: rev_induct)
     (auto simp: flat_of_def flat_new_def flat_insert_def)

lemma flat_hits_of:
  "flat_hits (flat_of m es) q = map (\<lambda>(i, v). (i, compute m v q)) es"
  by (induction es) (auto simp: flat_hits_def flat_of_fields)

lemma flat_search_Ok:
  assumes "order_ok R" "flat_search R fx q k = Ok hits"
  obtains ys where "mset ys = mset (flat_hits fx q)" "sorted (map (\<lambda>x. f_key (snd x)) ys)"
    and "hits = take k ys"
  using assms by (auto simp: flat_search_def outcome_iff order_ok_def dest: sort_by_dist_Ok)

lemma position_Some: "position x xs = Some p \<Longrightarrow> p < length xs \<and> xs ! p = x"
  by (induction xs arbitrary: p) (auto split: if_splits)

lemma position_None: "position x xs = None \<longleftrightarrow> x \<notin> set xs"
  by (induction xs) auto

section \<open>Properties\<close>

text \<open>C37: The flat scan is exact: on an index built by inserts, when no stored vector is at a NaN
  distance of the query, the search does not panic; it returns \<open>min(k, n)\<close> entries, each a stored
  id with its distance, nearest first, and every stored entry it leaves out is at least as far as
  every entry it returns.\<close>

theorem flat_search_exact:
  assumes "order_ok R" "\<forall>(i, v) \<in> set es. \<not> is_nan (compute m v q)"
  shows "\<exists>hits rest. flat_search R (flat_of m es) q k = (Ok hits :: ('e, _) outcome)
     \<and> mset (hits @ rest) = mset (map (\<lambda>(i, v). (i, compute m v q)) es)
     \<and> length hits = min k (length es)
     \<and> sorted (map (\<lambda>h. f_key (snd h)) hits)
     \<and> (\<forall>h\<in>set hits. \<forall>r\<in>set rest. f_key (snd h) \<le> f_key (snd r))"
proof -
  let ?all = "map (\<lambda>(i, v). (i, compute m v q)) es"
  have "\<forall>x\<in>set ?all. \<not> is_nan (snd x)" using assms(2) by auto
  then have s: "sort_by_dist (rt_sort_hits R) ?all = (Ok (rt_sort_hits R ?all) :: ('e, _) outcome)"
    by (rule sort_by_dist_total)
  define ys where "ys = rt_sort_hits R ?all"
  have ys: "mset ys = mset ?all" "sorted (map (\<lambda>x. f_key (snd x)) ys)"
    using sort_by_dist_Ok [OF _ s] assms(1) by (simp_all add: order_ok_def ys_def)
  have "length ys = length es" using mset_eq_len [OF ys(1)] by simp
  moreover have "flat_search R (flat_of m es) q k = (Ok (take k ys) :: ('e, _) outcome)"
    using s by (simp add: flat_search_def flat_hits_of ys_def)
  ultimately show ?thesis
    using ys take_sorted_key [OF ys(2)] sorted_take_le_drop [OF ys(2)]
    by (intro exI [of _ "take k ys"] exI [of _ "drop k ys"]) (auto simp: min.commute)
qed

theorem flat_search_exact_witness:
  "\<exists>hits rest. flat_search demo_runtime (flat_of L2 [(7, [f_one]), (9, [f_two])]) [f_two] 1 = Ok hits
     \<and> mset (hits @ rest) = mset (map (\<lambda>(i, v). (i, compute L2 v [f_two])) [(7, [f_one]), (9, [f_two])])
     \<and> length hits = min 1 (length [(7 :: u64, [f_one]), (9, [f_two])])
     \<and> sorted (map (\<lambda>h. f_key (snd h)) hits)
     \<and> (\<forall>h\<in>set hits. \<forall>r\<in>set rest. f_key (snd h) \<le> f_key (snd r))"
proof (rule flat_search_exact)
  show "order_ok demo_runtime" by (rule demo_order_ok)
  show "\<forall>(i, v)\<in>set [(7, [f_one]), (9, [f_two])]. \<not> is_nan (compute L2 v [f_two])"
    by (simp add: compute_def l2_squared_not_nan)
qed

end
