(* ===== verification/Hnsw_Insert.thy ===== *)
theory Hnsw_Insert
  imports Hnsw_Search Flat_Index
begin

text \<open>
  Insertion into the HNSW graph: every step keeps the graph well formed (links point to other
  existing nodes, without repetition, at most \<open>M\_max\<close> per layer), an insertion adds exactly the new
  entry, and it panics only if some distance is a NaN or the level overflows. Up to 33 entries the
  bottom layer is a complete graph, so the index answers exactly like the flat scan.
\<close>

section \<open>Replacing the links of one layer\<close>

text \<open>The distances an insertion may compare: none is a NaN.\<close>

definition no_nan :: "hnsw \<Rightarrow> bool" where
  "no_nan h \<longleftrightarrow> (\<forall>i<length (hx_ids h). \<forall>j<length (hx_ids h).
     \<not> is_nan (compute (hx_metric h) (node_slice h i) (node_slice h j)))"

text \<open>Two states that differ in their links only.\<close>

definition same_nodes :: "hnsw \<Rightarrow> hnsw \<Rightarrow> bool" where
  "same_nodes h h' \<longleftrightarrow> h' = h\<lparr> hx_neighbors := hx_neighbors h' \<rparr> \<and> map length (hx_neighbors h') = map length (hx_neighbors h)"

lemma same_nodes_refl [simp]: "same_nodes h h"
  by (simp add: same_nodes_def)

lemma same_nodes_trans: "same_nodes h h1 \<Longrightarrow> same_nodes h1 h2 \<Longrightarrow> same_nodes h h2"
  unfolding same_nodes_def by (metis hnsw.update_convs(4) hnsw.surjective)

lemma same_nodes_fields:
  assumes "same_nodes h h'"
  shows "hx_ids h' = hx_ids h" "hx_vectors h' = hx_vectors h" "hx_dims h' = hx_dims h"
    and "hx_levels h' = hx_levels h" "hx_entry h' = hx_entry h" "hx_max_level h' = hx_max_level h"
    and "hx_m h' = hx_m h" "hx_m_max h' = hx_m_max h" "hx_ef_construction h' = hx_ef_construction h"
    and "hx_metric h' = hx_metric h" "node_slice h' = node_slice h" "no_nan h' = no_nan h"
    and "length (hx_neighbors h') = length (hx_neighbors h)"
    and "n < length (hx_neighbors h) \<Longrightarrow> length (hx_neighbors h' ! n) = length (hx_neighbors h ! n)"
    and "hx_ml h' = hx_ml h"
proof -
  obtain ns where h': "h' = h\<lparr> hx_neighbors := ns \<rparr>" and len: "map length ns = map length (hx_neighbors h)"
    using assms unfolding same_nodes_def by metis
  show "hx_ids h' = hx_ids h" "hx_vectors h' = hx_vectors h" "hx_dims h' = hx_dims h"
    "hx_levels h' = hx_levels h" "hx_entry h' = hx_entry h" "hx_max_level h' = hx_max_level h"
    "hx_m h' = hx_m h" "hx_m_max h' = hx_m_max h" "hx_ef_construction h' = hx_ef_construction h"
    "hx_metric h' = hx_metric h" "hx_ml h' = hx_ml h"
    by (simp_all add: h')
  show "node_slice h' = node_slice h" by (simp add: h' node_slice_def fun_eq_iff)
  then show "no_nan h' = no_nan h" by (simp add: no_nan_def) (simp add: h')
  show l: "length (hx_neighbors h') = length (hx_neighbors h)" using map_eq_imp_length_eq [OF len] by (simp add: h')
  show "n < length (hx_neighbors h) \<Longrightarrow> length (hx_neighbors h' ! n) = length (hx_neighbors h ! n)"
    using arg_cong [OF len, of "\<lambda>xs. xs ! n"] l by (simp add: h')
qed

lemma nbs_set_layer:
  assumes "node < length (hx_neighbors h)" "layer < length (hx_neighbors h ! node)"
  shows "nbs (set_layer h node layer ns) n l = (if n = node \<and> l = layer then ns else nbs h n l)"
  using assms by (auto simp: nbs_def set_layer_def nth_list_update)

lemma same_nodes_set_layer:
  assumes "node < length (hx_neighbors h)"
  shows "same_nodes h (set_layer h node layer ns)"
proof -
  have "map length (hx_neighbors (set_layer h node layer ns)) = map length (hx_neighbors h)"
    using assms by (auto simp: set_layer_def list_eq_iff_nth_eq nth_list_update)
  then show ?thesis by (simp add: same_nodes_def) (simp add: set_layer_def)
qed

lemma set_layer_twice: "set_layer (set_layer h node layer a) node layer b = set_layer h node layer b"
  by (cases "node < length (hx_neighbors h)") (auto simp: set_layer_def list_update_beyond)

lemma graph_same_nodes:
  assumes "hnsw_graph h" "same_nodes h h'"
    and "\<And>n l. n < length (hx_ids h) \<Longrightarrow> links_ok h n (nbs h' n l)"
  shows "hnsw_graph h'"
proof -
  have "links_ok h' n ns = links_ok h n ns" for n ns
    using same_nodes_fields [OF assms(2)] by (simp add: links_ok_def)
  moreover have "length (hx_neighbors h' ! n) = hx_levels h ! n + 1" if "n < length (hx_ids h)" for n
    using same_nodes_fields(14) [OF assms(2)] assms(1) that by (simp add: hnsw_graph_def)
  ultimately show ?thesis
    using same_nodes_fields(1-9,13) [OF assms(2)] assms(1,3) by (simp add: hnsw_graph_def)
qed

section \<open>Selecting and trimming\<close>

lemma sorted_fsts:
  assumes "mset ys = mset (map (\<lambda>n. (n, g n)) ns)"
  shows "mset (map fst ys) = mset ns"
proof -
  have "mset (map fst ys) = image_mset fst (mset ys)" by simp
  also have "\<dots> = mset ns" unfolding assms by (simp add: image_mset.compositionality o_def)
  finally show ?thesis .
qed

lemma sort_nodes_yields:
  assumes "order_ok R" "distinct ns" "c \<Longrightarrow> \<forall>n\<in>set ns. \<not> is_nan (g n)"
  shows "yields c (sort_by_dist (rt_sort_nodes R) (map (\<lambda>n. (n, g n)) ns) :: candidate list vresult)
    (\<lambda>ys. set (map fst (take k ys)) \<subseteq> set ns \<and> distinct (map fst (take k ys))
       \<and> length (map fst (take k ys)) \<le> k
       \<and> (length ns \<le> k \<longrightarrow> set (map fst (take k ys)) = set ns))"
proof (cases "sort_by_dist (rt_sort_nodes R) (map (\<lambda>n. (n, g n)) ns) :: candidate list vresult")
  case (Ok ys)
  have "sort_ok (rt_sort_nodes R)" using assms(1) by (simp add: order_ok_def)
  from sort_by_dist_Ok(1) [OF this Ok] have m: "mset (map fst ys) = mset ns" by (rule sorted_fsts)
  then have d: "distinct (map fst ys)" "set (map fst ys) = set ns" "length ys = length ns"
    using assms(2) mset_eq_imp_distinct_iff [OF m] mset_eq_set [OF m] mset_eq_len [OF m] by simp_all
  have "set (map fst (take k ys)) \<subseteq> set ns"
    using d(2) by (auto dest: in_set_takeD)
  moreover have "distinct (map fst (take k ys))" using d(1) by (simp add: take_map [symmetric])
  moreover have "length ns \<le> k \<Longrightarrow> set (map fst (take k ys)) = set ns" using d(2,3) by simp
  ultimately show ?thesis by (simp add: Ok)
next
  case Panic
  then have "\<not> (\<forall>n\<in>set ns. \<not> is_nan (g n))"
    by (auto simp: sort_by_dist_def list_ex_iff split: if_splits)
  then show ?thesis using assms(3) Panic by auto
qed simp

lemma trim_yields:
  assumes "order_ok R" "length (hx_vectors h) = length (hx_ids h) * hx_dims h"
    and "length (hx_neighbors h) = length (hx_ids h)" "n < length (hx_ids h)"
    and "distinct (nbs h n l)" "set (nbs h n l) \<subseteq> {..<length (hx_ids h)}"
  shows "yields (no_nan h) (hnsw_trim R h n l)
    (\<lambda>ns. set ns \<subseteq> set (nbs h n l) \<and> distinct ns \<and> length ns \<le> hx_m_max h)"
proof -
  have vec: "node_vec h i = Ok (node_slice h i)" if "i < length (hx_ids h)" for i
    using node_bound [OF that, of "hx_dims h"] assms(2) by (simp add: node_vec_def)
  let ?g = "\<lambda>x. compute (hx_metric h) (node_slice h n) (node_slice h x)"
  have "omap (\<lambda>x. obind (node_vec h n) (\<lambda>v. obind (dist_to h v x) (\<lambda>d. Ok (x, d)))) (nbs h n l)
      = (Ok (map (\<lambda>x. (x, ?g x)) (nbs h n l)) :: candidate list vresult)"
    using assms(4,6) by (intro omap_total) (auto simp: vec dist_to_def)
  moreover have "layer_neighbors h n l = Ok (nbs h n l)"
    using assms(3,4) by (simp add: layer_neighbors_def nbs_def)
  moreover have "yields (no_nan h) (sort_by_dist (rt_sort_nodes R) (map (\<lambda>x. (x, ?g x)) (nbs h n l)) :: candidate list vresult)
    (\<lambda>ys. set (map fst (take (hx_m_max h) ys)) \<subseteq> set (nbs h n l) \<and> distinct (map fst (take (hx_m_max h) ys))
       \<and> length (map fst (take (hx_m_max h) ys)) \<le> hx_m_max h
       \<and> (length (nbs h n l) \<le> hx_m_max h \<longrightarrow> set (map fst (take (hx_m_max h) ys)) = set (nbs h n l)))"
    by (rule sort_nodes_yields [OF assms(1,5)]) (use assms(4,6) in \<open>auto simp: no_nan_def\<close>)
  ultimately show ?thesis
    by (auto simp: hnsw_trim_def elim!: yields_bind)
qed

section \<open>Connecting\<close>

text \<open>Replacing one list by an admissible one keeps the graph well formed.\<close>

lemma relink:
  assumes "hnsw_graph h" "n < length (hx_ids h)" "l < length (hx_neighbors h ! n)" "links_ok h n ns"
  shows "hnsw_graph (set_layer h n l ns)" "same_nodes h (set_layer h n l ns)"
    and "nbs (set_layer h n l ns) m k = (if m = n \<and> k = l then ns else nbs h m k)"
    and "links_ok (set_layer h n l ns) = links_ok h"
proof -
  have len: "n < length (hx_neighbors h)" using assms(1,2) by (simp add: hnsw_graph_def)
  show s: "same_nodes h (set_layer h n l ns)" by (rule same_nodes_set_layer [OF len])
  show nb: "nbs (set_layer h n l ns) m k = (if m = n \<and> k = l then ns else nbs h m k)" for m k
    by (rule nbs_set_layer [OF len assms(3)])
  show "hnsw_graph (set_layer h n l ns)"
    using assms(1,4) by (intro graph_same_nodes [OF assms(1) s]) (auto simp: nb hnsw_graph_def)
  show "links_ok (set_layer h n l ns) = links_ok h"
    using same_nodes_fields [OF s] by (simp add: links_ok_def fun_eq_iff)
qed

text \<open>The second half of a connection: \<open>n\<close> gains the new node and is trimmed when it overflows.\<close>

definition link_back :: "'b runtime \<Rightarrow> nat \<Rightarrow> nat \<Rightarrow> hnsw \<Rightarrow> nat \<Rightarrow> hnsw vresult" where
  "link_back R idx lc h1 n =
     obind (push_neighbor h1 n lc idx) (\<lambda>h2.
       if hx_m_max h2 < length (hx_neighbors h2 ! n ! lc)
       then obind (hnsw_trim R h2 n lc) (\<lambda>ns. Ok (set_layer h2 n lc ns)) else Ok h2)"

lemma link_back_yields:
  assumes R: "order_ok R" and g: "hnsw_graph h" and idx: "idx < length (hx_ids h)" and n: "n < length (hx_ids h)"
    and ne: "n \<noteq> idx" and lc: "lc < length (hx_neighbors h ! n)" and new: "idx \<notin> set (nbs h n lc)"
  shows "yields (no_nan h) (link_back R idx lc h n)
    (\<lambda>h'. \<exists>ns. h' = set_layer h n lc ns \<and> links_ok h n ns
       \<and> (length (nbs h n lc) < 32 \<longrightarrow> ns = nbs h n lc @ [idx]))"
proof -
  let ?b = "nbs h n lc @ [idx]" let ?h2 = "set_layer h n lc ?b"
  have len: "n < length (hx_neighbors h)" and mx: "hx_m_max h = 32" using g n by (simp_all add: hnsw_graph_def)
  have f2: "same_nodes h ?h2" by (rule same_nodes_set_layer [OF len])
  have push: "push_neighbor h n lc idx = Ok ?h2" using len lc by (simp add: push_neighbor_def nbs_def)
  have b2: "hx_neighbors ?h2 ! n ! lc = ?b" "nbs ?h2 n lc = ?b"
    using len lc by (simp_all add: nbs_set_layer) (simp add: set_layer_def)
  have bok: "distinct ?b" "set ?b \<subseteq> {..<length (hx_ids h)} - {n}"
    using g n new idx ne by (auto simp: hnsw_graph_def links_ok_def)
  have "yields (no_nan ?h2) (hnsw_trim R ?h2 n lc)
      (\<lambda>ns. set ns \<subseteq> set (nbs ?h2 n lc) \<and> distinct ns \<and> length ns \<le> hx_m_max ?h2)"
    using g n bok same_nodes_fields(1-3,13) [OF f2] b2(2)
    by (intro trim_yields [OF R]) (auto simp: hnsw_graph_def)
  then have tr: "yields (no_nan h) (hnsw_trim R ?h2 n lc) (\<lambda>ns. links_ok h n ns)"
    using bok(2) b2(2) same_nodes_fields(8,12) [OF f2] by (auto simp: links_ok_def elim!: yields_mono)
  show ?thesis
  proof (cases "32 < length ?b")
    case True
    have "yields (no_nan h) (obind (hnsw_trim R ?h2 n lc) (\<lambda>ns. Ok (set_layer ?h2 n lc ns)))
      (\<lambda>h'. \<exists>ns. h' = set_layer h n lc ns \<and> links_ok h n ns
       \<and> (length (nbs h n lc) < 32 \<longrightarrow> ns = nbs h n lc @ [idx]))"
      by (rule yields_bind [OF tr]) (use True in \<open>auto simp: set_layer_twice\<close>)
    then show ?thesis using push b2 mx same_nodes_fields(8) [OF f2] True by (simp add: link_back_def)
  next
    case False
    then have "links_ok h n ?b" using bok mx by (simp add: links_ok_def)
    then show ?thesis using push b2 mx same_nodes_fields(8) [OF f2] False by (auto simp: link_back_def)
  qed
qed

text \<open>One edge each way: the new node gains \<open>n\<close>, \<open>n\<close> gains the new node, every other list stays.\<close>

lemma connect_yields:
  assumes R: "order_ok R" and g: "hnsw_graph h" and idx: "idx < length (hx_ids h)" and n: "n < length (hx_ids h)"
    and ne: "n \<noteq> idx" and lc: "lc < length (hx_neighbors h ! idx)"
    and room: "n \<notin> set (nbs h idx lc)" "length (nbs h idx lc) < 32" "idx \<notin> set (nbs h n lc)"
  shows "yields (no_nan h) (hnsw_connect R idx lc h n)
    (\<lambda>h'. hnsw_graph h' \<and> same_nodes h h' \<and> nbs h' idx lc = nbs h idx lc @ [n]
       \<and> (\<forall>m l. (m, l) \<noteq> (idx, lc) \<and> (m, l) \<noteq> (n, lc) \<longrightarrow> nbs h' m l = nbs h m l)
       \<and> (length (nbs h n lc) < 32 \<and> lc < length (hx_neighbors h ! n) \<longrightarrow> nbs h' n lc = nbs h n lc @ [idx]))"
    (is "yields _ _ ?post")
proof -
  define h1 where "h1 = set_layer h idx lc (nbs h idx lc @ [n])"
  have len: "length (hx_neighbors h) = length (hx_ids h)" using g by (simp add: hnsw_graph_def)
  have "links_ok h idx (nbs h idx lc @ [n])"
    using g idx n ne room by (auto simp: hnsw_graph_def links_ok_def)
  note r1 = relink [OF g idx lc this, folded h1_def]
  note f = same_nodes_fields [OF r1(2)]
  have n1: "n < length (hx_neighbors h1)" "hx_neighbors h1 ! n = hx_neighbors h ! n"
    using n ne len f(13) by (simp_all add: h1_def set_layer_def)
  have push: "push_neighbor h idx lc n = Ok h1"
    using idx len lc by (simp add: push_neighbor_def nbs_def h1_def)
  have nb1: "nbs h1 n lc = nbs h n lc" using ne by (simp add: r1(3))
  show ?thesis
  proof (cases "lc < length (hx_neighbors h ! n)")
    case False
    then have "?post h1" using r1(1,2) ne by (simp add: r1(3))
    then show ?thesis using push n1 False by (simp add: hnsw_connect_def)
  next
    case True
    have linked: "yields (no_nan h1) (link_back R idx lc h1 n)
      (\<lambda>h'. \<exists>ns. h' = set_layer h1 n lc ns \<and> links_ok h1 n ns
         \<and> (length (nbs h1 n lc) < 32 \<longrightarrow> ns = nbs h1 n lc @ [idx]))"
      by (intro link_back_yields [OF R r1(1)]) (use idx n ne True room(3) n1 in \<open>simp_all add: nb1 f(1)\<close>)
    have post: "?post h'"
      if h': "h' = set_layer h1 n lc ns" and ns: "links_ok h1 n ns" "length (nbs h1 n lc) < 32 \<longrightarrow> ns = nbs h1 n lc @ [idx]"
      for h' ns
    proof -
      have "n < length (hx_ids h1)" "lc < length (hx_neighbors h1 ! n)" using n n1 True by (simp_all add: f(1))
      note r2 = relink [OF r1(1) this ns(1), folded h']
      have a: "nbs h' idx lc = nbs h idx lc @ [n]" using ne by (simp add: r2(3) r1(3))
      have b: "\<forall>m l. (m, l) \<noteq> (idx, lc) \<and> (m, l) \<noteq> (n, lc) \<longrightarrow> nbs h' m l = nbs h m l"
        by (auto simp: r2(3) r1(3))
      have "nbs h' n lc = ns" by (simp add: r2(3))
      then have c: "length (nbs h n lc) < 32 \<and> lc < length (hx_neighbors h ! n) \<longrightarrow> nbs h' n lc = nbs h n lc @ [idx]"
        using ns(2) nb1 by simp
      show ?thesis by (intro conjI r2(1) same_nodes_trans [OF r1(2) r2(2)] a b c)
    qed
    have "yields (no_nan h) (link_back R idx lc h1 n) ?post"
      unfolding f(12) [symmetric]
    proof (rule yields_mono [OF linked])
      fix h' assume "\<exists>ns. h' = set_layer h1 n lc ns \<and> links_ok h1 n ns
         \<and> (length (nbs h1 n lc) < 32 \<longrightarrow> ns = nbs h1 n lc @ [idx])"
      then show "?post h'" by (elim exE conjE) (rule post)
    qed
    then show ?thesis using push n1 True by (simp add: hnsw_connect_def link_back_def)
  qed
qed

section \<open>One layer of an insertion\<close>

text \<open>After connecting the nodes \<open>pre\<close>: the new node links to exactly these, other lists of old nodes
  changed only where a connection was made, other layers not at all.\<close>

definition connected :: "hnsw \<Rightarrow> nat \<Rightarrow> nat \<Rightarrow> nat list \<Rightarrow> hnsw \<Rightarrow> bool" where
  "connected h idx lc pre h' \<longleftrightarrow>
     hnsw_graph h' \<and> same_nodes h h' \<and> nbs h' idx lc = pre
     \<and> (\<forall>m l. l \<noteq> lc \<longrightarrow> nbs h' m l = nbs h m l)
     \<and> (\<forall>m. m \<notin> set pre \<and> m \<noteq> idx \<longrightarrow> nbs h' m lc = nbs h m lc)
     \<and> (\<forall>m\<in>set pre. length (nbs h m lc) < 32 \<and> lc < length (hx_neighbors h ! m) \<longrightarrow>
          nbs h' m lc = nbs h m lc @ [idx])"

lemma connect_all_yields:
  assumes R: "order_ok R" and g: "hnsw_graph h" and idx: "idx < length (hx_ids h)"
    and lc: "lc < length (hx_neighbors h ! idx)" and empty: "nbs h idx lc = []"
    and sel: "distinct sel" "set sel \<subseteq> {..<idx}" "length sel \<le> 32"
    and old: "\<forall>m<idx. idx \<notin> set (nbs h m lc)"
  shows "yields (no_nan h) (ofold (hnsw_connect R idx lc) h sel) (connected h idx lc sel)"
proof (rule yields_ofold [where I = "connected h idx lc"])
  show "connected h idx lc [] h" using g empty by (simp add: connected_def)
next
  fix pre n suf h1 assume s: "sel = pre @ n # suf" and c: "connected h idx lc pre h1"
  have n: "n < idx" "n \<notin> set pre" using s sel by auto
  have sn: "same_nodes h h1" and g1: "hnsw_graph h1" using c by (simp_all add: connected_def)
  note f = same_nodes_fields [OF sn]
  have len: "idx < length (hx_neighbors h)" using g idx by (simp add: hnsw_graph_def)
  have nn: "nbs h1 n lc = nbs h n lc" using c n by (simp add: connected_def)
  have y: "yields (no_nan h1) (hnsw_connect R idx lc h1 n)
    (\<lambda>h'. hnsw_graph h' \<and> same_nodes h1 h' \<and> nbs h' idx lc = nbs h1 idx lc @ [n]
       \<and> (\<forall>m l. (m, l) \<noteq> (idx, lc) \<and> (m, l) \<noteq> (n, lc) \<longrightarrow> nbs h' m l = nbs h1 m l)
       \<and> (length (nbs h1 n lc) < 32 \<and> lc < length (hx_neighbors h1 ! n) \<longrightarrow> nbs h' n lc = nbs h1 n lc @ [idx]))"
  proof (rule connect_yields [OF R g1])
    show "n \<notin> set (nbs h1 idx lc)" "length (nbs h1 idx lc) < 32" using c n sel s by (auto simp: connected_def)
    show "idx \<notin> set (nbs h1 n lc)" using old n by (simp add: nn)
  qed (use n idx lc in \<open>simp_all add: f(1) f(14) [OF len]\<close>)
  have ln: "length (hx_neighbors h1 ! n) = length (hx_neighbors h ! n)" using n len by (intro f(14)) simp
  have step: "connected h idx lc (pre @ [n]) h'"
    if p: "hnsw_graph h' \<and> same_nodes h1 h' \<and> nbs h' idx lc = nbs h1 idx lc @ [n]
       \<and> (\<forall>m l. (m, l) \<noteq> (idx, lc) \<and> (m, l) \<noteq> (n, lc) \<longrightarrow> nbs h' m l = nbs h1 m l)
       \<and> (length (nbs h1 n lc) < 32 \<and> lc < length (hx_neighbors h1 ! n) \<longrightarrow> nbs h' n lc = nbs h1 n lc @ [idx])" for h'
  proof -
    have "same_nodes h h'" using p same_nodes_trans [OF sn] by blast
    moreover have "nbs h' m lc = nbs h1 m lc" if "m \<in> set pre" for m
    proof -
      have "m \<noteq> idx" "m \<noteq> n" using that n s sel(2) by auto
      then show ?thesis using p by simp
    qed
    ultimately show ?thesis using p c n unfolding connected_def nn ln by auto
  qed
  show "yields (no_nan h) (hnsw_connect R idx lc h1 n) (connected h idx lc (pre @ [n]))"
    unfolding f(12) [symmetric]
    by (rule yields_mono [OF y]) (rule step)
qed

text \<open>The state between layers: below the layers already done, links are those of the start, and stay
  among the old nodes.\<close>

definition layers_left :: "hnsw \<Rightarrow> nat \<Rightarrow> nat \<Rightarrow> hnsw \<times> nat \<Rightarrow> bool" where
  "layers_left h1 idx left st \<longleftrightarrow>
     hnsw_graph (fst st) \<and> same_nodes h1 (fst st) \<and> snd st < idx
     \<and> (\<forall>l<left. \<forall>m. nbs (fst st) m l = nbs h1 m l)"

text \<open>A state right after the new node was appended, before any link to it exists.\<close>

definition fresh_node :: "hnsw \<Rightarrow> nat \<Rightarrow> bool" where
  "fresh_node h1 idx \<longleftrightarrow>
     hnsw_graph h1 \<and> length (hx_ids h1) = idx + 1 \<and> (\<forall>l. nbs h1 idx l = [])
     \<and> (\<forall>m<idx. \<forall>l. set (nbs h1 m l) \<subseteq> {..<idx})"

lemma fresh_closed:
  "fresh_node h1 idx \<Longrightarrow> layers_left h1 idx left st \<Longrightarrow> l < left \<Longrightarrow> closed_at (fst st) l {..<idx}"
  using same_nodes_fields(1) by (auto simp: fresh_node_def layers_left_def closed_at_def)

text \<open>The candidates of a layer search and the selection among them, as nodes.\<close>

lemma select_yields:
  assumes R: "order_ok R" and g: "hnsw_graph h" and S: "closed_at h l S" "ep \<in> S"
    and idx: "idx < length (hx_ids h)" and k: "k \<le> 32"
  shows "yields (no_nan h) (obind (ef_search R h (node_slice h idx) ep 200 l) (\<lambda>cs. closest_n R cs k))
    (\<lambda>sel. distinct sel \<and> set sel \<subseteq> S \<and> length sel \<le> k
       \<and> (k = 32 \<and> card S \<le> 32 \<longrightarrow> ep \<in> set sel \<and> (\<forall>x\<in>set sel. set (nbs h x l) \<subseteq> set sel)))"
proof (rule yields_bind [OF ef_search_yields [OF R g S(1) _ S(2)]])
  fix found assume "ef_result R h (node_slice h idx) 200 l S ep (rev found)"
  from ef_result_nodes [OF R this] obtain ns where ns: "near_nodes h (node_slice h idx) 200 l S ep ns"
    and found: "found = map (\<lambda>n. (n, node_dist h (node_slice h idx) n)) ns" by blast
  have len: "card S \<le> 32 \<Longrightarrow> length ns \<le> 32"
    using ns card_mono [OF closed_finite [OF S(1)], of "set ns"] by (simp add: near_nodes_def distinct_card)
  have "no_nan h \<Longrightarrow> \<forall>n\<in>set ns. \<not> is_nan (node_dist h (node_slice h idx) n)"
    using ns idx closed_lt [OF S(1)] by (auto simp: no_nan_def node_dist_def near_nodes_def)
  then have "yields (no_nan h) (sort_by_dist (rt_sort_nodes R) (map (\<lambda>n. (n, node_dist h (node_slice h idx) n)) ns) :: candidate list vresult)
    (\<lambda>ys. set (map fst (take k ys)) \<subseteq> set ns \<and> distinct (map fst (take k ys))
       \<and> length (map fst (take k ys)) \<le> k \<and> (length ns \<le> k \<longrightarrow> set (map fst (take k ys)) = set ns))"
    using ns by (intro sort_nodes_yields [OF R]) (auto simp: near_nodes_def)
  then show "yields (no_nan h) (closest_n R found k) (\<lambda>sel. distinct sel \<and> set sel \<subseteq> S \<and> length sel \<le> k
       \<and> (k = 32 \<and> card S \<le> 32 \<longrightarrow> ep \<in> set sel \<and> (\<forall>x\<in>set sel. set (nbs h x l) \<subseteq> set sel)))"
    unfolding closest_n_def found using ns len
    by (elim yields_bind) (auto simp: near_nodes_def simp del: set_map, blast)
qed simp

definition complete0 :: "hnsw \<Rightarrow> nat \<Rightarrow> bool" where
  "complete0 h n \<longleftrightarrow> (\<forall>m<n. set (nbs h m 0) = {..<n} - {m})"

text \<open>In a complete bottom layer a closed set with a member is everything.\<close>

lemma complete0_closed:
  "complete0 h n \<Longrightarrow> e \<in> T \<Longrightarrow> T \<subseteq> {..<n} \<Longrightarrow> \<forall>x\<in>T. set (nbs h x 0) \<subseteq> T \<Longrightarrow> T = {..<n}"
  unfolding complete0_def by blast

lemma connected_complete0:
  assumes "fresh_node h1 idx" "complete0 h1 idx" "idx \<le> 32" "hnsw_graph h"
    and "\<forall>m. nbs h m 0 = nbs h1 m 0" "connected h idx 0 sel h'" "set sel = {..<idx}"
    and "length (hx_ids h) = idx + 1"
  shows "complete0 h' (idx + 1)"
  unfolding complete0_def
proof (intro allI impI)
  fix m assume "m < idx + 1"
  show "set (nbs h' m 0) = {..<idx + 1} - {m}"
  proof (cases "m = idx")
    case True
    have "nbs h' idx 0 = sel" using assms(6) unfolding connected_def by blast
    moreover have "{..<idx + 1} - {idx} = {..<idx}" by auto
    ultimately show ?thesis using True assms(7) by simp
  next
    case False
    then have m: "m < idx" using \<open>m < idx + 1\<close> by simp
    have "links_ok h m (nbs h m 0)" using assms(8) m by (intro graph_links [OF assms(4)]) simp
    then have d: "distinct (nbs h m 0)" "set (nbs h m 0) = {..<idx} - {m}"
      using assms(2,5) m by (auto simp: complete0_def links_ok_def)
    then have "length (nbs h m 0) = card ({..<idx} - {m})" using distinct_card [OF d(1)] by simp
    then have l1: "length (nbs h m 0) < 32" using m assms(3) by simp
    have l2: "0 < length (hx_neighbors h ! m)" using assms(8) m by (simp add: graph_sizes(3) [OF assms(4)])
    have c: "\<forall>m\<in>set sel. length (nbs h m 0) < 32 \<and> 0 < length (hx_neighbors h ! m) \<longrightarrow>
        nbs h' m 0 = nbs h m 0 @ [idx]"
      using assms(6) unfolding connected_def by (elim conjE)
    have "m \<in> set sel" using assms(7) m by simp
    then have "nbs h' m 0 = nbs h m 0 @ [idx]" using c [rule_format] l1 l2 by simp
    then have "set (nbs h' m 0) = insert idx ({..<idx} - {m})" using d(2) by simp
    also have "\<dots> = {..<idx + 1} - {m}" using m by auto
    finally show ?thesis .
  qed
qed

lemma insert_layer_yields:
  assumes R: "order_ok R" and fr: "fresh_node h1 idx" and inv: "layers_left h1 idx (Suc lc) st"
    and lc: "lc < length (hx_neighbors h1 ! idx)"
  shows "yields (no_nan h1) (insert_layer R idx (node_slice h1 idx) st lc)
    (\<lambda>st'. layers_left h1 idx lc st'
       \<and> (lc = 0 \<and> idx \<le> 32 \<and> complete0 h1 idx \<longrightarrow> complete0 (fst st') (idx + 1)))"
proof -
  obtain h ep where st: "st = (h, ep)" by (cases st)
  have g: "hnsw_graph h" and sn: "same_nodes h1 h" and ep: "ep \<in> {..<idx}"
    and nb: "\<And>l m. l < Suc lc \<Longrightarrow> nbs h m l = nbs h1 m l"
    using inv by (simp_all add: st layers_left_def)
  note f = same_nodes_fields [OF sn]
  have mx: "hx_m_max h = 32" "hx_m h = 16" "hx_ef_construction h = 200" using g by (simp_all add: hnsw_graph_def)
  have cl: "closed_at h lc {..<idx}" using fresh_closed [OF fr inv, of lc] by (simp add: st)
  have ids: "length (hx_ids h) = idx + 1" "idx < length (hx_ids h)" and empty: "nbs h idx lc = []"
    using fr nb [of lc] by (auto simp: fresh_node_def f(1))
  have old: "\<forall>m<idx. idx \<notin> set (nbs h m lc)"
    using fr nb [of lc] by (fastforce simp: fresh_node_def)
  have lc': "lc < length (hx_neighbors h ! idx)"
    using lc f(14) [of idx] g ids(2) by (simp add: f(13) [symmetric] hnsw_graph_def)
  let ?k = "if lc = 0 then 32 else 16 :: nat"
  let ?sel = "obind (ef_search R h (node_slice h idx) ep 200 lc) (\<lambda>cs. closest_n R cs ?k)"
  let ?P = "\<lambda>sel. distinct sel \<and> set sel \<subseteq> {..<idx} \<and> length sel \<le> ?k
       \<and> (?k = 32 \<and> card {..<idx} \<le> 32 \<longrightarrow> ep \<in> set sel \<and> (\<forall>x\<in>set sel. set (nbs h x lc) \<subseteq> set sel))"
  have sel: "yields (no_nan h) ?sel ?P" by (rule select_yields [OF R g cl ep ids(2)]) simp
  have post: "layers_left h1 idx lc (h', ep')
       \<and> (lc = 0 \<and> idx \<le> 32 \<and> complete0 h1 idx \<longrightarrow> complete0 h' (idx + 1))"
    if p: "?P s" and c: "connected h idx lc s h'" and e: "ep' < idx" for s h' ep'
  proof -
    have "complete0 h' (idx + 1)" if z: "lc = 0" "idx \<le> 32" "complete0 h1 idx"
    proof (rule connected_complete0 [OF fr z(3,2) g])
      show "set s = {..<idx}" using p z nb by (intro complete0_closed [OF z(3), of ep]) auto
    qed (use c z nb ids in auto)
    then show ?thesis using c e nb same_nodes_trans [OF sn] by (auto simp: layers_left_def connected_def)
  qed
  have "yields (no_nan h) (obind ?sel (\<lambda>s. obind (ofold (hnsw_connect R idx lc) h s)
      (\<lambda>h'. Ok (h', case s of [] \<Rightarrow> ep | x # _ \<Rightarrow> x))))
    (\<lambda>st'. layers_left h1 idx lc st'
       \<and> (lc = 0 \<and> idx \<le> 32 \<and> complete0 h1 idx \<longrightarrow> complete0 (fst st') (idx + 1)))"
  proof (rule yields_bind [OF sel])
    fix s assume p: "?P s"
    have "yields (no_nan h) (ofold (hnsw_connect R idx lc) h s) (connected h idx lc s)"
      using p by (intro connect_all_yields [OF R g ids(2) lc' empty _ _ _ old]) (auto split: if_splits)
    moreover have "(case s of [] \<Rightarrow> ep | x # _ \<Rightarrow> x) < idx" using p ep by (cases s) auto
    ultimately show "yields (no_nan h) (obind (ofold (hnsw_connect R idx lc) h s) (\<lambda>h'. Ok (h', case s of [] \<Rightarrow> ep | x # _ \<Rightarrow> x)))
      (\<lambda>st'. layers_left h1 idx lc st' \<and> (lc = 0 \<and> idx \<le> 32 \<and> complete0 h1 idx \<longrightarrow> complete0 (fst st') (idx + 1)))"
      by (elim yields_bind) (simp only: yields_Ok fst_conv, rule post [OF p])
  qed
  then show ?thesis by (simp add: insert_layer_def st mx f(11,12) obind_assoc if_distrib [of "closest_n R _"] cong: if_cong)
qed

section \<open>The whole insertion\<close>

text \<open>The stored entries in order of insertion.\<close>

definition hnsw_entries :: "hnsw \<Rightarrow> (u64 \<times> f32 list) list" where
  "hnsw_entries h = map (\<lambda>n. (hx_ids h ! n, node_slice h n)) [0..<length (hx_ids h)]"

definition dists_ok :: "metric \<Rightarrow> f32 list list \<Rightarrow> bool" where
  "dists_ok m vs \<longleftrightarrow> (\<forall>a\<in>set vs. \<forall>b\<in>set vs. \<not> is_nan (compute m a b))"

lemma no_nan_entries: "no_nan h \<longleftrightarrow> dists_ok (hx_metric h) (map snd (hnsw_entries h))"
  by (auto simp: no_nan_def dists_ok_def hnsw_entries_def)

lemma hnsw_entries_length [simp]: "length (hnsw_entries h) = length (hx_ids h)"
  by (simp add: hnsw_entries_def)

lemma hnsw_snapshot_entries: "hnsw_graph h \<Longrightarrow> hnsw_snapshot h = Ok (hnsw_entries h)"
proof -
  assume g: "hnsw_graph h"
  have "hnsw_snapshot h = Ok (map (\<lambda>(n, i). (i, node_slice h n)) (enumerate 0 (hx_ids h)))"
    unfolding hnsw_snapshot_def
    by (rule omap_total) (auto simp: in_set_enumerate_eq node_vec_graph [OF g])
  also have "map (\<lambda>(n, i). (i, node_slice h n)) (enumerate 0 (hx_ids h)) = hnsw_entries h"
    by (rule nth_equalityI) (auto simp: nth_enumerate_eq hnsw_entries_def)
  finally show ?thesis .
qed

lemma append_node_nbs:
  assumes "hnsw_graph h"
  shows "n < length (hx_ids h) \<Longrightarrow> nbs (append_node level i v h) n l = nbs h n l"
    and "nbs (append_node level i v h) (length (hx_ids h)) l = []"
  using graph_sizes(2) [OF assms] by (auto simp: nbs_def append_node_def nth_append simp del: replicate_Suc)

lemma append_node_fresh:
  assumes g: "hnsw_graph h" and v: "length v = hx_dims h"
  shows "fresh_node (append_node level i v h) (length (hx_ids h))"
proof -
  let ?h1 = "append_node level i v h" and ?N = "length (hx_ids h)"
  have old: "links_ok h n (nbs h n l)" if "n < ?N" for n l using graph_links [OF g that] .
  have ids: "hx_ids ?h1 = hx_ids h @ [i]" "hx_m_max ?h1 = hx_m_max h" by (simp_all add: append_node_def)
  have "links_ok ?h1 n (nbs ?h1 n l)" if "n < ?N + 1" for n l
  proof (cases "n < ?N")
    case True
    with old [OF True, of l] show ?thesis
      by (auto simp: append_node_nbs [OF g] links_ok_def ids)
  next
    case False
    then have "n = ?N" using that by simp
    then show ?thesis by (simp add: append_node_nbs [OF g] links_ok_def)
  qed
  then have "hnsw_graph ?h1"
    using g v by (auto simp: hnsw_graph_def append_node_def nth_append less_Suc_eq)
  then show ?thesis
    using old by (auto simp: fresh_node_def append_node_nbs [OF g] links_ok_def ids)
qed

lemma append_node_entries:
  assumes g: "hnsw_graph h" and v: "length v = hx_dims h"
  shows "hnsw_entries (append_node level i v h) = hnsw_entries h @ [(i, v)]"
proof -
  let ?N = "length (hx_ids h)" and ?d = "hx_dims h"
  have len: "length (hx_vectors h) = ?N * ?d" by (rule graph_sizes [OF g])
  have "node_slice (append_node level i v h) n = node_slice h n" if "n < ?N" for n
    using node_bound [OF that, of ?d] len by (simp add: node_slice_def append_node_def)
  moreover have "node_slice (append_node level i v h) ?N = v"
    using len v by (simp add: node_slice_def append_node_def)
  ultimately show ?thesis
    by (simp add: hnsw_entries_def) (auto simp: append_node_def nth_append)
qed

lemma hnsw_entries_same: "same_nodes h h' \<Longrightarrow> hnsw_entries h' = hnsw_entries h"
  by (simp add: hnsw_entries_def same_nodes_fields(1,11))

text \<open>The entry point is no part of the graph.\<close>

lemma nbs_entry [simp]: "nbs (h\<lparr> hx_entry := a, hx_max_level := b \<rparr>) = nbs h"
  by (simp add: nbs_def fun_eq_iff)

lemma graph_entry [simp]: "hnsw_graph (h\<lparr> hx_entry := a, hx_max_level := b \<rparr>) = hnsw_graph h"
  unfolding hnsw_graph_def nbs_entry by (simp add: links_ok_def)

text \<open>What an insertion guarantees of the next state.\<close>

definition inserted :: "hnsw \<Rightarrow> u64 \<Rightarrow> f32 list \<Rightarrow> hnsw \<Rightarrow> bool" where
  "inserted h i v h' \<longleftrightarrow>
     hnsw_wf h' \<and> hnsw_entries h' = hnsw_entries h @ [(i, v)]
     \<and> hx_metric h' = hx_metric h \<and> hx_dims h' = hx_dims h \<and> hx_ml h' = hx_ml h
     \<and> (length (hx_ids h) \<le> 32 \<and> complete0 h (length (hx_ids h)) \<longrightarrow>
          complete0 h' (length (hx_ids h) + 1))"

lemma insert_layers_yields:
  assumes R: "order_ok R" and fr: "fresh_node h1 idx" and ep: "ep < idx"
    and L: "L < length (hx_neighbors h1 ! idx)"
  shows "yields (no_nan h1) (ofold (insert_layer R idx (node_slice h1 idx)) (h1, ep) (rev [0..<L + 1]))
    (\<lambda>st. layers_left h1 idx 0 st \<and> (idx \<le> 32 \<and> complete0 h1 idx \<longrightarrow> complete0 (fst st) (idx + 1)))"
proof -
  let ?I = "\<lambda>pre st. layers_left h1 idx (L + 1 - length pre) st
      \<and> (length pre = L + 1 \<and> idx \<le> 32 \<and> complete0 h1 idx \<longrightarrow> complete0 (fst st) (idx + 1))"
  have "yields (no_nan h1) (ofold (insert_layer R idx (node_slice h1 idx)) (h1, ep) (rev [0..<L + 1])) (?I (rev [0..<L + 1]))"
  proof (rule yields_ofold [where I = ?I])
    show "?I [] (h1, ep)" using fr ep by (simp add: layers_left_def fresh_node_def)
  next
    fix pre x suf st assume s: "rev [0..<L + 1] = pre @ x # suf" and i: "?I pre st"
    have len: "length pre < length [0..<L + 1]" using arg_cong [OF s, of length] by simp
    have "x = rev [0..<L + 1] ! length pre" by (simp only: s nth_append_length)
    also have "\<dots> = [0..<L + 1] ! (length [0..<L + 1] - Suc (length pre))" by (rule rev_nth [OF len])
    also have "\<dots> = L - length pre" using len by (simp del: upt_Suc)
    finally have x: "x = L - length pre" "length pre \<le> L" using len by simp_all
    then have "layers_left h1 idx (Suc x) st" using i by (simp add: Suc_diff_le)
    moreover have "x < length (hx_neighbors h1 ! idx)" using L x by simp
    ultimately show "yields (no_nan h1) (insert_layer R idx (node_slice h1 idx) st x) (?I (pre @ [x]))"
      by (intro yields_mono [OF insert_layer_yields [OF R fr]]) (use x in auto)
  qed
  then show ?thesis by (rule yields_mono) simp
qed

text \<open>The node that an insertion appends, and the invariant once it is linked, for the first node and for
  every later one.\<close>

lemma appended:
  assumes "hnsw_graph h" "length v = hx_dims h"
  shows "fresh_node (append_node lv i v h) (length (hx_ids h))" "hnsw_graph (append_node lv i v h)"
    "hnsw_entries (append_node lv i v h) = hnsw_entries h @ [(i, v)]"
    "hx_metric (append_node lv i v h) = hx_metric h" "hx_dims (append_node lv i v h) = hx_dims h"
    "hx_entry (append_node lv i v h) = hx_entry h" "hx_max_level (append_node lv i v h) = hx_max_level h"
    "length (hx_ids (append_node lv i v h)) = length (hx_ids h) + 1" "hx_ml (append_node lv i v h) = hx_ml h"
    "hx_levels (append_node lv i v h) ! length (hx_ids h) = lv"
    "\<And>e. e < length (hx_ids h) \<Longrightarrow> hx_levels (append_node lv i v h) ! e = hx_levels h ! e"
    "no_nan (append_node lv i v h) = dists_ok (hx_metric h) (map snd (hnsw_entries h) @ [v])"
    "complete0 (append_node lv i v h) (length (hx_ids h)) = complete0 h (length (hx_ids h))"
proof -
  note fr = append_node_fresh [OF assms, of lv i] and en = append_node_entries [OF assms, of lv i]
  show "fresh_node (append_node lv i v h) (length (hx_ids h))" by (rule fr)
  then show "hnsw_graph (append_node lv i v h)" by (simp add: fresh_node_def)
  show "hnsw_entries (append_node lv i v h) = hnsw_entries h @ [(i, v)]" by (rule en)
  show m: "hx_metric (append_node lv i v h) = hx_metric h" "hx_dims (append_node lv i v h) = hx_dims h"
    "hx_entry (append_node lv i v h) = hx_entry h" "hx_max_level (append_node lv i v h) = hx_max_level h"
    "length (hx_ids (append_node lv i v h)) = length (hx_ids h) + 1" "hx_ml (append_node lv i v h) = hx_ml h"
    "hx_levels (append_node lv i v h) ! length (hx_ids h) = lv"
    "\<And>e. e < length (hx_ids h) \<Longrightarrow> hx_levels (append_node lv i v h) ! e = hx_levels h ! e"
    using graph_sizes [OF assms(1)] assms(1) by (simp_all add: append_node_def nth_append hnsw_graph_def)
  show "no_nan (append_node lv i v h) = dists_ok (hx_metric h) (map snd (hnsw_entries h) @ [v])"
    by (simp add: no_nan_entries en m)
  show "complete0 (append_node lv i v h) (length (hx_ids h)) = complete0 h (length (hx_ids h))"
    by (simp add: complete0_def append_node_nbs [OF assms(1)])
qed

lemma first_inserted:
  assumes wf: "hnsw_wf h" and v: "length v = hx_dims h" and none: "hx_entry h = None"
  shows "inserted h i v ((append_node lv i v h)\<lparr> hx_entry := Some (length (hx_ids h)), hx_max_level := lv \<rparr>)"
proof -
  have g: "hnsw_graph h" and n: "length (hx_ids h) = 0" using wf none by (simp_all add: hnsw_wf_def)
  note ap = appended [where lv = lv and i = i, OF g v]
  let ?h = "(append_node lv i v h)\<lparr> hx_entry := Some (length (hx_ids h)), hx_max_level := lv \<rparr>"
  have "complete0 ?h 1" using ap(1) n by (auto simp: complete0_def fresh_node_def)
  moreover have "hnsw_entries ?h = hnsw_entries h @ [(i, v)]" using ap(3) by (simp add: hnsw_entries_def node_slice_def)
  moreover have "hnsw_graph ?h" using ap(2) by simp
  ultimately show ?thesis using ap(4-11) n by (simp add: inserted_def hnsw_wf_def)
qed

lemma linked_inserted:
  assumes wf: "hnsw_wf h" and v: "length v = hx_dims h" and some: "hx_entry h = Some e"
    and st: "layers_left (append_node lv i v h) (length (hx_ids h)) 0 st"
      "length (hx_ids h) \<le> 32 \<and> complete0 (append_node lv i v h) (length (hx_ids h)) \<longrightarrow> complete0 (fst st) (length (hx_ids h) + 1)"
  shows "inserted h i v (if hx_max_level (fst st) < lv
    then (fst st)\<lparr> hx_entry := Some (length (hx_ids h)), hx_max_level := lv \<rparr> else fst st)" (is "inserted h i v ?fin")
proof -
  have g: "hnsw_graph h" and e: "e < length (hx_ids h)" "hx_levels h ! e = hx_max_level h"
    using wf some by (simp_all add: hnsw_wf_def)
  note ap = appended [where lv = lv and i = i, OF g v]
  have sn: "same_nodes (append_node lv i v h) (fst st)" and gs: "hnsw_graph (fst st)" using st(1) by (simp_all add: layers_left_def)
  note f = same_nodes_fields [OF sn]
  have "hnsw_graph ((fst st)\<lparr> hx_entry := Some (length (hx_ids h)), hx_max_level := lv \<rparr>)" using gs by simp
  then have "hnsw_wf ?fin" using gs e f ap(4-11) some by (auto simp: hnsw_wf_def)
  moreover have "hnsw_entries ?fin = hnsw_entries h @ [(i, v)]"
    using hnsw_entries_same [OF sn] ap(3) by (simp add: hnsw_entries_def node_slice_def)
  moreover have "complete0 ?fin = complete0 (fst st)" by (simp add: complete0_def nbs_def fun_eq_iff)
  ultimately show ?thesis using st(2) f ap by (simp add: inserted_def)
qed

lemma hnsw_insert_yields:
  assumes R: "order_ok R" and wf: "hnsw_wf h" and v: "length v = hx_dims h"
  shows "yields (dists_ok (hx_metric h) (map snd (hnsw_entries h) @ [v]) \<and> random_level R h r + 1 < 2 ^ 64)
    (hnsw_insert R r i v h) (inserted h i v)"
proof (cases "random_level R h r + 1 < 2 ^ 64")
  case False
  then show ?thesis by (simp add: hnsw_insert_def Let_def)
next
  case level: True
  have g: "hnsw_graph h" using wf by (simp add: hnsw_wf_def)
  let ?lv = "random_level R h r" and ?N = "length (hx_ids h)"
  define h1 where "h1 = append_node ?lv i v h"
  note ap = appended [where lv = ?lv and i = i, OF g v, folded h1_def]
  show ?thesis
  proof (cases "hx_entry h")
    case None
    then show ?thesis using level first_inserted [OF wf v None, of i ?lv]
      by (simp add: hnsw_insert_def Let_def h1_def [symmetric] ap(4-9))
  next
    case (Some e)
    let ?q = "node_slice h1 ?N"
    have e: "e < ?N" using wf Some by (simp add: hnsw_wf_def)
    have vec: "node_vec h1 ?N = Ok ?q" using ap(8) by (simp add: node_vec_graph [OF ap(2)])
    have cl: "closed_at h1 l {..<?N}" for l using ap(1) by (auto simp: fresh_node_def closed_at_def)
    have L: "min ?lv (hx_max_level h) < length (hx_neighbors h1 ! ?N)"
      using ap(8,10) by (simp add: graph_sizes(3) [OF ap(2)])
    let ?fin = "\<lambda>st. if hx_max_level (fst st) < ?lv then (fst st)\<lparr> hx_entry := Some ?N, hx_max_level := ?lv \<rparr> else fst st"
    have "yields (no_nan h1) (obind (ofold (\<lambda>ep lc. greedy_down h1 ?q ep lc) e (rev [?lv + 1 ..< hx_max_level h1 + 1])) (\<lambda>ep.
        obind (ofold (insert_layer R ?N ?q) (h1, ep) (rev [0 ..< min ?lv (hx_max_level h1) + 1])) (\<lambda>st. Ok (?fin st))))
      (inserted h i v)"
    proof (rule yields_bind [OF descent_yields [OF ap(2) _ cl]])
      fix ep assume ep: "ep \<in> {..<?N}"
      have "yields (no_nan h1) (ofold (insert_layer R ?N ?q) (h1, ep) (rev [0 ..< min ?lv (hx_max_level h1) + 1]))
        (\<lambda>st. layers_left h1 ?N 0 st \<and> (?N \<le> 32 \<and> complete0 h1 ?N \<longrightarrow> complete0 (fst st) (?N + 1)))"
        using ep L ap(7) by (intro insert_layers_yields [OF R ap(1)]) simp_all
      then show "yields (no_nan h1) (obind (ofold (insert_layer R ?N ?q) (h1, ep) (rev [0 ..< min ?lv (hx_max_level h1) + 1]))
          (\<lambda>st. Ok (?fin st))) (inserted h i v)"
        by (rule yields_bind) (simp only: yields_Ok, rule linked_inserted [where lv = ?lv and i = i, OF wf v Some, folded h1_def], simp_all)
    qed (use e in simp)
    then have "yields (no_nan h1) (hnsw_insert R r i v h) (inserted h i v)"
      using level vec by (simp add: hnsw_insert_def Let_def h1_def [symmetric] ap(6) Some)
    then show ?thesis using ap(12) level by simp
  qed
qed

section \<open>Building an index\<close>

definition hnsw_build ::
  "'b runtime \<Rightarrow> nat \<Rightarrow> metric \<Rightarrow> (f32 \<times> u64 \<times> f32 list) list \<Rightarrow> hnsw vresult" where
  "hnsw_build R dims m es = ofold (\<lambda>h (r, i, v). hnsw_insert R r i v h) (hnsw_new R dims m) es"

lemma hnsw_new_wf: "hnsw_wf (hnsw_new R dims m)"
  by (simp add: hnsw_wf_def hnsw_graph_def hnsw_new_def)

lemma hnsw_new_fields [simp]:
  "hx_ids (hnsw_new R dims m) = []" "hx_dims (hnsw_new R dims m) = dims"
  "hx_metric (hnsw_new R dims m) = m" "hnsw_entries (hnsw_new R dims m) = []"
  by (simp_all add: hnsw_new_def hnsw_entries_def)

text \<open>Building from a list keeps the invariant, stores the entries in order, and keeps the bottom layer
  complete up to 33 of them.\<close>

definition built :: "'b runtime \<Rightarrow> nat \<Rightarrow> metric \<Rightarrow> (f32 \<times> u64 \<times> f32 list) list \<Rightarrow> hnsw \<Rightarrow> bool" where
  "built R dims m es h \<longleftrightarrow> hnsw_wf h \<and> hnsw_entries h = map snd es \<and> hx_metric h = m \<and> hx_dims h = dims
     \<and> hx_ml h = hx_ml (hnsw_new R dims m) \<and> (length es \<le> 33 \<longrightarrow> complete0 h (length es))"

definition inserts_ok :: "'b runtime \<Rightarrow> nat \<Rightarrow> metric \<Rightarrow> (f32 \<times> u64 \<times> f32 list) list \<Rightarrow> bool" where
  "inserts_ok R dims m es \<longleftrightarrow>
     (\<forall>(r, i, v)\<in>set es. length v = dims \<and> random_level R (hnsw_new R dims m) r + 1 < 2 ^ 64)
     \<and> dists_ok m (map (\<lambda>(r, i, v). v) es)"

lemma dists_ok_subset: "dists_ok m vs \<Longrightarrow> set us \<subseteq> set vs \<Longrightarrow> dists_ok m us"
  by (auto simp: dists_ok_def)

lemma hnsw_build_yields:
  assumes R: "order_ok R" and ok: "inserts_ok R dims m es"
  shows "yields True (hnsw_build R dims m es) (built R dims m es)"
  unfolding hnsw_build_def
proof (rule yields_ofold [where I = "built R dims m"])
  show "built R dims m [] (hnsw_new R dims m)"
    using hnsw_new_wf by (simp add: built_def complete0_def)
next
  fix pre x suf h assume s: "es = pre @ x # suf" and b: "built R dims m pre h"
  obtain r i v where x: "x = (r, i, v)" by (rule prod_cases3)
  have v: "length v = dims" and "random_level R (hnsw_new R dims m) r + 1 < 2 ^ 64"
    using ok by (auto simp: inserts_ok_def s x)
  then have lv: "random_level R h r + 1 < 2 ^ 64" using b by (simp add: built_def random_level_def)
  have "map snd (hnsw_entries h) @ [v] = map (\<lambda>(r, i, v). v) (pre @ [x])"
    using b by (auto simp: built_def x)
  then have d: "dists_ok (hx_metric h) (map snd (hnsw_entries h) @ [v])"
    using ok b by (auto simp: inserts_ok_def built_def s elim!: dists_ok_subset)
  have n: "length (hx_ids h) = length pre"
    using b by (metis built_def hnsw_entries_length length_map)
  have "yields (dists_ok (hx_metric h) (map snd (hnsw_entries h) @ [v]) \<and> random_level R h r + 1 < 2 ^ 64)
    (hnsw_insert R r i v h) (inserted h i v)"
    using b v by (intro hnsw_insert_yields [OF R]) (simp_all add: built_def)
  then have "yields True (hnsw_insert R r i v h) (inserted h i v)" using d lv by simp
  then show "yields True ((\<lambda>(r, i, v). hnsw_insert R r i v h) x) (built R dims m (pre @ [x]))"
    unfolding x prod.case by (rule yields_mono) (use b n in \<open>auto simp: inserted_def built_def\<close>)
qed

section \<open>Exact search\<close>

text \<open>The hits of a list of entries that pass the filter.\<close>

definition entry_hits :: "'b runtime \<Rightarrow> metric \<Rightarrow> f32 list \<Rightarrow> 'b option \<Rightarrow> (u64 \<times> f32 list) list \<Rightarrow> (u64 \<times> f32) list" where
  "entry_hits R m q bm es = keep_hits R bm (map (\<lambda>(i, v). (i, compute m q v)) es)"

text \<open>\<open>hits\<close> are the \<open>k\<close> nearest of \<open>all\<close>, in order.\<close>

definition nearest :: "nat \<Rightarrow> ('a \<times> f32) list \<Rightarrow> ('a \<times> f32) list \<Rightarrow> bool" where
  "nearest k all hits \<longleftrightarrow>
     sorted (map (\<lambda>hit. of_key (snd hit)) hits) \<and> length hits = min k (length all)
     \<and> (\<exists>rest. mset (hits @ rest) = mset all
          \<and> (\<forall>a\<in>set hits. \<forall>b\<in>set rest. of_key (snd a) \<le> of_key (snd b)))"

lemma nearest_take:
  assumes "mset ys = mset all" "sorted (map (\<lambda>hit. of_key (snd hit)) ys)"
  shows "nearest k all (take k ys)"
  unfolding nearest_def
proof (intro conjI exI)
  show "sorted (map (\<lambda>hit. of_key (snd hit)) (take k ys))" by (rule take_sorted_key) fact
  show "length (take k ys) = min k (length all)" using mset_eq_len [OF assms(1)] by (simp add: min.commute)
  show "mset (take k ys @ drop k ys) = mset all" using assms(1) by simp
  show "\<forall>a\<in>set (take k ys). \<forall>b\<in>set (drop k ys). of_key (snd a) \<le> of_key (snd b)"
    using sorted_take_le_drop [OF assms(2)] by blast
qed

lemma keep_hits_mset: "mset xs = mset ys \<Longrightarrow> mset (keep_hits R bm xs) = mset (keep_hits R bm ys)"
  by (simp add: keep_hits_filter)

text \<open>A well-formed index whose bottom layer is complete, of at most 100 nodes, is searched exactly.\<close>

lemma complete_search_exact:
  assumes R: "order_ok R" and wf: "hnsw_wf h" and n: "length (hx_ids h) \<le> 100"
    and c: "complete0 h (length (hx_ids h))"
  shows "\<exists>hits. hnsw_search_filtered R h q k bm = Ok hits
     \<and> nearest k (entry_hits R (hx_metric h) q bm (hnsw_entries h)) hits"
proof (cases "hx_entry h")
  case None
  then have "hnsw_entries h = []" using wf by (simp add: hnsw_wf_def hnsw_entries_def)
  then show ?thesis using None
    by (simp add: hnsw_search_filtered_def nearest_def entry_hits_def keep_hits_filter)
next
  case (Some e)
  let ?N = "length (hx_ids h)"
  obtain best ns where ns: "near_nodes h q 100 0 {..<?N} best ns"
    and hits: "hnsw_search_filtered R h q k bm = Ok (take k (keep_hits R bm (map (node_hit h q) ns)))"
    using yields_total [OF search_filtered_yields [OF R wf Some, where ef = 100 and k = k and q = q and bm = bm]]
    by auto
  have d: "distinct ns" and near: "best \<in> set ns" "set ns \<subseteq> {..<?N}"
    "\<forall>x\<in>set ns. set (nbs h x 0) \<subseteq> set ns"
    using ns n by (simp_all add: near_nodes_def)
  have "mset ns = mset_set (set ns)" using d by (simp add: mset_set_set)
  also have "set ns = {0..<?N}" using complete0_closed [OF c near] by (simp add: lessThan_atLeast0)
  finally have "mset ns = mset [0..<?N]" by simp
  then have "mset (map (node_hit h q) ns) = mset (map (node_hit h q) [0..<?N])" by simp
  also have "map (node_hit h q) [0..<?N] = map (\<lambda>(i, v). (i, compute (hx_metric h) q v)) (hnsw_entries h)"
    by (simp add: hnsw_entries_def node_hit_def node_dist_def)
  finally have "mset (keep_hits R bm (map (node_hit h q) ns)) = mset (entry_hits R (hx_metric h) q bm (hnsw_entries h))"
    unfolding entry_hits_def by (rule keep_hits_mset)
  moreover have "sorted (map (\<lambda>hit. of_key (snd hit)) (map (node_hit h q) ns))"
    using ns by (simp add: near_nodes_def node_hit_def o_def)
  then have "sorted (map (\<lambda>hit. of_key (snd hit)) (keep_hits R bm (map (node_hit h q) ns)))"
    unfolding keep_hits_filter by (rule sorted_filter)
  ultimately show ?thesis using hits nearest_take by blast
qed

section \<open>Properties\<close>

text \<open>C12: An insertion keeps the graph well formed (links point to other existing nodes, none twice, at
  most 32 per layer; the entry point is on the top layer) and adds exactly the new id and vector to
  what a snapshot returns, for every random number. It does not panic when no distance between
  stored vectors is a NaN and the random level does not overflow.\<close>

theorem hnsw_insert_invariant:
  assumes "order_ok R" "hnsw_wf h" "length v = hx_dims h" "hnsw_snapshot h = Ok es"
  shows "(dists_ok (hx_metric h) (map snd es @ [v]) \<and> random_level R h r + 1 < 2 ^ 64 \<longrightarrow>
        (\<exists>h'. hnsw_insert R r i v h = Ok h'))
     \<and> (\<forall>h'. hnsw_insert R r i v h = Ok h' \<longrightarrow> hnsw_wf h' \<and> hnsw_snapshot h' = Ok (es @ [(i, v)]))
     \<and> (\<forall>e. hnsw_insert R r i v h \<noteq> Err e)"
proof -
  have es: "es = hnsw_entries h" using assms(2,4) by (simp add: hnsw_wf_def hnsw_snapshot_entries)
  note y = hnsw_insert_yields [OF assms(1-3), of r i]
  have "inserted h i v h' \<Longrightarrow> hnsw_wf h' \<and> hnsw_snapshot h' = Ok (es @ [(i, v)])" for h'
    by (simp add: inserted_def hnsw_wf_def hnsw_snapshot_entries es)
  then show ?thesis
    using y by (cases "hnsw_insert R r i v h") (auto simp: es yields_def)
qed

lemma demo_level: "random_level demo_runtime (hnsw_new demo_runtime d m) f_one = 0"
proof -
  have 1: "f_div f_one f_one = f_one" "f_neg f_one = 3212836864" by (simp_all add: f_eval f_one_def)
  have 2: "f_mul 3212836864 f_one = 3212836864" by (simp add: f_eval f_one_def)
  have 3: "f_to_usize (f_floor 3212836864) = 0" by (simp add: f_eval)
  have ln: "rt_ln demo_runtime (f_of_nat 16) = f_one" "rt_ln demo_runtime f_one = f_one"
    by (simp_all add: demo_runtime_def f_of_nat_def round_mag_def div_even_def f_make_def f_zero_def f_one_def float_simps Let_def)
  show ?thesis unfolding random_level_def ln(2) by (simp add: hnsw_new_def ln 1 2 3)
qed

lemma demo_dists: "dists_ok L2 [[f_one], [f_two], [f_zero]]"
  by (simp add: dists_ok_def compute_def l2_squared_not_nan)

theorem hnsw_insert_invariant_witness:
  "\<exists>h'. hnsw_insert demo_runtime f_one 9 [f_two] (hnsw_new demo_runtime 1 L2) = Ok h'
     \<and> hnsw_wf h' \<and> hnsw_snapshot h' = Ok [(9, [f_two])]"
proof -
  let ?h = "hnsw_new demo_runtime 1 L2"
  have "hnsw_snapshot ?h = Ok []" by (simp add: hnsw_snapshot_def hnsw_new_def)
  from hnsw_insert_invariant [OF demo_order_ok hnsw_new_wf _ this, of "[f_two]" f_one 9]
  show ?thesis using demo_level [of 1 L2] dists_ok_subset [OF demo_dists, of "[[f_two]]"] by auto
qed

text \<open>C11: Up to 33 entries the graph index is exact. An index built by inserting at most 33 vectors of
  the right length, none of whose mutual distances is a NaN, exists (no insertion panics), and for
  every query and \<open>k\<close> its search returns the nearest \<open>k\<close> entries of the flat scan: the multiset of
  hits and rest is that of the brute-force hits, the hits are sorted, and nothing left out is nearer.\<close>

theorem hnsw_small_exact:
  assumes "order_ok R" "inserts_ok R dims m es" "length es \<le> 33"
  shows "\<exists>h. hnsw_build R dims m es = Ok h \<and> (\<forall>q k. \<exists>hits rest.
       hnsw_search R h q k = Ok hits
       \<and> mset (hits @ rest) = mset (flat_hits (flat_of m (map snd es)) q)
       \<and> length hits = min k (length es)
       \<and> sorted (map (\<lambda>hit. of_key (snd hit)) hits)
       \<and> (\<forall>a\<in>set hits. \<forall>b\<in>set rest. of_key (snd a) \<le> of_key (snd b)))"
proof -
  obtain h where h: "hnsw_build R dims m es = Ok h" and b: "built R dims m es h"
    using yields_total [OF hnsw_build_yields [OF assms(1,2)]] by blast
  have wf: "hnsw_wf h" and en: "hnsw_entries h = map snd es" and m: "hx_metric h = m"
    and n: "length (hx_ids h) = length es" and c: "complete0 h (length (hx_ids h))"
    using b assms(3) hnsw_entries_length [of h] by (auto simp: built_def)
  have "entry_hits R m q None (map snd es) = flat_hits (flat_of m (map snd es)) q" for q
    by (simp add: entry_hits_def keep_hits_def flat_hits_of compute_swap [of m q])
  then have "\<exists>hits. hnsw_search R h q k = Ok hits \<and> nearest k (flat_hits (flat_of m (map snd es)) q) hits" for q k
    using complete_search_exact [OF assms(1) wf _ c, of q k None] n assms(3)
    by (simp add: hnsw_search_def en m)
  then show ?thesis using h by (fastforce simp: nearest_def flat_hits_of)
qed

theorem hnsw_small_exact_witness:
  "\<exists>h. hnsw_build demo_runtime 1 L2 [(f_one, 7, [f_one]), (f_one, 9, [f_two])] = Ok h
     \<and> (\<exists>hits rest. hnsw_search demo_runtime h [f_two] 1 = Ok hits \<and> length hits = 1
        \<and> mset (hits @ rest) = mset (flat_hits (flat_of L2 [(7, [f_one]), (9, [f_two])]) [f_two]))"
proof -
  have "inserts_ok demo_runtime 1 L2 [(f_one, 7, [f_one]), (f_one, 9, [f_two])]"
    using dists_ok_subset [OF demo_dists, of "[[f_one], [f_two]]"] by (simp add: inserts_ok_def demo_level)
  from hnsw_small_exact [OF demo_order_ok this]
  obtain h where h: "hnsw_build demo_runtime 1 L2 [(f_one, 7, [f_one]), (f_one, 9, [f_two])] = Ok h"
    and "\<forall>q k. \<exists>hits rest. hnsw_search demo_runtime h q k = Ok hits
       \<and> mset (hits @ rest) = mset (flat_hits (flat_of L2 (map snd [(f_one, 7, [f_one]), (f_one, 9, [f_two])])) q)
       \<and> length hits = min k (length [(f_one, 7 :: u64, [f_one]), (f_one, 9, [f_two])])
       \<and> sorted (map (\<lambda>hit. of_key (snd hit)) hits)
       \<and> (\<forall>a\<in>set hits. \<forall>b\<in>set rest. of_key (snd a) \<le> of_key (snd b))" by auto
  from this(2) [rule_format, of "[f_two]" 1] show ?thesis using h by (auto simp del: mset_append)
qed

end
