(* ===== verification/Filter_Index.thy ===== *)
theory Filter_Index
  imports Runtime "HOL-Library.AList"
begin

text \<open>
  The metadata filter index (\<open>vec/src/filter.rs\<close>): hash maps as association lists with distinct keys
  (the list order stands for the unspecified iteration order), bitmaps as the external type of the
  runtime record, filter expressions with the constructors of the source.
\<close>

section \<open>State and operations\<close>

datatype filter_expr =
    FEquals string string
  | FIn string "string list"
  | FAnd "filter_expr list"
  | FOr "filter_expr list"
  | FNot filter_expr

type_synonym 'b filter_index = "(string \<times> (string \<times> 'b) list) list"

definition filter_new :: "'b filter_index" where
  "filter_new = []"

text \<open>\<open>entry(k).or\_default()\<close>: the entry of a key, the default when there is none.\<close>

definition entry_or :: "'v \<Rightarrow> (string \<times> 'v) list \<Rightarrow> string \<Rightarrow> 'v" where
  "entry_or d m k = (case map_of m k of None \<Rightarrow> d | Some v \<Rightarrow> v)"

definition filter_insert ::
  "'b runtime \<Rightarrow> u64 \<Rightarrow> string \<Rightarrow> string \<Rightarrow> 'b filter_index \<Rightarrow> 'b filter_index" where
  "filter_insert R i field val fi =
     (let field_map = entry_or [] fi field;
          bm = entry_or (bm_new R) field_map val
      in AList.update field (AList.update val (bm_insert R i bm) field_map) fi)"

definition filter_all_ids :: "'b runtime \<Rightarrow> 'b filter_index \<Rightarrow> 'b" where
  "filter_all_ids R fi =
     foldl (\<lambda>acc fm. foldl (\<lambda>acc' p. bm_or R acc' (snd p)) acc (snd fm)) (bm_new R) fi"

fun filter_evaluate :: "'b runtime \<Rightarrow> 'b filter_index \<Rightarrow> filter_expr \<Rightarrow> 'b" where
  "filter_evaluate R fi (FEquals field val) =
     (case map_of fi field of
        None \<Rightarrow> bm_new R
      | Some m \<Rightarrow> (case map_of m val of None \<Rightarrow> bm_new R | Some b \<Rightarrow> b))"
| "filter_evaluate R fi (FIn field vals) =
     (case map_of fi field of
        None \<Rightarrow> bm_new R
      | Some m \<Rightarrow> foldl (\<lambda>acc v. case map_of m v of None \<Rightarrow> acc | Some b \<Rightarrow> bm_or R acc b)
                    (bm_new R) vals)"
| "filter_evaluate R fi (FAnd es) =
     (case map (filter_evaluate R fi) es of
        [] \<Rightarrow> bm_new R
      | b # bs \<Rightarrow> foldl (bm_and R) b bs)"
| "filter_evaluate R fi (FOr es) =
     foldl (bm_or R) (bm_new R) (map (filter_evaluate R fi) es)"
| "filter_evaluate R fi (FNot e) =
     bm_sub R (filter_all_ids R fi) (filter_evaluate R fi e)"

definition filter_total_ids :: "'b runtime \<Rightarrow> 'b filter_index \<Rightarrow> nat" where
  "filter_total_ids R fi = bm_len R (filter_all_ids R fi)"

definition passes_filter :: "'b runtime \<Rightarrow> 'b filter_index \<Rightarrow> filter_expr \<Rightarrow> u64 \<Rightarrow> bool" where
  "passes_filter R fi e i = bm_contains R (filter_evaluate R fi e) i"

text \<open>
  \<open>selectivity\<close> divides two counts as \<open>f64\<close>. As in \<open>Float32\<close>, a value is its bit pattern, computed exactly in
  units of the least positive subnormal, here \<open>2 ^ -1074\<close>, and rounded once to 53 significant bits; a
  count is never negative and far from overflow.
\<close>

definition round_f64 :: "nat \<Rightarrow> nat \<Rightarrow> u64" where
  "round_f64 n d = (let e = bit_len (n div d) - 53 in word_of_nat (e * 2 ^ 52 + div_even n (d * 2 ^ e)))"

definition f64_units :: "u64 \<Rightarrow> nat" where
  "f64_units x =
     (let m = unat x in if m div 2 ^ 52 = 0 then m else (m mod 2 ^ 52 + 2 ^ 52) * 2 ^ (m div 2 ^ 52 - 1))"

definition f64_of_count :: "nat \<Rightarrow> u64" where
  "f64_of_count n = round_f64 (n * 2 ^ 1074) 1"

definition f64_ratio :: "u64 \<Rightarrow> u64 \<Rightarrow> u64" where
  "f64_ratio x y = round_f64 (f64_units x * 2 ^ 1074) (f64_units y)"

definition selectivity :: "'b runtime \<Rightarrow> 'b filter_index \<Rightarrow> filter_expr \<Rightarrow> u64" where
  "selectivity R fi e =
     (let total = f64_of_count (filter_total_ids R fi)
      in if total = 0 then f64_of_count 1
         else f64_ratio (f64_of_count (bm_len R (filter_evaluate R fi e))) total)"

section \<open>Specification: the set of tagged triples\<close>

text \<open>The abstract state: which (field, value, id) triples were inserted.\<close>

definition tags :: "('b \<Rightarrow> u64 set) \<Rightarrow> 'b filter_index \<Rightarrow> (string \<times> string \<times> u64) set" where
  "tags B fi = {(f, v, i). \<exists>m b. map_of fi f = Some m \<and> map_of m v = Some b \<and> i \<in> B b}"

text \<open>The ids that satisfy an expression, read off the triples. An empty conjunction is satisfied by
  none, and a negation ranges over the tagged ids.\<close>

fun denote :: "(string \<times> string \<times> u64) set \<Rightarrow> filter_expr \<Rightarrow> u64 set" where
  "denote T (FEquals f v) = {i. (f, v, i) \<in> T}"
| "denote T (FIn f vs) = {i. \<exists>v\<in>set vs. (f, v, i) \<in> T}"
| "denote T (FAnd es) = (if es = [] then {} else {i. \<forall>e\<in>set es. i \<in> denote T e})"
| "denote T (FOr es) = {i. \<exists>e\<in>set es. i \<in> denote T e}"
| "denote T (FNot e) = {i. (\<exists>f v. (f, v, i) \<in> T) \<and> i \<notin> denote T e}"

text \<open>Keys are unique at both levels, as in a hash map.\<close>

definition filter_wf :: "'b filter_index \<Rightarrow> bool" where
  "filter_wf fi \<longleftrightarrow>
     distinct (map fst fi) \<and> (\<forall>f m. map_of fi f = Some m \<longrightarrow> distinct (map fst m))"

lemma filter_wf_new: "filter_wf filter_new"
  by (simp add: filter_wf_def filter_new_def)

lemma filter_wf_insert: "filter_wf fi \<Longrightarrow> filter_wf (filter_insert R i f v fi)"
  by (auto simp: filter_wf_def filter_insert_def Let_def distinct_update update_conv' entry_or_def
      split: option.splits)

section \<open>The bitmaps compute the specification\<close>

lemma tags_new [simp]: "tags B filter_new = {}"
  by (simp add: tags_def filter_new_def)

lemma tags_insert:
  assumes "bitmap_ok R B"
  shows "tags B (filter_insert R i f v fi) = insert (f, v, i) (tags B fi)"
  using assms
  by (auto simp: tags_def filter_insert_def Let_def update_conv' entry_or_def bitmap_ok_def
      split: option.splits if_splits)

lemma foldl_bm_or:
  assumes "bitmap_ok R B"
  shows "B (foldl (bm_or R) b bs) = B b \<union> (\<Union>c\<in>set bs. B c)"
  using assms by (induction bs arbitrary: b) (auto simp: bitmap_ok_def)

lemma foldl_bm_and:
  assumes "bitmap_ok R B"
  shows "B (foldl (bm_and R) b bs) = B b \<inter> (\<Inter>c\<in>set bs. B c)"
  using assms by (induction bs arbitrary: b) (auto simp: bitmap_ok_def)

lemma foldl_bm_lookup:
  assumes "bitmap_ok R B"
  shows "B (foldl (\<lambda>acc v. case g v of None \<Rightarrow> acc | Some b \<Rightarrow> bm_or R acc b) b vs)
     = B b \<union> {i. \<exists>v\<in>set vs. \<exists>c. g v = Some c \<and> i \<in> B c}"
  using assms by (induction vs arbitrary: b) (auto simp: bitmap_ok_def split: option.splits)

lemma foldl_bm_values:
  assumes "bitmap_ok R B"
  shows "B (foldl (\<lambda>acc' p. bm_or R acc' (snd p)) b m) = B b \<union> (\<Union>p\<in>set m. B (snd p))"
  using assms by (induction m arbitrary: b) (auto simp: bitmap_ok_def)

lemma foldl_bm_fields:
  assumes "bitmap_ok R B"
  shows "B (foldl (\<lambda>acc fm. foldl (\<lambda>acc' p. bm_or R acc' (snd p)) acc (snd fm)) b fi)
     = B b \<union> (\<Union>fm\<in>set fi. \<Union>p\<in>set (snd fm). B (snd p))"
  using assms by (induction fi arbitrary: b) (auto simp: foldl_bm_values)

lemma all_ids_tags:
  assumes "bitmap_ok R B" "filter_wf fi"
  shows "B (filter_all_ids R fi) = {i. \<exists>f v. (f, v, i) \<in> tags B fi}"
proof -
  have "(\<exists>m. (f, m) \<in> set fi \<and> (\<exists>b. (v, b) \<in> set m \<and> i \<in> B b)) \<longleftrightarrow> (f, v, i) \<in> tags B fi" for f v i
    using assms(2) by (fastforce simp: tags_def filter_wf_def map_of_eq_Some_iff)
  moreover have "B (bm_new R) = {}" using assms(1) by (simp add: bitmap_ok_def)
  ultimately show ?thesis
    unfolding filter_all_ids_def foldl_bm_fields [OF assms(1)] by (fastforce)
qed

lemma evaluate_denote:
  assumes "bitmap_ok R B" "filter_wf fi"
  shows "B (filter_evaluate R fi e) = denote (tags B fi) e"
proof (induction e)
  case (FAnd es)
  show ?case
  proof (cases es)
    case Nil
    then show ?thesis using assms(1) by (simp add: bitmap_ok_def)
  next
    case (Cons a as)
    then show ?thesis using FAnd.IH by (auto simp: foldl_bm_and [OF assms(1)])
  qed
next
  case (FOr es)
  then show ?case using assms(1) by (auto simp: foldl_bm_or [OF assms(1)] bitmap_ok_def)
next
  case (FNot e)
  then show ?case
    using assms(1) by (auto simp: all_ids_tags [OF assms] bitmap_ok_def)
next
  case (FIn f vs)
  have "B (bm_new R) = {}" using assms(1) by (simp add: bitmap_ok_def)
  then show ?case
    by (auto simp: foldl_bm_lookup [OF assms(1)] tags_def split: option.splits)
next
  case (FEquals f v)
  then show ?case
    using assms(1) by (auto simp: tags_def bitmap_ok_def split: option.splits)
qed

text \<open>So the selectivity is the ratio of the ids that satisfy the expression to all tagged ids.\<close>

lemma selectivity_counts:
  assumes "bitmap_ok R B" "filter_wf fi"
  shows "selectivity R fi e =
    (let total = f64_of_count (card {i. \<exists>f v. (f, v, i) \<in> tags B fi})
     in if total = 0 then f64_of_count 1 else f64_ratio (f64_of_count (card (denote (tags B fi) e))) total)"
proof -
  have "bm_len R b = card (B b)" for b using assms(1) by (simp add: bitmap_ok_def)
  then show ?thesis
    by (simp add: Let_def selectivity_def filter_total_ids_def evaluate_denote [OF assms] all_ids_tags [OF assms])
qed

text \<open>The index after a sequence of inserts.\<close>

definition filter_of :: "'b runtime \<Rightarrow> (u64 \<times> string \<times> string) list \<Rightarrow> 'b filter_index" where
  "filter_of R ts = foldl (\<lambda>fi (i, f, v). filter_insert R i f v fi) filter_new ts"

lemma filter_of_wf: "filter_wf (filter_of R ts)"
  by (induction ts rule: rev_induct) (auto simp: filter_of_def filter_wf_new filter_wf_insert)

lemma filter_of_tags:
  "bitmap_ok R B \<Longrightarrow> tags B (filter_of R ts) = {(f, v, i). (i, f, v) \<in> set ts}"
  by (induction ts rule: rev_induct) (auto simp: filter_of_def tags_insert)

section \<open>Properties\<close>

text \<open>C34: Evaluating a filter expression on the bitmaps gives exactly the set of ids its meaning
  prescribes over the inserted (id, field, value) triples, for every nesting of equality, membership,
  conjunction, disjunction and negation; and the membership test agrees with it.\<close>

theorem filter_evaluate_refines:
  assumes "bitmap_ok R B"
  shows "B (filter_evaluate R (filter_of R ts) e) = denote {(f, v, i). (i, f, v) \<in> set ts} e
     \<and> (passes_filter R (filter_of R ts) e j \<longleftrightarrow> j \<in> denote {(f, v, i). (i, f, v) \<in> set ts} e)"
  using assms evaluate_denote [OF assms filter_of_wf] filter_of_tags [OF assms]
  by (simp add: passes_filter_def bitmap_ok_def)

theorem filter_evaluate_refines_witness:
  "filter_evaluate demo_runtime
      (filter_of demo_runtime [(1, ''color'', ''red''), (2, ''color'', ''blue'')])
      (FNot (FEquals ''color'' ''red'')) = {2}
   \<and> passes_filter demo_runtime
      (filter_of demo_runtime [(1, ''color'', ''red''), (2, ''color'', ''blue'')])
      (FNot (FEquals ''color'' ''red'')) 2"
proof -
  let ?ts = "[(1 :: u64, ''color'', ''red''), (2, ''color'', ''blue'')]"
  have "denote {(f, v, i). (i, f, v) \<in> set ?ts} (FNot (FEquals ''color'' ''red'')) = {2}"
    by (auto simp only: denote.simps mem_Collect_eq case_prod_conv list.set insert_iff empty_iff prod.inject)
      simp_all
  then show ?thesis
    using filter_evaluate_refines [OF demo_bitmap_ok, of ?ts "FNot (FEquals ''color'' ''red'')" 2]
    by (simp only: insertI1)
qed

end
