(* ===== verification/Vivy_Index.thy ===== *)
theory Vivy_Index
  imports Hnsw_Insert Filter_Index "HOL-Library.Char_ord" "HOL-Library.List_Lexorder"
begin

text \<open>
  The index of one data directory (\<open>vec/src/concurrent.rs\<close>): eight HNSW shards, the sealed segments,
  the filter index, the write-ahead log and the identifier counter; insertion, search, compaction
  into a sealed segment, and opening from the log and the directory. Methods run one after the
  other; the random numbers, the clock and every I/O fault are arguments. After a panic the state
  is given as it was before the panicking step.
\<close>

section \<open>State\<close>

definition num_shards :: nat where "num_shards = 8"

definition shard_idx :: "'b runtime \<Rightarrow> u64 \<Rightarrow> nat \<Rightarrow> nat" where
  "shard_idx R i n = unat (rt_hash R i) mod n"

record 'b vivy_index =
  vx_dims :: nat
  vx_shards :: "hnsw list"
  vx_sealed :: "sealed_segment list"
  vx_filter :: "'b filter_index"
  vx_wal :: "wal_writer option"
  vx_next_id :: u64
  vx_dir :: "data_dir option"

type_synonym ('b, 'a) vstep = "'b vivy_index \<times> 'a vresult"

section \<open>Insertion\<close>

text \<open>Faults of the writes of one log transaction: one plan per appended entry, one for the commit.\<close>

record log_faults =
  lf_append :: "nat \<Rightarrow> nat \<Rightarrow> fault \<times> fault"
  lf_commit :: "fault \<times> io_error option"

definition vivy_log :: "log_faults \<Rightarrow> wal_entry list \<Rightarrow> 'b vivy_index \<Rightarrow> ('b, unit) vstep" where
  "vivy_log lf es ix =
     (case vx_wal ix of
        None \<Rightarrow> (ix, Ok ())
      | Some w \<Rightarrow>
          (case and_then (wal_appends (map (lf_append lf) [0..<length es]) es w) (\<lambda>w1 _. wal_commit (lf_commit lf) w1) of
             (w', res) \<Rightarrow> (ix\<lparr> vx_wal := Some w' \<rparr>, map_err VivyWal res)))"

text \<open>\<open>self.shards[shard].write().insert(id, vector)\<close>\<close>

definition shard_insert :: "'b runtime \<Rightarrow> f32 \<Rightarrow> u64 \<Rightarrow> f32 list \<Rightarrow> 'b vivy_index \<Rightarrow> ('b, unit) vstep" where
  "shard_insert R r i v ix =
     (let s = shard_idx R i num_shards in
      if s < length (vx_shards ix)
      then (case hnsw_insert R r i v (vx_shards ix ! s) of
              Ok h \<Rightarrow> (ix\<lparr> vx_shards := (vx_shards ix)[s := h] \<rparr>, Ok ())
            | Err e \<Rightarrow> (ix, Err e)
            | Panic \<Rightarrow> (ix, Panic))
      else (ix, Panic))"

definition vivy_insert ::
  "'b runtime \<Rightarrow> f32 \<Rightarrow> log_faults \<Rightarrow> f32 list \<Rightarrow> 'b vivy_index \<Rightarrow> ('b, u64) vstep" where
  "vivy_insert R r lf v ix =
     (if length v \<noteq> vx_dims ix then (ix, Err VivyDimensionMismatch)
      else (let i = vx_next_id ix in
        and_then (vivy_log lf [WalInsert i v] (ix\<lparr> vx_next_id := i + 1 \<rparr>)) (\<lambda>ix1 _.
        and_then (shard_insert R r i v ix1) (\<lambda>ix2 _. (ix2, Ok i)))))"

definition vivy_insert_with_id ::
  "'b runtime \<Rightarrow> f32 \<Rightarrow> log_faults \<Rightarrow> u64 \<Rightarrow> f32 list \<Rightarrow> 'b vivy_index \<Rightarrow> ('b, unit) vstep" where
  "vivy_insert_with_id R r lf i v ix =
     (if length v \<noteq> vx_dims ix then (ix, Err VivyDimensionMismatch)
      else and_then (vivy_log lf [WalInsert i v] (ix\<lparr> vx_next_id := max (vx_next_id ix) (saturating_succ i) \<rparr>))
             (\<lambda>ix1 _. shard_insert R r i v ix1))"

definition add_tags :: "'b runtime \<Rightarrow> u64 \<Rightarrow> (string \<times> string) list \<Rightarrow> 'b vivy_index \<Rightarrow> 'b vivy_index" where
  "add_tags R i meta ix =
     ix\<lparr> vx_filter := foldl (\<lambda>fi (field, val). filter_insert R i field val fi) (vx_filter ix) meta \<rparr>"

definition vivy_insert_with_metadata ::
  "'b runtime \<Rightarrow> f32 \<Rightarrow> log_faults \<Rightarrow> f32 list \<Rightarrow> (string \<times> string) list \<Rightarrow> 'b vivy_index \<Rightarrow> ('b, u64) vstep" where
  "vivy_insert_with_metadata R r lf v meta ix =
     (if length v \<noteq> vx_dims ix then (ix, Err VivyDimensionMismatch)
      else (let i = vx_next_id ix in
        and_then (vivy_log lf [WalInsert i v] (ix\<lparr> vx_next_id := i + 1 \<rparr>)) (\<lambda>ix1 _.
        and_then (shard_insert R r i v (add_tags R i meta ix1)) (\<lambda>ix2 _. (ix2, Ok i)))))"

fun take_ids :: "u64 \<Rightarrow> nat \<Rightarrow> u64 list" where
  "take_ids i 0 = []"
| "take_ids i (Suc n) = i # take_ids (i + 1) n"

fun shard_inserts :: "'b runtime \<Rightarrow> (f32 \<times> u64 \<times> f32 list) list \<Rightarrow> 'b vivy_index \<Rightarrow> ('b, unit) vstep" where
  "shard_inserts R [] ix = (ix, Ok ())"
| "shard_inserts R ((r, i, v) # es) ix = and_then (shard_insert R r i v ix) (\<lambda>ix1 _. shard_inserts R es ix1)"

text \<open>The ids are taken before the dimensions are checked, and are not given back on an error.\<close>

definition vivy_insert_batch_with_metadata ::
  "'b runtime \<Rightarrow> (nat \<Rightarrow> f32) \<Rightarrow> log_faults \<Rightarrow> f32 list list \<Rightarrow> (string \<times> string) list list option
    \<Rightarrow> 'b vivy_index \<Rightarrow> ('b, u64 list) vstep" where
  "vivy_insert_batch_with_metadata R rnd lf vectors metadata ix =
     (let ids = take_ids (vx_next_id ix) (length vectors);
          ix1 = ix\<lparr> vx_next_id := vx_next_id ix + word_of_nat (length vectors) \<rparr>
      in if list_ex (\<lambda>v. length v \<noteq> vx_dims ix) vectors then (ix1, Err VivyDimensionMismatch)
         else and_then (vivy_log lf (map (\<lambda>(i, v). WalInsert i v) (zip ids vectors)) ix1) (\<lambda>ix2 _.
              let ix3 = (case metadata of None \<Rightarrow> ix2
                         | Some metas \<Rightarrow> foldl (\<lambda>x (i, meta). add_tags R i meta x) ix2 (zip ids metas))
              in and_then (shard_inserts R (zip (map rnd [0..<length vectors]) (zip ids vectors)) ix3) (\<lambda>ix4 _. (ix4, Ok ids))))"

definition vivy_insert_batch ::
  "'b runtime \<Rightarrow> (nat \<Rightarrow> f32) \<Rightarrow> log_faults \<Rightarrow> f32 list list \<Rightarrow> 'b vivy_index \<Rightarrow> ('b, u64 list) vstep" where
  "vivy_insert_batch R rnd lf vectors ix = vivy_insert_batch_with_metadata R rnd lf vectors None ix"

section \<open>Search\<close>

definition shard_hits ::
  "'b runtime \<Rightarrow> f32 list \<Rightarrow> nat \<Rightarrow> 'b option \<Rightarrow> hnsw list \<Rightarrow> (u64 \<times> f32) list vresult" where
  "shard_hits R q k bm shards =
     ofold (\<lambda>acc h. obind (hnsw_search_filtered R h q k bm) (\<lambda>hits. Ok (acc @ hits))) [] shards"

text \<open>One node of a sealed segment: skipped when an accessor gives an error or the filter rejects it.\<close>

definition sealed_hit ::
  "'b runtime \<Rightarrow> metric \<Rightarrow> f32 list \<Rightarrow> 'b option \<Rightarrow> sealed_segment
    \<Rightarrow> (u64 \<times> f32) list \<Rightarrow> nat \<Rightarrow> (u64 \<times> f32) list vresult" where
  "sealed_hit R m q bm s acc idx =
     (case seg_id_at s idx of
        Ok i \<Rightarrow>
          if (case bm of None \<Rightarrow> True | Some b \<Rightarrow> bm_contains R b i)
          then (case seg_vector_at s idx of
                  Ok v \<Rightarrow> Ok (acc @ [(i, compute m q v)])
                | Err e \<Rightarrow> Ok acc
                | Panic \<Rightarrow> Panic)
          else Ok acc
      | Err e \<Rightarrow> Ok acc
      | Panic \<Rightarrow> Panic)"

definition sealed_hits ::
  "'b runtime \<Rightarrow> metric \<Rightarrow> f32 list \<Rightarrow> 'b option \<Rightarrow> (u64 \<times> f32) list \<Rightarrow> sealed_segment list
    \<Rightarrow> (u64 \<times> f32) list vresult" where
  "sealed_hits R m q bm acc segs =
     ofold (\<lambda>acc' s. ofold (sealed_hit R m q bm s) acc' [0..<ss_num_nodes s]) acc segs"

definition vivy_collect ::
  "'b runtime \<Rightarrow> f32 list \<Rightarrow> nat \<Rightarrow> 'b option \<Rightarrow> 'b vivy_index \<Rightarrow> (u64 \<times> f32) list vresult" where
  "vivy_collect R q k bm ix =
     (case vx_shards ix of
        [] \<Rightarrow> Panic
      | h0 # _ \<Rightarrow>
          obind (shard_hits R q k bm (vx_shards ix)) (\<lambda>hits.
          obind (sealed_hits R (hx_metric h0) q bm hits (vx_sealed ix)) (\<lambda>results.
          obind (sort_by_dist (rt_sort_hits R) results) (\<lambda>sorted. Ok (take k sorted)))))"

definition vivy_search_filtered ::
  "'b runtime \<Rightarrow> f32 list \<Rightarrow> nat \<Rightarrow> filter_expr option \<Rightarrow> 'b vivy_index \<Rightarrow> (u64 \<times> f32) list vresult" where
  "vivy_search_filtered R q k expr ix =
     (if length q \<noteq> vx_dims ix then Err VivyDimensionMismatch
      else (case expr of
         None \<Rightarrow> vivy_collect R q k None ix
       | Some e \<Rightarrow> (let bm = filter_evaluate R (vx_filter ix) e in
            if bm_len R bm = 0 then Ok [] else vivy_collect R q k (Some bm) ix)))"

definition vivy_search :: "'b runtime \<Rightarrow> f32 list \<Rightarrow> nat \<Rightarrow> 'b vivy_index \<Rightarrow> (u64 \<times> f32) list vresult" where
  "vivy_search R q k ix =
     (if length q \<noteq> vx_dims ix then Err VivyDimensionMismatch else vivy_collect R q k None ix)"

definition vivy_delta_len :: "'b vivy_index \<Rightarrow> nat" where
  "vivy_delta_len ix = sum_list (map hnsw_len (vx_shards ix))"

definition vivy_num_sealed :: "'b vivy_index \<Rightarrow> nat" where
  "vivy_num_sealed ix = length (vx_sealed ix)"

section \<open>Compaction\<close>

definition seg_filename :: "u64 \<Rightarrow> string" where
  "seg_filename ts = ''seg-'' @ nat_str (unat ts) @ ''.vivy''"

datatype compaction_error =
    CeIo io_error | CeSegment segment_error | CeManifest manifest_error | CeWal wal_error

text \<open>The faults of one compaction, in the order of its steps. A failed write leaves some bytes.\<close>

record compaction_faults =
  cf_create :: "io_error option"
  cf_write :: "(bytes \<times> io_error) option"
  cf_load :: "io_error option"
  cf_save :: "save_stop option"
  cf_reset :: "io_error option"
  cf_reset_flush :: fault
  cf_open :: "io_error option"

definition no_compaction_faults :: compaction_faults where
  "no_compaction_faults = \<lparr> cf_create = None, cf_write = None, cf_load = None, cf_save = None,
     cf_reset = None, cf_reset_flush = None, cf_open = None \<rparr>"

definition drain_shards :: "hnsw list \<Rightarrow> (u64 \<times> f32 list) list vresult" where
  "drain_shards shards =
     ofold (\<lambda>acc h. obind (hnsw_drain h) (\<lambda>(_, snap). Ok (acc @ snap))) [] shards"

definition push_all ::
  "(u64 \<times> f32 list) list \<Rightarrow> seg_writer \<Rightarrow> (segment_error, seg_writer) outcome" where
  "push_all es sw = ofold (\<lambda>w (i, v). seg_push i 0 [[]] v w) sw es"

definition put_file :: "string \<Rightarrow> bytes \<Rightarrow> data_dir \<Rightarrow> data_dir" where
  "put_file name bs d = d\<lparr> dd_files := AList.update name bs (dd_files d) \<rparr>"

definition set_dir :: "data_dir \<Rightarrow> 'b vivy_index \<Rightarrow> 'b vivy_index" where
  "set_dir d ix = ix\<lparr> vx_dir := Some d \<rparr>"

text \<open>Writing the segment file: create it, push the entries, write.\<close>

definition write_segment ::
  "compaction_faults \<Rightarrow> nat \<Rightarrow> string \<Rightarrow> (u64 \<times> f32 list) list \<Rightarrow> data_dir \<Rightarrow> data_dir \<times> (compaction_error, unit) outcome" where
  "write_segment cf dims name es d =
     (case cf_create cf of
        Some e \<Rightarrow> (d, Err (CeIo e))
      | None \<Rightarrow>
     (case push_all es (seg_writer_new (word_of_nat dims) 16 32) of
        Err e \<Rightarrow> (put_file name [] d, Err (CeSegment e))
      | Panic \<Rightarrow> (put_file name [] d, Panic)
      | Ok sw \<Rightarrow>
     (case cf_write cf of
        Some (bs, e) \<Rightarrow> (put_file name bs d, Err (CeIo e))
      | None \<Rightarrow> (put_file name (cu_bytes (seg_write sw \<lparr> cu_bytes = [], cu_pos = 0 \<rparr>)) d, Ok ()))))"

text \<open>Recording it in the manifest.\<close>

definition record_segment ::
  "compaction_faults \<Rightarrow> string \<Rightarrow> data_dir \<Rightarrow> data_dir \<times> (compaction_error, unit) outcome" where
  "record_segment cf name d =
     (case map_err CeManifest (manifest_load (cf_load cf) d) of
        Err e \<Rightarrow> (d, Err e)
      | Panic \<Rightarrow> (d, Panic)
      | Ok mf \<Rightarrow>
          (let segs = (case mf of None \<Rightarrow> [] | Some m \<Rightarrow> mf_segments m) @ [name]
           in (case manifest_save (cf_save cf) (manifest_new segs) d of
                 (d', res) \<Rightarrow> (d', map_err CeManifest res))))"

definition reset_log ::
  "compaction_faults \<Rightarrow> 'b vivy_index \<Rightarrow> 'b vivy_index \<times> (compaction_error, unit) outcome" where
  "reset_log cf ix =
     (case vx_wal ix of
        None \<Rightarrow> (ix, Ok ())
      | Some w \<Rightarrow> (case wal_reset (cf_reset cf) (cf_reset_flush cf) w of
                    (w', res) \<Rightarrow> (ix\<lparr> vx_wal := Some w' \<rparr>, map_err CeWal res)))"

definition open_file :: "io_error option \<Rightarrow> string \<Rightarrow> data_dir \<Rightarrow> (segment_error, sealed_segment) outcome" where
  "open_file io name d =
     seg_open (case io of Some e \<Rightarrow> Err e
               | None \<Rightarrow> (case map_of (dd_files d) name of None \<Rightarrow> Err IoNotFound | Some bs \<Rightarrow> Ok bs))"

definition run_compaction ::
  "'b runtime \<Rightarrow> compaction_faults \<Rightarrow> u64 \<Rightarrow> metric \<Rightarrow> data_dir \<Rightarrow> 'b vivy_index
    \<Rightarrow> 'b vivy_index \<times> (compaction_error, unit) outcome" where
  "run_compaction R cf ts m d ix =
     (case drain_shards (vx_shards ix) of
        Err e \<Rightarrow> (ix, Panic)
      | Panic \<Rightarrow> (ix, Panic)
      | Ok es \<Rightarrow>
          (let ix0 = ix\<lparr> vx_shards := map (\<lambda>_. hnsw_new R (vx_dims ix) m) (vx_shards ix) \<rparr>;
               name = seg_filename ts
           in if es = [] then (ix0, Ok ())
              else (case write_segment cf (vx_dims ix) name es d of (d1, res1) \<Rightarrow>
                and_then (set_dir d1 ix0, res1) (\<lambda>ix1 _.
                case record_segment cf name d1 of (d2, res2) \<Rightarrow>
                and_then (set_dir d2 ix1, res2) (\<lambda>ix2 _.
                and_then (reset_log cf ix2) (\<lambda>ix3 _.
                and_then (ix3, map_err CeSegment (open_file (cf_open cf) name d2)) (\<lambda>ix4 seg.
                  (ix4\<lparr> vx_sealed := vx_sealed ix4 @ [seg] \<rparr>, Ok ()))))))))"

text \<open>\<open>compact\_now\<close> logs an error and returns; a panic reaches the caller.\<close>

definition vivy_compact_now ::
  "'b runtime \<Rightarrow> compaction_faults \<Rightarrow> u64 \<Rightarrow> 'b vivy_index \<Rightarrow> ('b, unit) vstep" where
  "vivy_compact_now R cf ts ix =
     (case vx_dir ix of
        None \<Rightarrow> (ix, Ok ())
      | Some d \<Rightarrow>
          (case vx_shards ix of
             [] \<Rightarrow> (ix, Panic)
           | h0 # _ \<Rightarrow>
               (case run_compaction R cf ts (hx_metric h0) d ix of
                  (ix', Panic) \<Rightarrow> (ix', Panic)
                | (ix', _) \<Rightarrow> (ix', Ok ()))))"

text \<open>One round of the background thread: every 100th tick it compacts 10,000 or more entries.\<close>

definition compactor_tick ::
  "'b runtime \<Rightarrow> compaction_faults \<Rightarrow> u64 \<Rightarrow> metric \<Rightarrow> nat \<times> 'b vivy_index \<Rightarrow> nat \<times> 'b vivy_index" where
  "compactor_tick R cf ts m st =
     (case st of (counter, ix) \<Rightarrow>
       let c = counter + 1 in
       if 100 \<le> c
       then (0, if 10000 \<le> vivy_delta_len ix
                then (case vx_dir ix of None \<Rightarrow> ix
                      | Some d \<Rightarrow> fst (run_compaction R cf ts m d ix))
                else ix)
       else (c, ix))"

section \<open>Opening\<close>

text \<open>\<open>Path::extension\<close> is what follows the last dot of a name that does not start with its only dot.\<close>

definition has_ext_vivy :: "string \<Rightarrow> bool" where
  "has_ext_vivy name \<longleftrightarrow> suffix ''.vivy'' name \<and> 5 < length name"

definition scan_dir :: "data_dir \<Rightarrow> string list" where
  "scan_dir d = sort (filter (\<lambda>n. has_ext_vivy n \<and> valid_utf8 n) (map fst (dd_files d)))"

definition bump_id :: "u64 \<Rightarrow> u64 \<Rightarrow> u64" where
  "bump_id next i = (if next \<le> i then saturating_succ i else next)"

text \<open>Loading one segment: the ids it holds move the counter; one that does not open is skipped.\<close>

definition load_segment ::
  "data_dir \<Rightarrow> u64 \<times> sealed_segment list \<Rightarrow> string \<Rightarrow> (u64 \<times> sealed_segment list) vresult" where
  "load_segment d st name =
     (case open_file None name d of
        Ok seg \<Rightarrow>
          obind (ofold (\<lambda>next idx. case seg_id_at seg idx of
                     Ok i \<Rightarrow> Ok (bump_id next i) | Err e \<Rightarrow> Ok next | Panic \<Rightarrow> Panic)
                   (fst st) [0..<ss_num_nodes seg])
            (\<lambda>next. Ok (next, snd st @ [seg]))
      | Err e \<Rightarrow> Ok st
      | Panic \<Rightarrow> Panic)"

definition manifest_segments :: "save_stop option \<Rightarrow> data_dir \<Rightarrow> data_dir \<times> string list" where
  "manifest_segments stop d =
     (case manifest_load None d of
        Ok (Some m) \<Rightarrow> (d, mf_segments m)
      | _ \<Rightarrow> (let found = scan_dir d in
              (if found = [] then d else fst (manifest_save stop (manifest_new found) d), found)))"

text \<open>Replaying into the shards: one random number per entry.\<close>

definition replay_entry ::
  "'b runtime \<Rightarrow> hnsw list \<times> u64 \<Rightarrow> f32 \<times> wal_entry \<Rightarrow> (hnsw list \<times> u64) vresult" where
  "replay_entry R st re =
     (case st of (shards, next) \<Rightarrow> case re of (r, WalInsert i v) \<Rightarrow>
       (let s = shard_idx R i num_shards in
        if s < length shards
        then obind (hnsw_insert R r i v (shards ! s)) (\<lambda>h. Ok (shards[s := h], bump_id next i))
        else Panic))"

text \<open>\<open>wal\<close> is the log path, with the contents of the file when it exists; \<open>dir\<close> the data directory,
  with its contents when it exists (an empty directory stands for a missing one).\<close>

definition vivy_new ::
  "'b runtime \<Rightarrow> (nat \<Rightarrow> f32) \<Rightarrow> io_error option \<Rightarrow> save_stop option \<Rightarrow> nat \<Rightarrow> metric
    \<Rightarrow> bytes option option \<Rightarrow> data_dir option \<Rightarrow> (wal_error, 'b vivy_index) outcome" where
  "vivy_new R rnd wal_io stop dims m wal dir =
     (let shards0 = map (\<lambda>_. hnsw_new R dims m) [0..<num_shards]
      in obind (case wal of
                  None \<Rightarrow> Ok (shards0, 1)
                | Some f \<Rightarrow>
                    (case wal_replay R (case f of None \<Rightarrow> Err IoNotFound | Some bs \<Rightarrow> Ok bs) of
                       (es, res) \<Rightarrow>
                         obind (no_err (ofold (replay_entry R) (shards0, 1) (zip (map rnd [0..<length es]) es)))
                           (\<lambda>st. obind res (\<lambda>_. Ok st))))
         (\<lambda>(shards, next).
         obind (case wal of None \<Rightarrow> Ok None | Some f \<Rightarrow> obind (wal_open wal_io f) (\<lambda>w. Ok (Some w)))
         (\<lambda>w.
         case dir of
           None \<Rightarrow> Ok \<lparr> vx_dims = dims, vx_shards = shards, vx_sealed = [], vx_filter = filter_new,
                        vx_wal = w, vx_next_id = next, vx_dir = None \<rparr>
         | Some d \<Rightarrow>
             (case manifest_segments stop d of (d', names) \<Rightarrow>
               obind (no_err (ofold (load_segment d') (next, []) names)) (\<lambda>(next', sealed).
               Ok \<lparr> vx_dims = dims, vx_shards = shards, vx_sealed = sealed, vx_filter = filter_new,
                    vx_wal = w, vx_next_id = next', vx_dir = Some d' \<rparr>)))))"

text \<open>\<open>flush\_and\_copy\_segments\<close>: make the target directory (\<open>mk\<close>: the failure, if it does not exist
  and cannot be made), compact, then copy the manifest and every segment file; \<open>cp\<close> gives the
  failure of copying a file, the partial copy of which is not modelled.\<close>

definition copy_file ::
  "(string \<Rightarrow> io_error option) \<Rightarrow> data_dir \<Rightarrow> string \<times> bytes \<Rightarrow> data_dir vresult" where
  "copy_file cp t f =
     (case cp (fst f) of Some e \<Rightarrow> Err (VivyWal (WalIo e)) | None \<Rightarrow> Ok (put_file (fst f) (snd f) t))"

definition vivy_flush_and_copy ::
  "'b runtime \<Rightarrow> compaction_faults \<Rightarrow> u64 \<Rightarrow> io_error option \<Rightarrow> (string \<Rightarrow> io_error option) \<Rightarrow> data_dir
    \<Rightarrow> 'b vivy_index \<Rightarrow> ('b, data_dir) vstep" where
  "vivy_flush_and_copy R cf ts mk cp target ix =
     (case mk of
        Some e \<Rightarrow> (ix, Err (VivyWal (WalIo e)))
      | None \<Rightarrow>
     (case vx_dir ix of
        None \<Rightarrow> (ix, Ok target)
      | Some _ \<Rightarrow>
          and_then (vivy_compact_now R cf ts ix) (\<lambda>ix1 _.
            case vx_dir ix1 of
              None \<Rightarrow> (ix1, Ok target)
            | Some d \<Rightarrow>
                (ix1, obind (case dd_manifest d of
                          None \<Rightarrow> Ok target
                        | Some s \<Rightarrow> (case cp ''manifest.idx'' of
                            Some e \<Rightarrow> Err (VivyWal (WalIo e))
                          | None \<Rightarrow> Ok (target\<lparr> dd_manifest := Some s \<rparr>)))
                   (\<lambda>t. ofold (copy_file cp) t (filter (\<lambda>f. has_ext_vivy (fst f)) (dd_files d)))))))"

end
