(* ===== verification/Vivy_Entries.thy ===== *)
theory Vivy_Entries
  imports Vivy_Index
begin

text \<open>
  What an index holds, as the multiset of its entries, and what the operations do to it: insertion
  adds one entry, search over at most 33 entries per shard is exact over all of them, delta and
  sealed alike.
\<close>

section \<open>Entries\<close>

text \<open>The entries a scan of a segment sees: those both accessors return.\<close>

definition seg_entry :: "sealed_segment \<Rightarrow> nat \<Rightarrow> (u64 \<times> f32 list) list" where
  "seg_entry s i =
     (case seg_id_at s i of
        Ok x \<Rightarrow> (case seg_vector_at s i of Ok v \<Rightarrow> [(x, v)] | Err e \<Rightarrow> [] | Panic \<Rightarrow> [])
      | Err e \<Rightarrow> []
      | Panic \<Rightarrow> [])"

definition seg_entries :: "sealed_segment \<Rightarrow> (u64 \<times> f32 list) list" where
  "seg_entries s = concat (map (seg_entry s) [0..<ss_num_nodes s])"

definition seg_clean :: "sealed_segment \<Rightarrow> bool" where
  "seg_clean s \<longleftrightarrow> (\<forall>i < ss_num_nodes s. seg_id_at s i \<noteq> Panic \<and> seg_vector_at s i \<noteq> Panic)"

definition delta_entries :: "'b vivy_index \<Rightarrow> (u64 \<times> f32 list) list" where
  "delta_entries ix = concat (map hnsw_entries (vx_shards ix))"

definition sealed_entries :: "'b vivy_index \<Rightarrow> (u64 \<times> f32 list) list" where
  "sealed_entries ix = concat (map seg_entries (vx_sealed ix))"

definition vivy_entries :: "'b vivy_index \<Rightarrow> (u64 \<times> f32 list) list" where
  "vivy_entries ix = delta_entries ix @ sealed_entries ix"

section \<open>The invariant\<close>

definition shard_ok :: "'b runtime \<Rightarrow> nat \<Rightarrow> metric \<Rightarrow> hnsw \<Rightarrow> bool" where
  "shard_ok R dims m h \<longleftrightarrow>
     hnsw_wf h \<and> hx_metric h = m \<and> hx_dims h = dims \<and> hx_ml h = hx_ml (hnsw_new R dims m)
     \<and> (length (hx_ids h) \<le> 33 \<longrightarrow> complete0 h (length (hx_ids h)))"

definition vivy_wf :: "'b runtime \<Rightarrow> metric \<Rightarrow> 'b vivy_index \<Rightarrow> bool" where
  "vivy_wf R m ix \<longleftrightarrow>
     length (vx_shards ix) = num_shards
     \<and> (\<forall>h\<in>set (vx_shards ix). shard_ok R (vx_dims ix) m h)
     \<and> (\<forall>s\<in>set (vx_sealed ix). seg_clean s)"

lemma shard_ok_new: "shard_ok R dims m (hnsw_new R dims m)"
  using hnsw_new_wf by (simp add: shard_ok_def complete0_def)

lemma shard_ok_inserted: "shard_ok R dims m h \<Longrightarrow> inserted h i v h' \<Longrightarrow> shard_ok R dims m h'"
proof -
  assume a: "shard_ok R dims m h" "inserted h i v h'"
  then have "length (hx_ids h') = length (hx_ids h) + 1"
    using hnsw_entries_length [of h'] by (auto simp: inserted_def)
  with a show ?thesis by (auto simp: shard_ok_def inserted_def)
qed

lemma shard_idx_lt: "shard_idx R i num_shards < num_shards"
  by (simp add: shard_idx_def num_shards_def)

lemma mset_concat_update:
  assumes "s < length xs" "mset (f y) = add_mset e (mset (f (xs ! s)))"
  shows "mset (concat (map f (xs[s := y]))) = add_mset e (mset (concat (map f xs)))"
proof -
  have "mset (concat (map f (xs[s := y]))) = mset (concat (map f (take s xs))) + mset (f y) + mset (concat (map f (drop (Suc s) xs)))"
    using assms(1) by (simp add: upd_conv_take_nth_drop)
  moreover have "mset (concat (map f xs)) = mset (concat (map f (take s xs))) + mset (f (xs ! s)) + mset (concat (map f (drop (Suc s) xs)))"
    using arg_cong [OF id_take_nth_drop [OF assms(1)], of "\<lambda>l. mset (concat (map f l))"] by simp
  ultimately show ?thesis using assms(2) by simp
qed

text \<open>Which distances an insertion into any shard may compare.\<close>

definition vivy_dists_ok :: "metric \<Rightarrow> 'b vivy_index \<Rightarrow> f32 list list \<Rightarrow> bool" where
  "vivy_dists_ok m ix vs \<longleftrightarrow> dists_ok m (map snd (delta_entries ix) @ vs)"

definition level_ok :: "'b runtime \<Rightarrow> nat \<Rightarrow> metric \<Rightarrow> f32 \<Rightarrow> bool" where
  "level_ok R dims m r \<longleftrightarrow> random_level R (hnsw_new R dims m) r + 1 < 2 ^ 64"

text \<open>The states that differ from \<open>ix\<close> by an entry put into one shard.\<close>

definition shard_inserted :: "'b runtime \<Rightarrow> metric \<Rightarrow> 'b vivy_index \<Rightarrow> u64 \<Rightarrow> f32 list \<Rightarrow> 'b vivy_index \<Rightarrow> bool" where
  "shard_inserted R m ix i v ix' \<longleftrightarrow>
     (\<exists>shards. ix' = ix\<lparr> vx_shards := shards \<rparr>) \<and> vivy_wf R m ix'
     \<and> mset (delta_entries ix') = add_mset (i, v) (mset (delta_entries ix))"

lemma shard_insert_spec:
  assumes R: "order_ok R" and wf: "vivy_wf R m ix" and v: "length v = vx_dims ix"
  shows "case shard_insert R r i v ix of
      (ix', Ok _) \<Rightarrow> shard_inserted R m ix i v ix'
    | (ix', Err e) \<Rightarrow> False
    | (ix', Panic) \<Rightarrow> \<not> (vivy_dists_ok m ix [v] \<and> level_ok R (vx_dims ix) m r)"
proof -
  let ?s = "shard_idx R i num_shards" let ?h = "vx_shards ix ! ?s"
  have s: "?s < length (vx_shards ix)" using wf shard_idx_lt by (simp add: vivy_wf_def)
  then have ok: "shard_ok R (vx_dims ix) m ?h" using wf by (simp add: vivy_wf_def)
  then have h: "hnsw_wf ?h" "hx_dims ?h = vx_dims ix" "hx_metric ?h = m" "random_level R ?h r = random_level R (hnsw_new R (vx_dims ix) m) r"
    by (auto simp: shard_ok_def random_level_def)
  have sub: "set (hnsw_entries ?h) \<subseteq> set (delta_entries ix)" using s by (auto simp: delta_entries_def intro: bexI [OF _ nth_mem])
  note y = hnsw_insert_yields [OF R h(1), of v r i]
  show ?thesis
  proof (cases "hnsw_insert R r i v ?h")
    case (Ok h')
    then have ins: "inserted ?h i v h'" using y v h(2) by simp
    let ?ix = "ix\<lparr> vx_shards := (vx_shards ix)[?s := h'] \<rparr>"
    have "\<forall>g\<in>set ((vx_shards ix)[?s := h']). shard_ok R (vx_dims ix) m g"
      using wf shard_ok_inserted [OF ok ins] by (auto simp: vivy_wf_def dest!: set_update_subset_insert [THEN subsetD])
    then have "vivy_wf R m ?ix" using wf by (simp add: vivy_wf_def)
    moreover have "mset (delta_entries ?ix) = add_mset (i, v) (mset (delta_entries ix))"
      using ins s unfolding delta_entries_def by (simp add: mset_concat_update inserted_def)
    ultimately show ?thesis using Ok s by (auto simp: shard_insert_def Let_def shard_inserted_def)
  next
    case (Err e)
    then show ?thesis using y v h(2) by (simp add: yields_def)
  next
    case Panic
    then have "\<not> (dists_ok m (map snd (hnsw_entries ?h) @ [v]) \<and> level_ok R (vx_dims ix) m r)"
      using y v h(2-4) by (simp add: level_ok_def)
    moreover have "vivy_dists_ok m ix [v] \<Longrightarrow> dists_ok m (map snd (hnsw_entries ?h) @ [v])"
      unfolding vivy_dists_ok_def using sub by (elim dists_ok_subset) auto
    ultimately show ?thesis using Panic s by (auto simp: shard_insert_def Let_def)
  qed
qed

section \<open>Search\<close>

text \<open>The scan of the sealed segments appends the hits of their entries.\<close>

lemma seg_hit_entry:
  assumes "seg_clean s" "i < ss_num_nodes s"
  shows "sealed_hit R m q bm s acc i = Ok (acc @ entry_hits R m q bm (seg_entry s i))"
proof -
  have "seg_id_at s i \<noteq> Panic" "seg_vector_at s i \<noteq> Panic" using assms by (auto simp: seg_clean_def)
  then show ?thesis
    by (cases "seg_id_at s i"; cases "seg_vector_at s i"; cases bm)
      (auto simp: sealed_hit_def seg_entry_def entry_hits_def keep_hits_filter)
qed

lemma entry_hits_append: "entry_hits R m q bm (xs @ ys) = entry_hits R m q bm xs @ entry_hits R m q bm ys"
  by (simp add: entry_hits_def keep_hits_filter)

lemma entry_hits_concat: "entry_hits R m q bm (concat ess) = concat (map (entry_hits R m q bm) ess)"
proof (induction ess)
  case Nil
  then show ?case by (simp add: entry_hits_def keep_hits_filter)
next
  case (Cons es ess)
  then show ?case by (simp add: entry_hits_append)
qed

lemma foldl_append_map: "foldl (\<lambda>acc x. acc @ g x) acc xs = acc @ concat (map g xs)"
  by (induction xs arbitrary: acc) auto

lemma sealed_hits_entries:
  assumes "\<forall>s\<in>set segs. seg_clean s"
  shows "sealed_hits R m q bm acc segs = Ok (acc @ entry_hits R m q bm (concat (map seg_entries segs)))"
proof -
  have "ofold (sealed_hit R m q bm s) acc' [0..<ss_num_nodes s] = Ok (acc' @ entry_hits R m q bm (seg_entries s))"
    if "s \<in> set segs" for s acc'
  proof -
    have "ofold (sealed_hit R m q bm s) acc' [0..<ss_num_nodes s]
        = Ok (foldl (\<lambda>acc i. acc @ entry_hits R m q bm (seg_entry s i)) acc' [0..<ss_num_nodes s])"
      by (rule ofold_total) (rule seg_hit_entry, use assms that in auto)
    then show ?thesis by (simp add: foldl_append_map seg_entries_def entry_hits_concat o_def)
  qed
  then have "sealed_hits R m q bm acc segs
      = Ok (foldl (\<lambda>acc' s. acc' @ entry_hits R m q bm (seg_entries s)) acc segs)"
    unfolding sealed_hits_def by (intro ofold_total) auto
  then show ?thesis by (simp add: foldl_append_map entry_hits_concat o_def)
qed

text \<open>The \<open>k\<close> nearest of a union are among the \<open>k\<close> nearest of its parts.\<close>

lemma topk_excludes:
  assumes "sorted (map f ys)" "a \<in> set (take k ys)" "k \<le> size (filter_mset (\<lambda>x. f x < (f a :: int)) (mset ys))"
  shows False
proof -
  obtain p where p: "p < length ys" "p < k" "a = ys ! p"
    using assms(2) by (auto simp: in_set_conv_nth)
  have "\<not> f x < f a" if "x \<in> set (drop p ys)" for x
  proof -
    obtain j where j: "x = ys ! j" "p \<le> j" "j < length ys"
      using \<open>x \<in> set (drop p ys)\<close> by (auto simp: in_set_conv_nth intro: that)
    then show ?thesis using sorted_nth_mono [OF assms(1), of p j] p by simp
  qed
  then have "filter (\<lambda>x. f x < f a) (drop p ys) = []" by (simp add: filter_empty_conv)
  then have "filter (\<lambda>x. f x < f a) ys = filter (\<lambda>x. f x < f a) (take p ys)"
    by (metis append_Nil2 append_take_drop_id filter_append)
  then have "length (filter (\<lambda>x. f x < f a) ys) \<le> p"
    by (metis length_filter_le length_take min.absorb4 p(1) min.bounded_iff order_trans)
  then show False using assms(3) p(2) by (simp flip: mset_filter)
qed

text \<open>Each part leaves out only hits that at least \<open>k\<close> of the hits taken are not farther than.\<close>

lemma parts_dominate:
  fixes hitss :: "('a \<times> f32) list list"
  assumes "list_all2 (\<lambda>all hits. nearest k all hits) alls hitss"
  shows "\<exists>rest. mset (concat alls) = mset (concat hitss) + mset rest
     \<and> (\<forall>b\<in>set rest. k \<le> size (filter_mset (\<lambda>x. of_key (snd x) \<le> of_key (snd b)) (mset (concat hitss))))"
  using assms
proof (induction rule: list_all2_induct)
  case Nil
  then show ?case by (intro exI [of _ "[]"]) simp
next
  case (Cons all alls hits hitss)
  obtain rest where r: "mset (concat alls) = mset (concat hitss) + mset rest"
    "\<forall>b\<in>set rest. k \<le> size (filter_mset (\<lambda>x. of_key (snd x) \<le> of_key (snd b)) (mset (concat hitss)))" using Cons.IH by blast
  obtain r1 where r1: "mset (hits @ r1) = mset all" "\<forall>a\<in>set hits. \<forall>b\<in>set r1. of_key (snd a) \<le> of_key (snd b)"
    and len: "length hits = min k (length all)" using Cons.hyps by (auto simp: nearest_def)
  have "k \<le> size (filter_mset (\<lambda>x. of_key (snd x) \<le> of_key (snd b)) (mset hits))" if "b \<in> set r1" for b
  proof -
    have "length r1 \<noteq> 0" using that by auto
    then have "length hits = k" using len mset_eq_len [OF r1(1)] by (auto simp: min_def split: if_splits)
    moreover have "filter_mset (\<lambda>x. of_key (snd x) \<le> of_key (snd b)) (mset hits) = mset hits"
      using r1(2) that by (simp add: filter_mset_eq_conv)
    ultimately show ?thesis by simp
  qed
  then show ?case using r r1(1) by (intro exI [of _ "r1 @ rest"]) (auto simp: trans_le_add1 trans_le_add2)
qed

lemma nearest_union:
  fixes hitss :: "('a \<times> f32) list list"
  assumes parts: "list_all2 (\<lambda>all hits. nearest k all hits) alls hitss"
    and ys: "mset ys = mset (concat hitss @ extra)" "sorted (map (\<lambda>hit. of_key (snd hit)) ys)"
  shows "nearest k (concat alls @ extra) (take k ys)"
proof -
  let ?f = "\<lambda>hit :: 'a \<times> f32. of_key (snd hit)"
  from parts_dominate [OF parts] obtain rest where rest: "mset (concat alls) = mset (concat hitss) + mset rest"
    "\<And>b. b \<in> set rest \<Longrightarrow> k \<le> size (filter_mset (\<lambda>x. ?f x \<le> ?f b) (mset (concat hitss)))" by blast
  have low: "?f a \<le> ?f b" if a: "a \<in> set (take k ys)" and b: "b \<in> set rest" for a b
  proof (rule ccontr)
    assume "\<not> ?f a \<le> ?f b"
    then have "filter_mset (\<lambda>x. ?f x \<le> ?f b) (mset (concat hitss)) \<subseteq># filter_mset (\<lambda>x. ?f x < ?f a) (mset (concat hitss))"
      by (intro filter_mset_mono_strong) auto
    also have "\<dots> \<subseteq># filter_mset (\<lambda>x. ?f x < ?f a) (mset ys)"
      unfolding ys(1) mset_append filter_union_mset by (rule mset_subset_eq_add_left)
    finally have "filter_mset (\<lambda>x. ?f x \<le> ?f b) (mset (concat hitss)) \<subseteq># filter_mset (\<lambda>x. ?f x < ?f a) (mset ys)" .
    then have "k \<le> size (filter_mset (\<lambda>x. ?f x < ?f a) (mset ys))"
      using rest(2) [OF b] size_mset_mono order_trans by blast
    then show False using topk_excludes [OF ys(2) a] by blast
  qed
  have "length (concat alls @ extra) = length ys + length rest"
    using mset_eq_len [of "concat alls" "concat hitss @ rest"] rest(1) mset_eq_len [OF ys(1)] by simp
  moreover have "k \<le> length ys" if "rest \<noteq> []"
  proof -
    have "k \<le> size (mset (concat hitss))"
      by (rule order_trans [OF rest(2) [of "hd rest"] size_mset_mono [OF multiset_filter_subset]])
        (simp add: that)
    then show ?thesis using mset_eq_len [OF ys(1)] by simp
  qed
  ultimately have "length (take k ys) = min k (length (concat alls @ extra))" by (cases rest) auto
  moreover have "mset (take k ys @ drop k ys @ rest) = mset ys + mset rest"
    by (metis append.assoc append_take_drop_id mset_append)
  then have "mset (take k ys @ drop k ys @ rest) = mset (concat alls @ extra)"
    using rest(1) ys(1) by simp
  moreover have "\<forall>a\<in>set (take k ys). \<forall>b\<in>set (drop k ys @ rest). ?f a \<le> ?f b"
    using sorted_take_le_drop [OF ys(2)] low by auto
  ultimately show ?thesis unfolding nearest_def using take_sorted_key [OF ys(2)] by blast
qed

section \<open>Exact search of an index\<close>

text \<open>No shard holds more than 33 entries.\<close>

definition small_shards :: "'b vivy_index \<Rightarrow> bool" where
  "small_shards ix \<longleftrightarrow> (\<forall>h\<in>set (vx_shards ix). hnsw_len h \<le> 33)"

lemma shard_hits_exact:
  assumes R: "order_ok R" and hs: "\<forall>h\<in>set hs. shard_ok R dims m h \<and> hnsw_len h \<le> 33"
  shows "\<exists>hitss. shard_hits R q k bm hs = Ok (concat hitss)
     \<and> list_all2 (nearest k) (map (\<lambda>h. entry_hits R m q bm (hnsw_entries h)) hs) hitss"
proof -
  have "\<forall>h\<in>set hs. \<exists>hits. hnsw_search_filtered R h q k bm = Ok hits \<and> nearest k (entry_hits R m q bm (hnsw_entries h)) hits"
  proof
    fix h assume h: "h \<in> set hs"
    then have "hnsw_wf h" "hx_metric h = m" "length (hx_ids h) \<le> 100" "complete0 h (length (hx_ids h))"
      using hs by (auto simp: shard_ok_def hnsw_len_def)
    from complete_search_exact [OF R this(1,3,4)] this(2)
    show "\<exists>hits. hnsw_search_filtered R h q k bm = Ok hits \<and> nearest k (entry_hits R m q bm (hnsw_entries h)) hits"
      by metis
  qed
  then obtain g where g: "\<And>h. h \<in> set hs \<Longrightarrow> hnsw_search_filtered R h q k bm = Ok (g h)
      \<and> nearest k (entry_hits R m q bm (hnsw_entries h)) (g h)" by metis
  have "shard_hits R q k bm hs = Ok (foldl (\<lambda>acc h. acc @ g h) [] hs)"
    unfolding shard_hits_def by (rule ofold_total) (use g in simp)
  then show ?thesis
    using g by (intro exI [of _ "map g hs"]) (auto simp: foldl_append_map list_all2_conv_all_nth)
qed

lemma update_fresh: "i \<notin> fst ` set m \<Longrightarrow> AList.update i v m = m @ [(i, v)]"
  by (induction m) auto

lemma nearest_subset: "nearest k all hits \<Longrightarrow> set hits \<subseteq> set all"
proof -
  assume "nearest k all hits"
  then obtain rest where "mset (hits @ rest) = mset all" by (auto simp: nearest_def)
  from mset_eq_set [OF this] show "set hits \<subseteq> set all" by auto
qed

lemma of_key_sorted:
  assumes "sort_ok srt" "sort_by_dist srt xs = Ok ys"
  shows "sorted (map (\<lambda>x. of_key (snd x)) ys)"
proof -
  have m: "mset ys = mset xs" and s: "sorted (map (\<lambda>x. f_key (snd x)) ys)"
    using sort_by_dist_Ok [OF assms] by simp_all
  show ?thesis
  proof (cases "length ys < 2")
    case True
    then show ?thesis by (cases ys; cases "tl ys") auto
  next
    case False
    then have "\<forall>x\<in>set ys. \<not> is_nan (snd x)"
      using assms(2) mset_eq_len [OF m] mset_eq_set [OF m]
      by (auto simp: sort_by_dist_def list_ex_iff split: if_splits)
    then have "map (\<lambda>x. of_key (snd x)) ys = map (\<lambda>x. f_key (snd x)) ys" by simp
    then show ?thesis using s by (simp only:)
  qed
qed

text \<open>The collected search gives the \<open>k\<close> nearest of all entries that pass, when no distance is a NaN.\<close>

lemma vivy_collect_exact:
  assumes R: "order_ok R" and wf: "vivy_wf R m ix" and small: "small_shards ix"
    and nan: "\<forall>(i, v)\<in>set (vivy_entries ix). \<not> is_nan (compute m q v)"
  shows "\<exists>hits. vivy_collect R q k bm ix = Ok hits \<and> nearest k (entry_hits R m q bm (vivy_entries ix)) hits"
proof -
  obtain h0 hs where shards: "vx_shards ix = h0 # hs"
    using wf by (cases "vx_shards ix") (auto simp: vivy_wf_def num_shards_def)
  have m0: "hx_metric h0 = m" using wf by (simp add: vivy_wf_def shards shard_ok_def)
  obtain hitss where hitss: "shard_hits R q k bm (vx_shards ix) = Ok (concat hitss)"
    "list_all2 (nearest k) (map (\<lambda>h. entry_hits R m q bm (hnsw_entries h)) (vx_shards ix)) hitss"
    using shard_hits_exact [OF R, of "vx_shards ix" "vx_dims ix" m q k bm] wf small
    by (auto simp: vivy_wf_def small_shards_def)
  let ?more = "entry_hits R m q bm (sealed_entries ix)"
  have sealed: "sealed_hits R m q bm (concat hitss) (vx_sealed ix) = Ok (concat hitss @ ?more)"
    using wf by (simp add: sealed_hits_entries vivy_wf_def sealed_entries_def)
  have alls: "concat (map (\<lambda>h. entry_hits R m q bm (hnsw_entries h)) (vx_shards ix)) @ ?more
      = entry_hits R m q bm (vivy_entries ix)"
    by (simp add: vivy_entries_def delta_entries_def entry_hits_append entry_hits_concat o_def)
  have "set (concat hitss) \<subseteq> set (concat (map (\<lambda>h. entry_hits R m q bm (hnsw_entries h)) (vx_shards ix)))"
    using hitss(2)
    by (induction rule: list_all2_induct) (use nearest_subset in fastforce)+
  then have "set (concat hitss @ ?more) \<subseteq> set (entry_hits R m q bm (vivy_entries ix))"
    unfolding alls [symmetric] by auto
  moreover have "\<forall>x\<in>set (entry_hits R m q bm (vivy_entries ix)). \<not> is_nan (snd x)"
    using nan by (auto simp: entry_hits_def keep_hits_filter)
  ultimately have s: "sort_by_dist (rt_sort_hits R) (concat hitss @ ?more)
      = (Ok (rt_sort_hits R (concat hitss @ ?more)) :: (u64 \<times> f32) list vresult)"
    by (intro sort_by_dist_total) blast
  have "sort_ok (rt_sort_hits R)" using R by (simp add: order_ok_def)
  note sorted = sort_by_dist_Ok(1) [OF this s] of_key_sorted [OF this s]
  from nearest_union [OF hitss(2) sorted]
  have "nearest k (entry_hits R m q bm (vivy_entries ix)) (take k (rt_sort_hits R (concat hitss @ ?more)))"
    unfolding alls .
  moreover have "vivy_collect R q k bm ix = Ok (take k (rt_sort_hits R (concat hitss @ ?more)))"
    using hitss(1) sealed s by (simp add: vivy_collect_def shards m0)
  ultimately show ?thesis by blast
qed

section \<open>Properties of search\<close>

text \<open>C6: Search over a whole index is exact while no shard holds more than 33 unsealed entries: when the
  query has the right dimension and no stored vector is at a NaN distance, \<open>search\<close> returns without a
  panic the nearest \<open>k\<close> of all entries, those in the shards and those in sealed segments alike, each
  with its distance, sorted, and nothing it leaves out is nearer.\<close>

theorem vivy_search_exact:
  assumes "order_ok R" "vivy_wf R m ix" "small_shards ix" "length q = vx_dims ix"
    and "\<forall>(i, v)\<in>set (vivy_entries ix). \<not> is_nan (compute m q v)"
  shows "\<exists>hits rest. vivy_search R q k ix = Ok hits
     \<and> mset (hits @ rest) = mset (map (\<lambda>(i, v). (i, compute m q v)) (vivy_entries ix))
     \<and> length hits = min k (length (vivy_entries ix))
     \<and> sorted (map (\<lambda>hit. of_key (snd hit)) hits)
     \<and> (\<forall>a\<in>set hits. \<forall>b\<in>set rest. of_key (snd a) \<le> of_key (snd b))"
  using vivy_collect_exact [OF assms(1-3,5), of k None] assms(4)
  by (auto simp: vivy_search_def nearest_def entry_hits_def keep_hits_def)

text \<open>A new index in memory.\<close>

definition demo_index :: "u64 set vivy_index" where
  "demo_index = \<lparr> vx_dims = 1, vx_shards = map (\<lambda>_. hnsw_new demo_runtime 1 L2) [0..<num_shards],
     vx_sealed = [seg_of_writer ((seg_writer_new 1 16 32)\<lparr> sw_nodes := [(5, 0, [[]], [f_one])] \<rparr>)],
     vx_filter = filter_of demo_runtime [(5, ''color'', ''red'')], vx_wal = None, vx_next_id = 6, vx_dir = None \<rparr>"

lemma demo_segment:
  "seg_writer_ok ((seg_writer_new 1 16 32)\<lparr> sw_nodes := [(5, 0, [[]], [f_one])] \<rparr>)"
  by (simp add: seg_writer_ok_def seg_writer_new_def seg_node_ok_def seg_file_def
      header_bytes_def final_header_def seg_magic_def node_bytes_eq)

lemma written_entries:
  assumes "seg_writer_ok sw"
  shows "seg_clean (seg_of_writer sw)"
    and "seg_entries (seg_of_writer sw) = map (\<lambda>(x, level, ls, v). (x, v)) (sw_nodes sw)"
proof -
  have n: "ss_num_nodes (seg_of_writer sw) = length (sw_nodes sw)" by (simp add: seg_of_writer_def Let_def)
  have at: "\<exists>x level ls v. sw_nodes sw ! i = (x, level, ls, v) \<and> seg_id_at (seg_of_writer sw) i = Ok x
      \<and> seg_vector_at (seg_of_writer sw) i = Ok v" if "i < length (sw_nodes sw)" for i
    using seg_read_back [OF assms that] by (cases "sw_nodes sw ! i") auto
  then show "seg_clean (seg_of_writer sw)" unfolding seg_clean_def n by fastforce
  have "seg_entry (seg_of_writer sw) i = [(\<lambda>(x, level, ls, v). (x, v)) (sw_nodes sw ! i)]"
    if "i < length (sw_nodes sw)" for i
    using at [OF that] by (auto simp: seg_entry_def)
  then have entries: "map (seg_entry (seg_of_writer sw)) [0..<length (sw_nodes sw)]
      = map (\<lambda>i. [(\<lambda>(x, level, ls, v). (x, v)) (sw_nodes sw ! i)]) [0..<length (sw_nodes sw)]"
    by simp
  have "seg_entries (seg_of_writer sw) = map (\<lambda>i. (\<lambda>(x, level, ls, v). (x, v)) (sw_nodes sw ! i)) [0..<length (sw_nodes sw)]"
    unfolding seg_entries_def n entries by (rule concat_map_singleton)
  also have "\<dots> = map (\<lambda>(x, level, ls, v). (x, v)) (sw_nodes sw)"
    by (metis (no_types, lifting) map_map map_nth map_cong o_apply)
  finally show "seg_entries (seg_of_writer sw) = map (\<lambda>(x, level, ls, v). (x, v)) (sw_nodes sw)" .
qed

lemma demo_index_facts:
  "vivy_wf demo_runtime L2 demo_index" "small_shards demo_index" "vx_dims demo_index = 1"
  "vivy_entries demo_index = [(5, [f_one])]"
  "\<forall>(i, v)\<in>set (vivy_entries demo_index). \<not> is_nan (compute L2 [f_two] v)"
proof -
  show "vivy_wf demo_runtime L2 demo_index"
    using shard_ok_new [of demo_runtime "Suc 0" L2] written_entries(1) [OF demo_segment]
    by (simp add: vivy_wf_def demo_index_def num_shards_def)
  show "small_shards demo_index" by (simp add: small_shards_def demo_index_def hnsw_len_def)
  show "vx_dims demo_index = 1" by (simp add: demo_index_def)
  show e: "vivy_entries demo_index = [(5, [f_one])]"
    using written_entries(2) [OF demo_segment]
    by (simp add: vivy_entries_def delta_entries_def sealed_entries_def demo_index_def num_shards_def upt_rec)
  show "\<forall>(i, v)\<in>set (vivy_entries demo_index). \<not> is_nan (compute L2 [f_two] v)"
    unfolding e by (simp add: compute_def l2_squared_not_nan)
qed

theorem vivy_search_exact_witness:
  "\<exists>hits rest. vivy_search demo_runtime [f_two] 3 demo_index = Ok hits
     \<and> mset (hits @ rest) = mset [(5, compute L2 [f_two] [f_one])] \<and> length hits = 1"
  using vivy_search_exact [OF demo_order_ok demo_index_facts(1,2) _ demo_index_facts(5), of 3]
  by (auto simp: demo_index_facts(3,4) simp del: mset_append)

lemma vivy_filtered_exact:
  assumes "order_ok R" "bitmap_ok R B" "vivy_wf R m ix" "small_shards ix" "filter_wf (vx_filter ix)"
    and "length q = vx_dims ix" "\<forall>(i, v)\<in>set (vivy_entries ix). \<not> is_nan (compute m q v)"
  shows "\<exists>hits. vivy_search_filtered R q k (Some e) ix = Ok hits
     \<and> nearest k (map (\<lambda>(i, v). (i, compute m q v))
          (filter (\<lambda>(i, v). i \<in> denote (tags B (vx_filter ix)) e) (vivy_entries ix))) hits"
proof -
  let ?bm = "filter_evaluate R (vx_filter ix) e"
  have B: "B ?bm = denote (tags B (vx_filter ix)) e" by (rule evaluate_denote [OF assms(2,5)])
  have c: "bm_contains R ?bm i \<longleftrightarrow> i \<in> denote (tags B (vx_filter ix)) e"
    and l: "bm_len R ?bm = card (B ?bm)" for i
    using assms(2) B by (simp_all add: bitmap_ok_def)
  have hits: "entry_hits R m q (Some ?bm) (vivy_entries ix) = map (\<lambda>(i, v). (i, compute m q v))
      (filter (\<lambda>(i, v). i \<in> denote (tags B (vx_filter ix)) e) (vivy_entries ix))"
    by (simp add: entry_hits_def keep_hits_def filter_map c o_def case_prod_unfold)
  show ?thesis
  proof (cases "bm_len R ?bm = 0")
    case True
    then have "denote (tags B (vx_filter ix)) e = {}" using l B by simp
    then show ?thesis using True assms(6) by (simp add: vivy_search_filtered_def Let_def nearest_def)
  next
    case False
    then show ?thesis
      using vivy_collect_exact [OF assms(1,3,4,7), of k "Some ?bm"] assms(6)
      by (simp add: vivy_search_filtered_def Let_def hits)
  qed
qed

text \<open>C17: Filtered search is exact in the same way while every shard holds at most 33 unsealed entries and
  no entry is at a NaN distance from the query: it returns the nearest \<open>k\<close> of exactly those entries whose
  id satisfies the filter expression over the tags of the index, the empty answer when none does. (Larger
  shards are searched approximately.)\<close>

theorem vivy_filtered_search_exact:
  assumes "order_ok R" "bitmap_ok R B" "vivy_wf R m ix" "small_shards ix" "filter_wf (vx_filter ix)"
    and "length q = vx_dims ix" "\<forall>(i, v)\<in>set (vivy_entries ix). \<not> is_nan (compute m q v)"
  shows "\<exists>hits. vivy_search_filtered R q k (Some e) ix = Ok hits
     \<and> nearest k (map (\<lambda>(i, v). (i, compute m q v))
          (filter (\<lambda>(i, v). i \<in> denote (tags B (vx_filter ix)) e) (vivy_entries ix))) hits"
  by (rule vivy_filtered_exact [OF assms])

theorem vivy_filtered_search_exact_witness:
  "\<exists>hits. vivy_search_filtered demo_runtime [f_two] 3 (Some (FEquals ''color'' ''red'')) demo_index = Ok hits
     \<and> nearest 3 [(5, compute L2 [f_two] [f_one])] hits"
proof -
  have f: "vx_filter demo_index = filter_of demo_runtime [(5, ''color'', ''red'')]" by (simp add: demo_index_def)
  have "denote (tags (\<lambda>b. b) (vx_filter demo_index)) (FEquals ''color'' ''red'') = {5}"
    unfolding f filter_of_tags [OF demo_bitmap_ok] by simp
  moreover have "filter_wf (vx_filter demo_index)" unfolding f by (rule filter_of_wf)
  ultimately show ?thesis
    using vivy_filtered_search_exact [OF demo_order_ok demo_bitmap_ok demo_index_facts(1,2) _ _ demo_index_facts(5),
        of 3 "FEquals ''color'' ''red''"]
    by (simp add: demo_index_facts(3,4))
qed

end
