(* ===== verification/Vivy_Durable.thy ===== *)
theory Vivy_Durable
  imports Vivy_Entries
begin

text \<open>
  What survives a crash of the engine: the relation between one data directory with its log and the
  entries of the index, kept by insertion and compaction, and what opening rebuilds from the files.
\<close>

section \<open>The durable state\<close>

definition wal_pair :: "wal_entry \<Rightarrow> u64 \<times> f32 list" where
  "wal_pair e = (case e of WalInsert i v \<Rightarrow> (i, v))"

lemma wal_pair_simp [simp]: "wal_pair (WalInsert i v) = (i, v)"
  by (simp add: wal_pair_def)

text \<open>A committed log of \<open>es\<close>: nothing waits in the buffer.\<close>

definition holds_log :: "wal_entry list \<Rightarrow> wal_writer \<Rightarrow> bool" where
  "holds_log es w \<longleftrightarrow> ww_wf w \<and> ww_buf w = [] \<and> ww_disk w = wal_log es"

definition logged :: "'b runtime \<Rightarrow> nat \<Rightarrow> wal_entry list \<Rightarrow> bool" where
  "logged R n es \<longleftrightarrow> (\<forall>e\<in>set es. wal_readable R e \<and> length (snd (wal_pair e)) = n)"

text \<open>The segments that the manifest of a directory names, or none when nothing was ever sealed.\<close>

definition named :: "data_dir \<Rightarrow> sealed_segment list \<Rightarrow> bool" where
  "named d segs \<longleftrightarrow>
     manifest_load None d = Ok None \<and> segs = []
     \<or> (\<exists>m. manifest_load None d = Ok (Some m) \<and> manifest_ok m
          \<and> list_all2 (\<lambda>name s. open_file None name d = Ok s) (mf_segments m) segs)"

text \<open>Without a manifest, opening would take every segment file it finds.\<close>

definition seals :: "data_dir \<Rightarrow> sealed_segment list \<Rightarrow> bool" where
  "seals d segs \<longleftrightarrow> named d segs \<and> (manifest_load None d = Ok None \<longrightarrow> scan_dir d = [])"

definition backed :: "'b runtime \<Rightarrow> 'b vivy_index \<Rightarrow> wal_entry list \<Rightarrow> bool" where
  "backed R ix es \<longleftrightarrow>
     (\<exists>w d. vx_wal ix = Some w \<and> vx_dir ix = Some d \<and> holds_log es w \<and> logged R (vx_dims ix) es \<and> seals d (vx_sealed ix))"

text \<open>The log holds the entries of the shards.\<close>

definition durable :: "'b runtime \<Rightarrow> 'b vivy_index \<Rightarrow> bool" where
  "durable R ix \<longleftrightarrow> (\<exists>es. backed R ix es \<and> mset (delta_entries ix) = mset (map wal_pair es))"

section \<open>Insertion\<close>

lemma wal_appends_one: "length fs = length es \<Longrightarrow> ww_wf w \<Longrightarrow> wal_appends fs es w = (w1, Ok ()) \<Longrightarrow>
    ww_wf w1 \<and> ww_stream w1 = ww_stream w @ wal_log es"
  using wal_appends_writes [of w fs es] by (auto simp: writes_def)

lemma vivy_log_logged:
  assumes "vivy_log lf es ix = (ix', Ok ())" "vx_wal ix = Some w" "holds_log old w"
  obtains w' where "ix' = ix\<lparr> vx_wal := Some w' \<rparr>" "holds_log (old @ es) w'"
proof -
  obtain w1 w2 where 1: "wal_appends (map (lf_append lf) [0..<length es]) es w = (w1, Ok ())"
    and 2: "wal_commit (lf_commit lf) w1 = (w2, Ok ())" and ix': "ix' = ix\<lparr> vx_wal := Some w2 \<rparr>"
    using assms(1,2)
    by (cases "wal_appends (map (lf_append lf) [0..<length es]) es w";
        cases "snd (wal_appends (map (lf_append lf) [0..<length es]) es w)")
      (auto simp: vivy_log_def outcome_iff split: prod.splits)
  have "ww_wf w1 \<and> ww_stream w1 = wal_log (old @ es)"
    using wal_appends_one [OF _ _ 1] assms(3) by (simp add: holds_log_def ww_stream_def)
  then have "holds_log (old @ es) w2" using wal_commit_Ok [OF _ 2] by (simp add: holds_log_def)
  with ix' show thesis by (rule that)
qed

text \<open>An insertion whose log write and shard insertion both succeed.\<close>

lemma insert_backed:
  assumes R: "order_ok R" and wf: "vivy_wf R m ix" and b: "backed R ix es"
    and log: "vivy_log lf [WalInsert i v] (ix\<lparr> vx_next_id := k \<rparr>) = (ix1, Ok ())"
    and shard: "shard_insert R r i v ix1 = (ix', Ok ())"
    and v: "length v = vx_dims ix" "wal_readable R (WalInsert i v)"
  shows "vivy_wf R m ix' \<and> backed R ix' (es @ [WalInsert i v]) \<and> vx_sealed ix' = vx_sealed ix \<and> vx_dims ix' = vx_dims ix
    \<and> vx_dir ix' = vx_dir ix \<and> mset (delta_entries ix') = add_mset (i, v) (mset (delta_entries ix))"
proof -
  obtain w d where d: "vx_wal ix = Some w" "vx_dir ix = Some d" "holds_log es w" "logged R (vx_dims ix) es" "seals d (vx_sealed ix)"
    using b by (auto simp: backed_def)
  have "vx_wal (ix\<lparr> vx_next_id := k \<rparr>) = Some w" using d(1) by simp
  from vivy_log_logged [OF log this d(3)] obtain w' where
    ix1: "ix1 = ix\<lparr> vx_next_id := k, vx_wal := Some w' \<rparr>" and w': "holds_log (es @ [WalInsert i v]) w'" by auto
  have "vivy_wf R m ix1" using wf by (simp add: vivy_wf_def ix1)
  with shard_insert_spec [OF R, where m = m and ix = ix1 and v = v and r = r and i = i] shard v(1)
  have ins: "shard_inserted R m ix1 i v ix'" by (simp add: ix1)
  then obtain shards where ix': "ix' = ix1\<lparr> vx_shards := shards \<rparr>" and wf': "vivy_wf R m ix'"
    and m: "mset (delta_entries ix') = add_mset (i, v) (mset (delta_entries ix))"
    by (auto simp: shard_inserted_def ix1 delta_entries_def)
  have "backed R ix' (es @ [WalInsert i v])" using d w' v by (simp add: backed_def ix' ix1 logged_def)
  then show ?thesis using wf' m by (simp add: ix' ix1)
qed

lemma and_then_Ok: "and_then m f = (s', Ok y) \<longleftrightarrow> (\<exists>s x. m = (s, Ok x) \<and> f s x = (s', Ok y))"
  by (cases m; cases "snd m") auto

lemma vivy_insert_backed:
  assumes "order_ok R" "vivy_wf R m ix" "backed R ix es" "wal_readable R (WalInsert (vx_next_id ix) v)"
    and "vivy_insert R r lf v ix = (ix', Ok i)"
  shows "i = vx_next_id ix \<and> vivy_wf R m ix' \<and> backed R ix' (es @ [WalInsert i v]) \<and> vx_sealed ix' = vx_sealed ix
    \<and> vx_dims ix' = vx_dims ix \<and> vx_dir ix' = vx_dir ix \<and> mset (delta_entries ix') = add_mset (i, v) (mset (delta_entries ix))"
proof -
  have v: "length v = vx_dims ix" using assms(5) by (auto simp: vivy_insert_def split: if_splits)
  obtain ix1 where i: "i = vx_next_id ix"
    and 1: "vivy_log lf [WalInsert (vx_next_id ix) v] (ix\<lparr> vx_next_id := vx_next_id ix + 1 \<rparr>) = (ix1, Ok ())"
    and 2: "shard_insert R r (vx_next_id ix) v ix1 = (ix', Ok ())"
    using assms(5) v by (auto simp: vivy_insert_def Let_def and_then_Ok)
  show ?thesis using insert_backed [OF assms(1-3) 1 2 v assms(4)] i by simp
qed

lemma vivy_insert_with_id_backed:
  assumes "order_ok R" "vivy_wf R m ix" "backed R ix es" "wal_readable R (WalInsert i v)"
    and "vivy_insert_with_id R r lf i v ix = (ix', Ok ())"
  shows "vivy_wf R m ix' \<and> backed R ix' (es @ [WalInsert i v]) \<and> vx_sealed ix' = vx_sealed ix
    \<and> vx_dims ix' = vx_dims ix \<and> vx_dir ix' = vx_dir ix \<and> mset (delta_entries ix') = add_mset (i, v) (mset (delta_entries ix))"
proof -
  have v: "length v = vx_dims ix" using assms(5) by (auto simp: vivy_insert_with_id_def split: if_splits)
  then obtain ix1 where 1: "vivy_log lf [WalInsert i v] (ix\<lparr> vx_next_id := max (vx_next_id ix) (saturating_succ i) \<rparr>) = (ix1, Ok ())"
    and 2: "shard_insert R r i v ix1 = (ix', Ok ())"
    using assms(5) by (auto simp: vivy_insert_with_id_def and_then_Ok)
  show ?thesis by (rule insert_backed [OF assms(1-3) 1 2 v assms(4)])
qed

lemma wal_commit_disk:
  assumes "ww_wf w"
  shows "prefix (ww_disk w) (ww_disk (fst (wal_commit cf w))) \<and> prefix (ww_disk (fst (wal_commit cf w))) (ww_stream w)"
proof -
  obtain w1 r1 where 1: "flush_buf (fst cf) w = (w1, r1)" by fastforce
  have "ww_disk (fst (wal_commit cf w)) = ww_disk w1"
    by (cases r1; cases "snd cf") (simp_all add: wal_commit_def 1)
  moreover have "writes [] w (w1, r1)" using flush_buf_writes [OF assms, of "fst cf"] by (simp add: 1)
  then have "prefix (ww_disk w) (ww_disk w1)" "ww_stream w1 = ww_stream w" by (auto simp: writes_def)
  moreover have "prefix (ww_disk w1) (ww_stream w1)" by (simp add: ww_stream_def)
  ultimately show ?thesis by simp
qed

text \<open>A log write that fails leaves a prefix of the new records behind the old ones.\<close>

lemma vivy_log_cut:
  assumes "vivy_log lf es ix = (ix', res)" "vx_wal ix = Some w" "holds_log old w"
  obtains w' r where "ix' = ix\<lparr> vx_wal := Some w' \<rparr>" "ww_disk w' = wal_log old @ r" "prefix r (wal_log es)"
proof -
  obtain w1 r1 where 1: "wal_appends (map (lf_append lf) [0..<length es]) es w = (w1, r1)" by fastforce
  obtain w2 r2 where 2: "wal_commit (lf_commit lf) w1 = (w2, r2)" by fastforce
  have w: "ww_wf w" "ww_disk w = wal_log old" "ww_stream w = wal_log old"
    using assms(3) by (auto simp: holds_log_def ww_stream_def)
  have "writes (wal_log es) w (w1, r1)" using wal_appends_writes [OF w(1), of "map (lf_append lf) [0..<length es]" es] by (simp add: 1)
  then obtain d where d: "ww_wf w1" "prefix (wal_log old) (ww_disk w1)" "prefix d (wal_log es)" "ww_stream w1 = wal_log old @ d"
    using w by (auto simp: writes_def)
  have "prefix (ww_disk w1) (ww_disk w2)" "prefix (ww_disk w2) (ww_stream w1)"
    using wal_commit_disk [OF d(1), of "lf_commit lf"] by (simp_all add: 2)
  then have disk: "prefix (wal_log old) (ww_disk w')" "prefix (ww_disk w') (wal_log old @ d)" if "w' = w1 \<or> w' = w2" for w'
    using that d(2,4) by (auto simp: ww_stream_def intro: prefix_order.trans)
  define w' where "w' = (if r1 = Ok () then w2 else w1)"
  have "ix' = ix\<lparr> vx_wal := Some w' \<rparr>"
    using assms(1,2) 1 2 by (cases r1) (auto simp: vivy_log_def w'_def)
  moreover have "w' = w1 \<or> w' = w2" by (simp add: w'_def)
  from disk [OF this] obtain r where "ww_disk w' = wal_log old @ r" "prefix r d" by (auto simp: prefix_def)
  ultimately show thesis using that d(3) prefix_order.trans by blast
qed

section \<open>Compaction\<close>

text \<open>The segment that a compaction writes.\<close>

definition segment_of :: "nat \<Rightarrow> (u64 \<times> f32 list) list \<Rightarrow> seg_writer" where
  "segment_of n es = (seg_writer_new (word_of_nat n) 16 32)\<lparr> sw_nodes := map (\<lambda>(i, v). (i, 0, [[]], v)) es \<rparr>"

lemma push_all_Ok: "push_all es sw = Ok sw' \<Longrightarrow> sw' = sw\<lparr> sw_nodes := sw_nodes sw @ map (\<lambda>(i, v). (i, 0, [[]], v)) es \<rparr>"
proof (induction es arbitrary: sw)
  case (Cons e es)
  obtain i v where e: "e = (i, v)" by fastforce
  from Cons(2) have "push_all es (sw\<lparr> sw_nodes := sw_nodes sw @ [(i, 0, [[]], v)] \<rparr>) = Ok sw'"
    by (auto simp: push_all_def seg_push_def e split: if_splits)
  from Cons(1) [OF this] show ?case by (simp add: e)
qed (simp add: push_all_def)

lemma push_all_total:
  "\<forall>(i, v)\<in>set es. length v = unat (sh_dims (sw_header sw)) \<Longrightarrow>
    push_all es sw = Ok (sw\<lparr> sw_nodes := sw_nodes sw @ map (\<lambda>(i, v). (i, 0, [[]], v)) es \<rparr>)"
proof (induction es arbitrary: sw)
  case (Cons e es)
  obtain i v where e: "e = (i, v)" by fastforce
  from Cons.IH [of "sw\<lparr> sw_nodes := sw_nodes sw @ [(i, 0, [[]], v)] \<rparr>"] Cons.prems
  show ?case by (simp add: push_all_def seg_push_def e)
qed (simp add: push_all_def)

lemma push_segment:
  assumes "seg_writer_ok (segment_of n es)"
  shows "push_all es (seg_writer_new (word_of_nat n) 16 32) = Ok (segment_of n es)"
proof -
  have "\<forall>(i, v)\<in>set es. length v = unat (sh_dims (sw_header (seg_writer_new (word_of_nat n) 16 32)))"
    using assms by (auto simp: seg_writer_ok_def segment_of_def seg_node_ok_def)
  from push_all_total [OF this] show ?thesis by (simp add: segment_of_def seg_writer_new_def)
qed

lemma drain_shards_entries:
  assumes "\<forall>h\<in>set shards. hnsw_wf h"
  shows "drain_shards shards = Ok (concat (map hnsw_entries shards))"
proof -
  have "hnsw_drain h = Ok (h', es) \<Longrightarrow> es = hnsw_entries h" "\<exists>h'. hnsw_drain h = Ok (h', hnsw_entries h)" if "h \<in> set shards" for h h' es
    using assms that hnsw_snapshot_entries [of h] by (auto simp: hnsw_wf_def hnsw_drain_def)
  then have "ofold (\<lambda>acc h. obind (hnsw_drain h) (\<lambda>(_, snap). Ok (acc @ snap))) [] shards
    = Ok (foldl (\<lambda>acc h. acc @ hnsw_entries h) [] shards)"
    by (intro ofold_total) force
  then show ?thesis by (simp add: drain_shards_def foldl_append_map)
qed

lemma write_segment_Ok:
  "write_segment cf n name es d = (d1, Ok ()) \<Longrightarrow> d1 = put_file name (seg_file (segment_of n es)) d"
  by (auto simp: write_segment_def segment_of_def seg_write_file seg_writer_new_def dest!: push_all_Ok
      split: option.splits outcome.splits)

lemma manifest_save_Ok: "manifest_save stop m d = (d', Ok ()) \<Longrightarrow> d' = d\<lparr> dd_tmp := None, dd_manifest := Some (manifest_text m) \<rparr>"
  by (auto simp: manifest_save_def split: option.splits save_stop.splits)

lemma map_of_put_file:
  "map_of (dd_files (put_file name bs d)) = (map_of (dd_files d))(name \<mapsto> bs)"
  by (simp add: put_file_def AList.update_conv')

text \<open>The name of a segment survives the manifest.\<close>

lemma nat_str_chars: "set (nat_str n) \<subseteq> set (map (\<lambda>k. char_of (48 + k)) [0..<10])"
proof (induction n rule: nat_str.induct)
  case (1 n)
  then show ?case by (subst nat_str.simps) auto
qed

lemma seg_filename_ok: "mf_name_ok (seg_filename ts)"
proof -
  have "33 \<le> (of_char c :: nat) \<and> (of_char c :: nat) < 128" if "c \<in> set (seg_filename ts)" for c
    using that nat_str_chars [of "unat ts"] by (auto simp: seg_filename_def)
  then have "list_all (\<lambda>c. (of_char c :: nat) < 128) (seg_filename ts)" "nl \<notin> set (seg_filename ts)"
    by (fastforce simp: list_all_iff)+
  moreover have "trim (seg_filename ts) = seg_filename ts"
    by (rule trim_visible) (simp_all add: seg_filename_def)
  ultimately show ?thesis by (simp add: mf_name_ok_def valid_utf8_ascii) (simp add: seg_filename_def)
qed

lemma record_segment_Ok:
  assumes "record_segment cf name d = (d', Ok ())" "named d segs" "cf_load cf \<noteq> Some IoNotFound" "mf_name_ok name"
  obtains m where "manifest_ok m" "list_all2 (\<lambda>n s. open_file None n d = Ok s) (mf_segments m) segs"
    "d' = d\<lparr> dd_tmp := None, dd_manifest := Some (manifest_text (manifest_new (mf_segments m @ [name]))) \<rparr>"
    "manifest_ok (manifest_new (mf_segments m @ [name]))"
proof -
  from assms(1) obtain mf where mf: "manifest_load (cf_load cf) d = Ok mf"
    by (auto simp: record_segment_def outcome_iff split: outcome.splits)
  then have "cf_load cf = None" using assms(3) by (auto simp: manifest_load_def split: option.splits if_splits)
  with mf have load: "manifest_load None d = Ok mf" by simp
  let ?m = "case mf of None \<Rightarrow> manifest_new [] | Some m \<Rightarrow> m"
  have m: "manifest_ok ?m" "list_all2 (\<lambda>n s. open_file None n d = Ok s) (mf_segments ?m) segs"
    using assms(2) load by (auto simp: named_def manifest_ok_def manifest_new_def)
  have "manifest_save (cf_save cf) (manifest_new (mf_segments ?m @ [name])) d = (d', Ok ())"
    using assms(1) mf by (cases mf; cases "manifest_save (cf_save cf) (manifest_new (mf_segments ?m @ [name])) d")
      (auto simp: record_segment_def Let_def manifest_new_def outcome_iff)
  from manifest_save_Ok [OF this] show thesis
    using that [OF m] m(1) assms(4) by (simp add: manifest_ok_def manifest_new_def)
qed

lemma reset_log_Ok:
  assumes "reset_log cf ix = (ix', Ok ())" "vx_wal ix = Some w" "ww_buf w = []"
  obtains w' where "ix' = ix\<lparr> vx_wal := Some w' \<rparr>" "holds_log [] w'"
proof -
  have "ww_disk (fst (flush_buf flt (w\<lparr> ww_disk := [] \<rparr>))) = []" for flt
    using assms(3) by (auto simp: flush_buf_def put_disk_def write_at_def split: option.splits)
  then show thesis using assms(1,2) that
    by (auto simp: reset_log_def wal_reset_def Let_def holds_log_def ww_wf_def split: option.splits)
qed


lemma open_put_file:
  assumes "name \<notin> fst ` set (dd_files d)" "open_file None n d = Ok s"
  shows "open_file None n (put_file name bs d) = Ok s"
proof -
  have "map_of (dd_files d) name = None" using assms(1) by (simp add: map_of_eq_None_iff)
  then show ?thesis using assms(2) by (cases "n = name") (simp_all add: open_file_def map_of_put_file seg_open_def)
qed

lemma named_put_file: "named d segs \<Longrightarrow> name \<notin> fst ` set (dd_files d) \<Longrightarrow> named (put_file name bs d) segs"
proof -
  assume a: "named d segs" "name \<notin> fst ` set (dd_files d)"
  have load: "manifest_load None (put_file name bs d) = manifest_load None d" by (simp add: manifest_load_def put_file_def)
  have "list_all2 (\<lambda>n s. open_file None n (put_file name bs d) = Ok s) ns segs"
    if "list_all2 (\<lambda>n s. open_file None n d = Ok s) ns segs" for ns
    using that by (rule list_all2_mono) (rule open_put_file [OF a(2)])
  with a(1) show ?thesis unfolding named_def load by blast
qed

lemma seals_added:
  assumes "named d segs" "seg_writer_ok sw" "name \<notin> fst ` set (dd_files d)" "mf_name_ok name" "cf_load cf \<noteq> Some IoNotFound"
    and "record_segment cf name (put_file name (seg_file sw) d) = (d2, Ok ())"
  shows "seals d2 (segs @ [seg_of_writer sw]) \<and> open_file None name d2 = Ok (seg_of_writer sw)"
proof -
  let ?d1 = "put_file name (seg_file sw) d"
  obtain m where mok: "manifest_ok m" and m: "list_all2 (\<lambda>n s. open_file None n ?d1 = Ok s) (mf_segments m) segs"
    and d2: "d2 = ?d1\<lparr> dd_tmp := None, dd_manifest := Some (manifest_text (manifest_new (mf_segments m @ [name]))) \<rparr>"
    and ok: "manifest_ok (manifest_new (mf_segments m @ [name]))"
    by (rule record_segment_Ok [OF assms(6) named_put_file [OF assms(1,3)] assms(5,4)])
  have files: "open_file None n d2 = open_file None n ?d1" for n by (simp add: d2 open_file_def)
  have new: "open_file None name d2 = Ok (seg_of_writer sw)"
    unfolding files by (simp add: open_file_def map_of_put_file seg_open_def seg_open_written [OF assms(2)])
  have "manifest_load None d2 = Ok (Some (manifest_new (mf_segments m @ [name])))"
    by (rule manifest_load_saved [OF ok]) (simp add: d2)
  moreover have "list_all2 (\<lambda>n s. open_file None n d2 = Ok s) (mf_segments (manifest_new (mf_segments m @ [name]))) (segs @ [seg_of_writer sw])"
    using m new by (simp add: manifest_new_def files list_all2_appendI)
  ultimately show ?thesis unfolding seals_def named_def using ok new by simp
qed

text \<open>What a compaction relies on: a timestamp of its own, sizes that fit the format, and a load of the
  manifest that does not report an existing file as missing.\<close>

definition compactable :: "compaction_faults \<Rightarrow> u64 \<Rightarrow> data_dir \<Rightarrow> 'b vivy_index \<Rightarrow> bool" where
  "compactable cf ts d ix \<longleftrightarrow> seg_filename ts \<notin> fst ` set (dd_files d)
     \<and> seg_writer_ok (segment_of (vx_dims ix) (delta_entries ix)) \<and> cf_load cf \<noteq> Some IoNotFound"

lemma segment_entries:
  assumes "seg_writer_ok (segment_of n es)"
  shows "seg_clean (seg_of_writer (segment_of n es)) \<and> seg_entries (seg_of_writer (segment_of n es)) = es"
  using written_entries [OF assms] by (simp add: segment_of_def o_def case_prod_unfold)

lemma shards_new_wf:
  "vivy_wf R m ix \<Longrightarrow> vivy_wf R m (ix\<lparr> vx_shards := map (\<lambda>_. hnsw_new R (vx_dims ix) m) (vx_shards ix) \<rparr>)"
  using shard_ok_new by (auto simp: vivy_wf_def)

lemma new_shards_empty: "concat (map hnsw_entries (map (\<lambda>_. hnsw_new R n m) hs)) = []"
  by (simp add: hnsw_entries_def hnsw_new_def o_def)

lemma compaction_backed:
  assumes wf: "vivy_wf R m ix" and b: "backed R ix es" and dir: "vx_dir ix = Some d" and c: "compactable cf ts d ix"
    and run: "run_compaction R cf ts m d ix = (ix', Ok ())"
  shows "vivy_wf R m ix' \<and> backed R ix' (if delta_entries ix = [] then es else []) \<and> vx_dims ix' = vx_dims ix
    \<and> delta_entries ix' = [] \<and> mset (vivy_entries ix') = mset (vivy_entries ix)"
proof -
  let ?es = "delta_entries ix" let ?ix0 = "ix\<lparr> vx_shards := map (\<lambda>_. hnsw_new R (vx_dims ix) m) (vx_shards ix) \<rparr>"
  obtain w where w: "vx_wal ix = Some w" "holds_log es w" "logged R (vx_dims ix) es" "seals d (vx_sealed ix)"
    "named d (vx_sealed ix)"
    using b dir by (auto simp: backed_def seals_def)
  have drain: "drain_shards (vx_shards ix) = Ok ?es"
    using wf by (simp add: drain_shards_entries vivy_wf_def shard_ok_def delta_entries_def)
  have empty: "delta_entries ?ix0 = []" by (simp add: delta_entries_def new_shards_empty del: map_map)
  show ?thesis
  proof (cases "?es = []")
    case True
    then have ix': "ix' = ?ix0" using run by (simp add: run_compaction_def drain Let_def)
    have "backed R ix' es" using w dir by (simp add: ix' backed_def)
    then show ?thesis using shards_new_wf [OF wf] empty True by (simp add: ix' vivy_entries_def sealed_entries_def)
  next
    case False
    let ?sw = "segment_of (vx_dims ix) ?es" let ?name = "seg_filename ts"
    obtain d1 d2 ix3 seg where
      1: "write_segment cf (vx_dims ix) ?name ?es d = (d1, Ok ())" and 2: "record_segment cf ?name d1 = (d2, Ok ())"
      and 3: "reset_log cf (set_dir d2 (set_dir d1 ?ix0)) = (ix3, Ok ())"
      and 4: "open_file (cf_open cf) ?name d2 = Ok seg" and ix': "ix' = ix3\<lparr> vx_sealed := vx_sealed ix3 @ [seg] \<rparr>"
      using run False by (auto simp: run_compaction_def drain Let_def and_then_Ok outcome_iff split: prod.splits)
    note d1 = write_segment_Ok [OF 1]
    have s: "seals d2 (vx_sealed ix @ [seg_of_writer ?sw])" "open_file None ?name d2 = Ok (seg_of_writer ?sw)"
      using seals_added [OF w(5) _ _ seg_filename_ok _ 2 [unfolded d1]] c by (simp_all add: compactable_def)
    have seg: "seg = seg_of_writer ?sw" using 4 s(2) by (auto simp: open_file_def seg_open_def split: option.splits)
    have "vx_wal (set_dir d2 (set_dir d1 ?ix0)) = Some w" using w(1) by (simp add: set_dir_def)
    from reset_log_Ok [OF 3 this] w(2) obtain w' where
      ix3: "ix3 = (set_dir d2 (set_dir d1 ?ix0))\<lparr> vx_wal := Some w' \<rparr>" and w': "holds_log [] w'"
      by (auto simp: holds_log_def)
    have fields: "vx_dims ix' = vx_dims ix" "vx_dir ix' = Some d2" "vx_wal ix' = Some w'" "vx_shards ix' = vx_shards ?ix0"
      "vx_sealed ix' = vx_sealed ix @ [seg]" by (simp_all add: ix' ix3 set_dir_def)
    have delta: "delta_entries ix' = []" using empty by (simp add: delta_entries_def fields)
    have e: "seg_clean seg" "seg_entries seg = ?es" using segment_entries c by (simp_all add: compactable_def seg)
    have "vivy_wf R m ix'" using shards_new_wf [OF wf] e(1) by (auto simp: vivy_wf_def fields)
    moreover have "backed R ix' []" using w' s(1) by (simp add: backed_def fields seg logged_def)
    ultimately show ?thesis using delta e(2) False by (simp add: fields(1) vivy_entries_def sealed_entries_def fields(5))
  qed
qed

section \<open>Opening again\<close>

text \<open>Opening on the files that a crash leaves: what is on disk of the log, and the directory.\<close>

definition reopen :: "'b runtime \<Rightarrow> (nat \<Rightarrow> f32) \<Rightarrow> save_stop option \<Rightarrow> metric \<Rightarrow> 'b vivy_index \<Rightarrow> (wal_error, 'b vivy_index) outcome" where
  "reopen R rnd stop m ix =
     vivy_new R rnd None stop (vx_dims ix) m (Some (map_option ww_disk (vx_wal ix))) (vx_dir ix)"

lemma replay_entry_shard:
  assumes "vivy_wf R m ix"
  shows "replay_entry R (vx_shards ix, nx) (r, WalInsert i v) =
    (case shard_insert R r i v ix of (ix', res) \<Rightarrow> obind res (\<lambda>_. Ok (vx_shards ix', bump_id nx i)))"
  using assms shard_idx_lt [of R i]
  by (cases "hnsw_insert R r i v (vx_shards ix ! shard_idx R i num_shards)")
    (simp_all add: replay_entry_def shard_insert_def vivy_wf_def Let_def)

lemma replay_entries:
  assumes "order_ok R" "vivy_wf R m ix" "\<forall>e\<in>set es. length (snd (wal_pair e)) = vx_dims ix" "length rs = length es"
  shows "case ofold (replay_entry R) (vx_shards ix, nx) (zip rs es) of
      Ok (shards, nx') \<Rightarrow> vivy_wf R m (ix\<lparr> vx_shards := shards \<rparr>)
        \<and> mset (delta_entries (ix\<lparr> vx_shards := shards \<rparr>)) = mset (delta_entries ix) + mset (map wal_pair es)
    | Err e \<Rightarrow> False
    | Panic \<Rightarrow> \<not> (dists_ok m (map snd (delta_entries ix) @ map (\<lambda>e. snd (wal_pair e)) es) \<and> (\<forall>r\<in>set rs. level_ok R (vx_dims ix) m r))"
  using assms(2-4)
proof (induction es arbitrary: ix nx rs)
  case Nil
  then show ?case by simp
next
  case (Cons e es)
  obtain i v where e: "e = WalInsert i v" by (cases e)
  obtain r rs' where rs: "rs = r # rs'" "length rs' = length es" using Cons.prems(3) by (cases rs) auto
  have v: "length v = vx_dims ix" using Cons.prems(2) by (simp add: e)
  note spec = shard_insert_spec [OF assms(1) Cons.prems(1) v, where r = r and i = i]
  obtain ix1 res where run: "shard_insert R r i v ix = (ix1, res)" by fastforce
  note step = replay_entry_shard [OF Cons.prems(1), of nx r i v, unfolded run prod.case]
  show ?case
  proof (cases res)
    case (Ok u)
    then obtain shards where ix1: "ix1 = ix\<lparr> vx_shards := shards \<rparr>" and wf1: "vivy_wf R m ix1"
      and m1: "mset (delta_entries ix1) = add_mset (i, v) (mset (delta_entries ix))"
      using spec run by (auto simp: shard_inserted_def)
    have "\<forall>e\<in>set es. length (snd (wal_pair e)) = vx_dims ix1" using Cons.prems(2) by (simp add: ix1)
    note IH = Cons.IH [OF wf1 this rs(2), of "bump_id nx i"]
    have sub: "dists_ok m (map snd (delta_entries ix) @ map (\<lambda>e. snd (wal_pair e)) (e # es)) \<Longrightarrow>
        dists_ok m (map snd (delta_entries ix1) @ map (\<lambda>e. snd (wal_pair e)) es)"
      using mset_eq_set [of "delta_entries ix1" "(i, v) # delta_entries ix"] m1
      by (elim dists_ok_subset) (auto simp: e)
    show ?thesis using IH sub m1
      by (auto simp: rs e step [unfolded e] Ok ix1 delta_entries_def split: outcome.splits prod.splits)
  next
    case (Err x)
    then show ?thesis using spec run by simp
  next
    case Panic
    then have "\<not> (vivy_dists_ok m ix [v] \<and> level_ok R (vx_dims ix) m r)" using spec run by simp
    then have "\<not> (dists_ok m (map snd (delta_entries ix) @ map (\<lambda>e. snd (wal_pair e)) (e # es)) \<and> level_ok R (vx_dims ix) m r)"
      unfolding vivy_dists_ok_def e dists_ok_def by auto
    then show ?thesis by (auto simp: rs e step [unfolded e] Panic)
  qed
qed

lemma ofold_exists: "(\<And>x s. x \<in> set xs \<Longrightarrow> \<exists>s'. f s x = Ok s') \<Longrightarrow> \<exists>t. ofold f s xs = Ok t"
proof (induction xs arbitrary: s)
  case (Cons x xs)
  from Cons.prems [of x s] obtain s' where "f s x = Ok s'" by auto
  then show ?case using Cons.IH [of s'] Cons.prems by simp
qed simp

lemma load_segments:
  assumes "list_all2 (\<lambda>n s. open_file None n d = Ok s) names segs" "\<forall>s\<in>set segs. seg_clean s"
  shows "\<exists>nx'. ofold (load_segment d) (nx, acc) names = Ok (nx', acc @ segs)"
  using assms
proof (induction arbitrary: nx acc rule: list_all2_induct)
  case (Cons n ns s ss)
  have "\<exists>t. ofold (\<lambda>next idx. case seg_id_at s idx of
                     Ok i \<Rightarrow> Ok (bump_id next i) | Err e \<Rightarrow> Ok next | Panic \<Rightarrow> Panic) nx [0..<ss_num_nodes s] = (Ok t :: u64 vresult)"
    by (rule ofold_exists) (use Cons.prems in \<open>auto simp: seg_clean_def split: outcome.splits\<close>)
  then obtain t where t: "load_segment d (nx, acc) n = Ok (t, acc @ [s])" using Cons.hyps(1) by (auto simp: load_segment_def)
  then show ?case using Cons.IH [of t "acc @ [s]"] Cons.prems by auto
qed simp

lemma manifest_segments_seals:
  assumes "seals d segs"
  obtains names where "manifest_segments stop d = (d, names)" "list_all2 (\<lambda>n s. open_file None n d = Ok s) names segs"
  using assms by (auto simp: seals_def named_def manifest_segments_def Let_def)

lemma wal_bytes_nonempty: "wal_bytes e \<noteq> []"
  by (cases e) (simp add: wal_bytes_def)

text \<open>Opening on a log of \<open>es\<close> and a directory in which \<open>segs\<close> are found.\<close>

lemma open_dir:
  assumes R: "order_ok R" and es: "logged R n es" and clean: "\<forall>s\<in>set segs. seg_clean s"
    and names: "manifest_segments stop d = (d', names)" "list_all2 (\<lambda>n s. open_file None n d' = Ok s) names segs" "seals d' segs"
    and wal: "f = Some (wal_log es) \<or> f = None \<and> es = []"
  shows "case vivy_new R rnd None stop n m (Some f) (Some d) of
      Ok ix \<Rightarrow> vivy_wf R m ix \<and> backed R ix es \<and> vx_dims ix = n \<and> vx_sealed ix = segs
        \<and> mset (delta_entries ix) = mset (map wal_pair es)
    | Err e \<Rightarrow> False
    | Panic \<Rightarrow> \<not> (dists_ok m (map (\<lambda>e. snd (wal_pair e)) es) \<and> (\<forall>k. level_ok R n m (rnd k)))"
proof -
  let ?new = "map (\<lambda>_. hnsw_new R n m) [0..<num_shards]" let ?rs = "map rnd [0..<length es]"
  define ix0 where "ix0 = \<lparr> vx_dims = n, vx_shards = ?new, vx_sealed = [], vx_filter = filter_new :: 'a filter_index,
    vx_wal = None, vx_next_id = 1, vx_dir = None \<rparr>"
  have ix0: "vx_shards ix0 = ?new" "vx_dims ix0 = n" "delta_entries ix0 = []"
    by (simp_all add: ix0_def delta_entries_def new_shards_empty del: map_map)
  have wf0: "vivy_wf R m ix0" using shard_ok_new by (auto simp: vivy_wf_def ix0_def)
  have "\<forall>e\<in>set es. length (snd (wal_pair e)) = vx_dims ix0" using es by (simp add: logged_def ix0)
  note replay = replay_entries [OF R wf0 this, of ?rs 1, unfolded ix0(1)]
  have log: "wal_replay R (case f of None \<Rightarrow> Err IoNotFound | Some bs \<Rightarrow> Ok bs) = (es, Ok ())"
  proof -
    have "wal_replay R (Ok (wal_log es)) = (es, Ok ())" using es by (simp add: logged_def replay_log)
    then show ?thesis using wal by (auto simp: wal_replay_def)
  qed
  obtain w where w: "wal_open None f = Ok w" "holds_log es w"
    using wal by (auto simp: wal_open_def holds_log_def ww_wf_def Let_def)
  show ?thesis
  proof (cases "ofold (replay_entry R) (?new, 1) (zip ?rs es) :: (hnsw list \<times> u64) vresult")
    case (Ok st)
    obtain shards nx where st: "st = (shards, nx)" by fastforce
    from load_segments [OF names(2) clean, of nx "[]"] obtain nx' where
      load: "ofold (load_segment d') (nx, []) names = Ok (nx', segs)" by auto
    let ?ix = "\<lparr> vx_dims = n, vx_shards = shards, vx_sealed = segs, vx_filter = filter_new,
                    vx_wal = Some w, vx_next_id = nx', vx_dir = Some d' \<rparr>"
    have run: "vivy_new R rnd None stop n m (Some f) (Some d) = Ok ?ix"
      by (simp add: vivy_new_def log w(1) Ok st names(1) load Let_def)
    from replay Ok st have r: "vivy_wf R m (ix0\<lparr> vx_shards := shards \<rparr>)"
      "mset (delta_entries (ix0\<lparr> vx_shards := shards \<rparr>)) = mset (map wal_pair es)" by (simp_all add: ix0(3))
    have "mset (delta_entries ?ix) = mset (map wal_pair es)" using r(2) by (simp add: delta_entries_def)
    moreover have "vivy_wf R m ?ix" using r(1) clean by (simp add: vivy_wf_def ix0_def)
    moreover have "backed R ?ix es" using w(2) es names(3) by (simp add: backed_def)
    ultimately show ?thesis by (simp add: run)
  next
    case (Err e)
    then show ?thesis using replay by simp
  next
    case Panic
    then have "vivy_new R rnd None stop n m (Some f) (Some d) = Panic"
      by (simp add: vivy_new_def log Let_def)
    then show ?thesis using replay Panic by (auto simp: ix0)
  qed
qed

lemma open_files:
  assumes "order_ok R" "logged R n es" "seals d segs" "\<forall>s\<in>set segs. seg_clean s" "f = Some (wal_log es) \<or> f = None \<and> es = []"
  shows "case vivy_new R rnd None stop n m (Some f) (Some d) of
      Ok ix \<Rightarrow> vivy_wf R m ix \<and> backed R ix es \<and> vx_dims ix = n \<and> vx_sealed ix = segs
        \<and> mset (delta_entries ix) = mset (map wal_pair es)
    | Err e \<Rightarrow> False
    | Panic \<Rightarrow> \<not> (dists_ok m (map (\<lambda>e. snd (wal_pair e)) es) \<and> (\<forall>k. level_ok R n m (rnd k)))"
  using assms(3)
proof (rule manifest_segments_seals [where stop = stop])
  fix names assume "manifest_segments stop d = (d, names)" "list_all2 (\<lambda>n s. open_file None n d = Ok s) names segs"
  then show ?thesis by (intro open_dir [OF assms(1,2,4) _ _ assms(3,5)])
qed

lemma reopen_spec:
  assumes R: "order_ok R" and wf: "vivy_wf R m ix" and b: "backed R ix es"
  shows "case reopen R rnd stop m ix of
      Ok ix' \<Rightarrow> vivy_wf R m ix' \<and> backed R ix' es \<and> vx_dims ix' = vx_dims ix \<and> vx_sealed ix' = vx_sealed ix
        \<and> mset (delta_entries ix') = mset (map wal_pair es)
    | Err e \<Rightarrow> False
    | Panic \<Rightarrow> \<not> (dists_ok m (map (\<lambda>e. snd (wal_pair e)) es) \<and> (\<forall>k. level_ok R (vx_dims ix) m (rnd k)))"
proof -
  obtain w d where d: "vx_wal ix = Some w" "vx_dir ix = Some d" "holds_log es w" "logged R (vx_dims ix) es" "seals d (vx_sealed ix)"
    using b by (auto simp: backed_def)
  have "reopen R rnd stop m ix = vivy_new R rnd None stop (vx_dims ix) m (Some (Some (wal_log es))) (Some d)"
    using d(3) by (simp add: reopen_def d(1,2) holds_log_def)
  moreover have "\<forall>s\<in>set (vx_sealed ix). seg_clean s" using wf by (simp add: vivy_wf_def)
  ultimately show ?thesis
    using open_files [OF R d(4,5), where f = "Some (wal_log es)" and rnd = rnd and stop = stop and m = m] by simp
qed

text \<open>A log whose last record was cut short: opening fails; else it holds a prefix of the records.\<close>

lemma open_cut:
  assumes R: "order_ok R" and es: "logged R n (old @ es)" and d: "seals d segs" and clean: "\<forall>s\<in>set segs. seg_clean s"
    and r: "prefix r (wal_log es)" and new: "vivy_new R rnd None stop n m (Some (Some (wal_log old @ r))) (Some d) = Ok ix"
  shows "\<exists>k\<le>length es. vivy_wf R m ix \<and> backed R ix (old @ take k es) \<and> vx_dims ix = n \<and> vx_sealed ix = segs
    \<and> mset (delta_entries ix) = mset (map wal_pair (old @ take k es))"
proof -
  have "\<forall>e\<in>set (old @ es). wal_readable R e" using es by (simp add: logged_def)
  from replay_prefix_clean [OF this r] obtain k res where
    k: "k \<le> length es" "wal_replay R (Ok (wal_log old @ r)) = (old @ take k es, res)" "res = Ok () \<longrightarrow> r = wal_log (take k es)"
    by blast
  have "res = Ok ()" using new k(2) by (auto simp: vivy_new_def Let_def outcome_iff)
  then have eq: "wal_log old @ r = wal_log (old @ take k es)" using k(3) by simp
  have "logged R n (old @ take k es)" using es by (auto simp: logged_def dest: in_set_takeD)
  from open_files [OF R this d clean, where f = "Some (wal_log old @ r)" and rnd = rnd and stop = stop and m = m] k(1) new eq show ?thesis by auto
qed

section \<open>Compactions that are cut short\<close>

text \<open>The directory leads the next opening to \<open>segs\<close>, through the manifest or by its file names.\<close>

definition leads_to :: "data_dir \<Rightarrow> sealed_segment list \<Rightarrow> bool" where
  "leads_to d segs \<longleftrightarrow> (\<exists>d' names. manifest_segments None d = (d', names)
     \<and> list_all2 (\<lambda>n s. open_file None n d' = Ok s) names segs \<and> seals d' segs)"

lemma seals_leads: "seals d segs \<Longrightarrow> leads_to d segs"
  using manifest_segments_seals [of d segs None] unfolding leads_to_def by metis

lemma seals_tmp [simp]: "seals (d\<lparr> dd_tmp := t \<rparr>) segs = seals d segs"
  by (simp add: seals_def named_def manifest_load_def scan_dir_def open_file_def)

lemma seals_put_file:
  "seals d segs \<Longrightarrow> name \<notin> fst ` set (dd_files d) \<Longrightarrow> dd_manifest d \<noteq> None \<Longrightarrow> seals (put_file name bs d) segs"
proof -
  assume a: "seals d segs" "name \<notin> fst ` set (dd_files d)" "dd_manifest d \<noteq> None"
  have "manifest_load None d \<noteq> Ok None"
    using a(3) by (auto simp: manifest_load_def outcome_iff split: list.splits if_splits)
  moreover have "manifest_load None (put_file name bs d) = manifest_load None d" by (simp add: manifest_load_def put_file_def)
  ultimately show ?thesis using named_put_file [OF _ a(2)] a(1) by (simp add: seals_def)
qed

text \<open>A segment that was written into a directory without a manifest is found by its name.\<close>

lemma scan_put_file:
  assumes "scan_dir d = []" "seg_filename ts \<notin> fst ` set (dd_files d)"
  shows "scan_dir (put_file (seg_filename ts) bs d) = [seg_filename ts]"
proof -
  have "filter (\<lambda>n. has_ext_vivy n \<and> valid_utf8 n) (map fst (dd_files d)) = []"
    using arg_cong [OF assms(1), of set] by (auto simp: scan_dir_def filter_empty_conv)
  moreover have "suffix ''.vivy'' (seg_filename ts)" unfolding seg_filename_def suffix_def by (rule exI [of _ "''seg-'' @ nat_str (unat ts)"]) simp
  then have "has_ext_vivy (seg_filename ts)" by (simp add: has_ext_vivy_def) (simp add: seg_filename_def)
  moreover have "valid_utf8 (seg_filename ts)" using seg_filename_ok by (simp add: mf_name_ok_def)
  ultimately show ?thesis by (simp add: scan_dir_def put_file_def update_fresh [OF assms(2)])
qed

lemma written_leads:
  assumes "seals d segs" "seg_filename ts \<notin> fst ` set (dd_files d)" "seg_writer_ok sw"
  shows "leads_to ((put_file (seg_filename ts) (seg_file sw) d)\<lparr> dd_tmp := t \<rparr>) segs
    \<or> leads_to ((put_file (seg_filename ts) (seg_file sw) d)\<lparr> dd_tmp := t \<rparr>) (segs @ [seg_of_writer sw])"
proof (cases "dd_manifest d")
  case None
  let ?name = "seg_filename ts" let ?d = "(put_file ?name (seg_file sw) d)\<lparr> dd_tmp := t \<rparr>"
  let ?d' = "?d\<lparr> dd_tmp := None, dd_manifest := Some (manifest_text (manifest_new [?name])) \<rparr>"
  have load: "manifest_load None d = Ok None" by (simp add: manifest_load_def None)
  then have "segs = []" "scan_dir d = []" using assms(1) by (auto simp: seals_def named_def)
  have "scan_dir ?d = [?name]" using scan_put_file [OF \<open>scan_dir d = []\<close> assms(2), of "seg_file sw"] by (simp add: scan_dir_def)
  then have ms: "manifest_segments None ?d = (?d', [?name])"
    by (simp add: manifest_segments_def manifest_load_def put_file_def None manifest_save_def Let_def)
  have ok: "manifest_ok (manifest_new [?name])" using seg_filename_ok by (simp add: manifest_ok_def manifest_new_def)
  have op: "open_file None ?name ?d' = Ok (seg_of_writer sw)"
    by (simp add: open_file_def map_of_put_file seg_open_def seg_open_written [OF assms(3)])
  have "manifest_load None ?d' = Ok (Some (manifest_new [?name]))" by (rule manifest_load_saved [OF ok]) simp
  then have "seals ?d' [seg_of_writer sw]" using ok op by (simp add: seals_def named_def manifest_new_def)
  then show ?thesis using ms op \<open>segs = []\<close> unfolding leads_to_def by fastforce
next
  case (Some s)
  then have "seals (put_file (seg_filename ts) (seg_file sw) d) segs" using assms(1,2) by (intro seals_put_file) simp_all
  then show ?thesis using seals_leads by (metis seals_tmp)
qed

lemma record_segment_Err: "record_segment cf name d = (d', Err e) \<Longrightarrow> \<exists>t. d' = d\<lparr> dd_tmp := t \<rparr>"
  by (auto simp: record_segment_def manifest_save_def Let_def intro: exI [of _ "dd_tmp d"]
      split: outcome.splits option.splits save_stop.splits prod.splits)

text \<open>Wherever a compaction stops, the log still holds what the segment does not.\<close>

lemma compaction_stopped:
  assumes wf: "vivy_wf R m ix" and b: "backed R ix es" and dir: "vx_dir ix = Some d" and c: "compactable cf ts d ix"
    and safe: "cf_write cf = None \<or> dd_manifest d \<noteq> None" and run: "run_compaction R cf ts m d ix = (ix1, Err e)"
  defines "seg \<equiv> seg_of_writer (segment_of (vx_dims ix) (delta_entries ix))"
  shows "\<exists>w d1 es1 segs. vx_wal ix1 = Some w \<and> vx_dir ix1 = Some d1 \<and> vx_dims ix1 = vx_dims ix \<and> holds_log es1 w
    \<and> leads_to d1 segs \<and> (es1 = es \<and> segs = vx_sealed ix \<or> es1 \<in> {es, []} \<and> segs = vx_sealed ix @ [seg])"
proof -
  let ?es = "delta_entries ix" let ?ix0 = "ix\<lparr> vx_shards := map (\<lambda>_. hnsw_new R (vx_dims ix) m) (vx_shards ix) \<rparr>"
  let ?sw = "segment_of (vx_dims ix) ?es" let ?name = "seg_filename ts"
  obtain w where w: "vx_wal ix = Some w" "holds_log es w" "seals d (vx_sealed ix)" "named d (vx_sealed ix)"
    using b dir by (auto simp: backed_def seals_def)
  have ok: "?name \<notin> fst ` set (dd_files d)" "seg_writer_ok ?sw" "cf_load cf \<noteq> Some IoNotFound"
    using c by (simp_all add: compactable_def)
  have drain: "drain_shards (vx_shards ix) = Ok ?es"
    using wf by (simp add: drain_shards_entries vivy_wf_def shard_ok_def delta_entries_def)
  then have ne: "?es \<noteq> []" using run by (auto simp: run_compaction_def)
  obtain d1 res1 where 1: "write_segment cf (vx_dims ix) ?name ?es d = (d1, res1)" by fastforce
  show ?thesis
  proof (cases res1)
    case (Err x)
    then have "ix1 = set_dir d1 ?ix0" using run ne by (simp add: run_compaction_def drain 1 Let_def)
    moreover have "d1 = d \<or> dd_manifest d \<noteq> None \<and> (\<exists>bs. d1 = put_file ?name bs d)"
      using 1 Err safe by (auto simp: write_segment_def push_segment [OF ok(2)] split: option.splits)
    then have "leads_to d1 (vx_sealed ix)" using w(3) seals_put_file [OF w(3) ok(1)] seals_leads by metis
    ultimately show ?thesis using w(1,2) by (auto simp: set_dir_def)
  next
    case Panic
    then show ?thesis using run ne by (simp add: run_compaction_def drain 1 Let_def)
  next
    case (Ok u)
    then have d1: "d1 = put_file ?name (seg_file ?sw) d" using write_segment_Ok 1 by simp
    obtain d2 res2 where 2: "record_segment cf ?name d1 = (d2, res2)" by fastforce
    show ?thesis
    proof (cases res2)
      case (Err x)
      then have ix1: "ix1 = set_dir d2 (set_dir d1 ?ix0)" using run ne Ok by (simp add: run_compaction_def drain 1 2 Let_def)
      obtain tmp where "d2 = d1\<lparr> dd_tmp := tmp \<rparr>" using record_segment_Err 2 Err by blast
      then have "leads_to d2 (vx_sealed ix) \<or> leads_to d2 (vx_sealed ix @ [seg])"
        using written_leads [OF w(3) ok(1,2), of tmp] by (simp add: d1 seg_def)
      then show ?thesis using w(1,2) by (auto simp: ix1 set_dir_def)
    next
      case Panic
      then show ?thesis using run ne Ok by (simp add: run_compaction_def drain 1 2 Let_def)
    next
      case (Ok u')
      let ?ix2 = "set_dir d2 (set_dir d1 ?ix0)"
      have "seals d2 (vx_sealed ix @ [seg])"
        using seals_added [OF w(4) ok(2,1) seg_filename_ok ok(3)] 2 Ok by (simp add: d1 seg_def)
      then have leads: "leads_to d2 (vx_sealed ix @ [seg])" by (rule seals_leads)
      have wal: "vx_wal ?ix2 = Some w" using w(1) by (simp add: set_dir_def)
      obtain ix3 res3 where 3: "reset_log cf ?ix2 = (ix3, res3)" by fastforce
      show ?thesis
      proof (cases res3)
        case (Ok u'')
        then obtain w' where ix3: "ix3 = ?ix2\<lparr> vx_wal := Some w' \<rparr>" "holds_log [] w'"
          using reset_log_Ok [OF _ wal] 3 w(2) by (auto simp: holds_log_def)
        have "ix1 = ix3" using run ne 1 2 3 \<open>res1 = Ok u\<close> \<open>res2 = Ok u'\<close> Ok
          by (cases "open_file (cf_open cf) ?name d2") (simp_all add: run_compaction_def drain Let_def)
        then show ?thesis using ix3 leads by (auto simp: set_dir_def)
      next
        case (Err x)
        then have "ix1 = ix3" using run ne 1 2 3 \<open>res1 = Ok u\<close> \<open>res2 = Ok u'\<close> by (simp add: run_compaction_def drain Let_def)
        moreover have "ix3 = ?ix2" using 3 Err wal by (auto simp: reset_log_def wal_reset_def Let_def split: option.splits)
        ultimately show ?thesis using leads w(1,2) by (auto simp: set_dir_def)
      next
        case Panic
        then show ?thesis using run ne 1 2 3 \<open>res1 = Ok u\<close> \<open>res2 = Ok u'\<close> by (simp add: run_compaction_def drain Let_def)
      qed
    qed
  qed
qed

section \<open>Histories\<close>

text \<open>
  The life of one data directory: created empty, then insertions and compactions that succeed, and crashes
  followed by opening again. A crash comes between two calls, in the log write of an insertion (wherever
  it is cut), or in a compaction, at any of its steps. One step is left out: while the file of the very
  first segment is being written, when there is no manifest yet, the next opening would take the file as
  it is. The life goes on after a crash when the opening succeeds: a log that was cut inside a record is
  refused, and the opening after a cut compaction is not itself cut. \<open>A\<close> collects the insertions that were
  accepted; \<open>U\<close> what may be in the index beyond them: insertions that were tried and not accepted, and
  second copies of what a compaction held when it was cut.
\<close>

inductive history ::
  "'b runtime \<Rightarrow> metric \<Rightarrow> nat \<Rightarrow> 'b vivy_index \<Rightarrow> (u64 \<times> f32 list) multiset \<Rightarrow> (u64 \<times> f32 list) multiset \<Rightarrow> bool"
  for R m n where
  created: "vivy_new R rnd None stop n m (Some None) (Some d) = Ok ix \<Longrightarrow> dd_manifest d = None \<Longrightarrow> dd_files d = [] \<Longrightarrow>
    history R m n ix {#} {#}"
| inserted: "history R m n ix A U \<Longrightarrow> wal_readable R (WalInsert (vx_next_id ix) v) \<Longrightarrow>
    vivy_insert R r lf v ix = (ix', Ok i) \<Longrightarrow> history R m n ix' (add_mset (i, v) A) U"
| put: "history R m n ix A U \<Longrightarrow> wal_readable R (WalInsert i v) \<Longrightarrow>
    vivy_insert_with_id R r lf i v ix = (ix', Ok ()) \<Longrightarrow> history R m n ix' (add_mset (i, v) A) U"
| compacted: "history R m n ix A U \<Longrightarrow> vx_dir ix = Some d \<Longrightarrow> compactable cf ts d ix \<Longrightarrow>
    run_compaction R cf ts m d ix = (ix', Ok ()) \<Longrightarrow> history R m n ix' A U"
| crashed: "history R m n ix A U \<Longrightarrow> reopen R rnd stop m ix = Ok ix' \<Longrightarrow> history R m n ix' A U"
| insert_cut: "history R m n ix A U \<Longrightarrow> wal_readable R (WalInsert (vx_next_id ix) v) \<Longrightarrow>
    vivy_insert R r lf v ix = (ix1, Err e) \<Longrightarrow> reopen R rnd stop m ix1 = Ok ix' \<Longrightarrow>
    history R m n ix' A (add_mset (vx_next_id ix, v) U)"
| put_cut: "history R m n ix A U \<Longrightarrow> wal_readable R (WalInsert i v) \<Longrightarrow>
    vivy_insert_with_id R r lf i v ix = (ix1, Err e) \<Longrightarrow> reopen R rnd stop m ix1 = Ok ix' \<Longrightarrow>
    history R m n ix' A (add_mset (i, v) U)"
| compaction_cut: "history R m n ix A U \<Longrightarrow> vx_dir ix = Some d \<Longrightarrow> compactable cf ts d ix \<Longrightarrow>
    cf_write cf = None \<or> dd_manifest d \<noteq> None \<Longrightarrow>
    run_compaction R cf ts m d ix = (ix1, Err e) \<Longrightarrow> reopen R rnd None m ix1 = Ok ix' \<Longrightarrow>
    history R m n ix' A (U + mset (delta_entries ix))"

definition kept :: "'b runtime \<Rightarrow> metric \<Rightarrow> nat \<Rightarrow> 'b vivy_index \<Rightarrow> (u64 \<times> f32 list) multiset \<Rightarrow> bool" where
  "kept R m n ix M \<longleftrightarrow> vivy_wf R m ix \<and> durable R ix \<and> vx_dims ix = n \<and> mset (vivy_entries ix) = M"

lemma kept_backed:
  assumes "kept R m n ix M"
  obtains es where "vivy_wf R m ix" "backed R ix es" "vx_dims ix = n" "mset (delta_entries ix) = mset (map wal_pair es)"
    "M = mset (delta_entries ix) + mset (sealed_entries ix)"
  using assms by (auto simp: kept_def durable_def vivy_entries_def)

lemma keptI:
  "vivy_wf R m ix \<Longrightarrow> backed R ix es \<Longrightarrow> vx_dims ix = n \<Longrightarrow> mset (delta_entries ix) = mset (map wal_pair es) \<Longrightarrow>
    kept R m n ix (mset (delta_entries ix) + mset (sealed_entries ix))"
  by (auto simp: kept_def durable_def vivy_entries_def)

lemma kept_inserted:
  assumes "kept R m n ix M"
    and "\<And>es. vivy_wf R m ix \<Longrightarrow> backed R ix es \<Longrightarrow> vivy_wf R m ix' \<and> backed R ix' (es @ [WalInsert i v])
      \<and> vx_sealed ix' = vx_sealed ix \<and> vx_dims ix' = vx_dims ix
      \<and> mset (delta_entries ix') = add_mset (i, v) (mset (delta_entries ix))"
  shows "kept R m n ix' (add_mset (i, v) M)"
  using assms(1)
proof (rule kept_backed)
  fix es assume b: "vivy_wf R m ix" "backed R ix es" and eq: "vx_dims ix = n" "mset (delta_entries ix) = mset (map wal_pair es)"
    "M = mset (delta_entries ix) + mset (sealed_entries ix)"
  note r = assms(2) [OF b]
  then have "kept R m n ix' (mset (delta_entries ix') + mset (sealed_entries ix'))"
    by (intro keptI [of _ _ _ "es @ [WalInsert i v]"]) (simp_all add: eq)
  then show ?thesis using r eq by (simp add: sealed_entries_def)
qed

lemma kept_reopened:
  assumes "order_ok R" "kept R m n ix M" "reopen R rnd stop m ix = Ok ix'"
  shows "kept R m n ix' M"
  using assms(2)
proof (rule kept_backed)
  fix es assume b: "vivy_wf R m ix" "backed R ix es" and eq: "vx_dims ix = n" "mset (delta_entries ix) = mset (map wal_pair es)"
    "M = mset (delta_entries ix) + mset (sealed_entries ix)"
  from reopen_spec [OF assms(1) b, of rnd stop] assms(3)
  have r: "vivy_wf R m ix'" "backed R ix' es" "vx_dims ix' = vx_dims ix" "vx_sealed ix' = vx_sealed ix"
    "mset (delta_entries ix') = mset (map wal_pair es)" by simp_all
  have "kept R m n ix' (mset (delta_entries ix') + mset (sealed_entries ix'))"
    by (rule keptI [OF r(1,2)]) (simp_all add: r eq)
  then show ?thesis by (simp add: r eq sealed_entries_def)
qed

text \<open>An insertion that is cut after its log write was tried.\<close>

lemma kept_cut:
  assumes R: "order_ok R" and k: "kept R m n ix M" and e: "wal_readable R (WalInsert i v)" and v: "length v = vx_dims ix"
    and log: "vivy_log lf [WalInsert i v] (ix\<lparr> vx_next_id := nx \<rparr>) = (ix0, res)"
    and ins: "and_then (ix0, res) (\<lambda>ix _. shard_insert R r i v ix) = (ix1, Err x)" and re: "reopen R rnd stop m ix1 = Ok ix'"
  shows "kept R m n ix' M \<or> kept R m n ix' (add_mset (i, v) M)"
proof -
  let ?e = "WalInsert i v" let ?ix = "ix\<lparr> vx_next_id := nx \<rparr>"
  obtain es where b: "vivy_wf R m ix" "backed R ix es" and eq: "vx_dims ix = n" "mset (delta_entries ix) = mset (map wal_pair es)"
    "M = mset (delta_entries ix) + mset (sealed_entries ix)" using k by (rule kept_backed)
  obtain w d where d: "vx_wal ix = Some w" "vx_dir ix = Some d" "holds_log es w" "logged R (vx_dims ix) es" "seals d (vx_sealed ix)"
    using b(2) by (auto simp: backed_def)
  have "vx_wal ?ix = Some w" using d(1) by simp
  from vivy_log_cut [OF log this d(3)] obtain w' q where
    ix0: "ix0 = ?ix\<lparr> vx_wal := Some w' \<rparr>" and w': "ww_disk w' = wal_log es @ q" "prefix q (wal_log [?e])" by blast
  have wf0: "vivy_wf R m ix0" using b(1) by (simp add: ix0 vivy_wf_def)
  have "ix1 = ix0"
  proof (cases res)
    case (Ok u)
    then have s: "shard_insert R r i v ix0 = (ix1, Err x)" using ins by simp
    then show ?thesis
      using shard_insert_spec [OF R wf0, where v = v and r = r and i = i] v by (simp add: ix0)
  qed (use ins in simp_all)
  then have "vivy_new R rnd None stop n m (Some (Some (wal_log es @ q))) (Some d) = Ok ix'"
    using re d(2) eq(1) by (simp add: reopen_def ix0 w'(1))
  moreover have "logged R n (es @ [?e])" using d(4) e v eq(1) by (simp add: logged_def)
  moreover have "\<forall>s\<in>set (vx_sealed ix). seg_clean s" using b(1) by (simp add: vivy_wf_def)
  ultimately obtain k where "k \<le> length [?e]" and r: "vivy_wf R m ix'" "backed R ix' (es @ take k [?e])" "vx_dims ix' = n"
    "vx_sealed ix' = vx_sealed ix" "mset (delta_entries ix') = mset (map wal_pair (es @ take k [?e]))"
    using open_cut [OF R _ d(5) _ w'(2)] by blast
  from keptI [OF r(1-3) r(5)] \<open>k \<le> length [?e]\<close> show ?thesis
    by (cases k) (auto simp: r(4,5) eq sealed_entries_def)
qed

lemma kept_insert_cut:
  assumes "order_ok R" "kept R m n ix M" "wal_readable R (WalInsert (vx_next_id ix) v)"
    and "vivy_insert R r lf v ix = (ix1, Err x)" "reopen R rnd stop m ix1 = Ok ix'"
  shows "kept R m n ix' M \<or> kept R m n ix' (add_mset (vx_next_id ix, v) M)"
proof (cases "length v = vx_dims ix")
  case True
  obtain ix0 res where log: "vivy_log lf [WalInsert (vx_next_id ix) v] (ix\<lparr> vx_next_id := vx_next_id ix + 1 \<rparr>) = (ix0, res)" by fastforce
  have "and_then (ix0, res) (\<lambda>ix' _. shard_insert R r (vx_next_id ix) v ix') = (ix1, Err x)"
    using assms(4) True log
    by (cases res; cases "shard_insert R r (vx_next_id ix) v ix0"; cases "snd (shard_insert R r (vx_next_id ix) v ix0)")
      (auto simp: vivy_insert_def Let_def)
  from kept_cut [OF assms(1-3) True log this assms(5)] show ?thesis .
next
  case False
  then have "ix1 = ix" using assms(4) by (simp add: vivy_insert_def)
  then show ?thesis using kept_reopened [OF assms(1,2)] assms(5) by simp
qed

lemma kept_put_cut:
  assumes "order_ok R" "kept R m n ix M" "wal_readable R (WalInsert i v)"
    and "vivy_insert_with_id R r lf i v ix = (ix1, Err x)" "reopen R rnd stop m ix1 = Ok ix'"
  shows "kept R m n ix' M \<or> kept R m n ix' (add_mset (i, v) M)"
proof (cases "length v = vx_dims ix")
  case True
  obtain ix0 res where log: "vivy_log lf [WalInsert i v] (ix\<lparr> vx_next_id := max (vx_next_id ix) (saturating_succ i) \<rparr>) = (ix0, res)" by fastforce
  have "and_then (ix0, res) (\<lambda>ix' _. shard_insert R r i v ix') = (ix1, Err x)"
    using assms(4) True log by (cases res) (auto simp: vivy_insert_with_id_def)
  from kept_cut [OF assms(1-3) True log this assms(5)] show ?thesis .
next
  case False
  then have "ix1 = ix" using assms(4) by (simp add: vivy_insert_with_id_def)
  then show ?thesis using kept_reopened [OF assms(1,2)] assms(5) by simp
qed

text \<open>A compaction that is cut: nothing is lost, and what it held may be there twice.\<close>

lemma kept_compaction_cut:
  assumes R: "order_ok R" and k: "kept R m n ix M" and c: "vx_dir ix = Some d" "compactable cf ts d ix"
      "cf_write cf = None \<or> dd_manifest d \<noteq> None" "run_compaction R cf ts m d ix = (ix1, Err e)"
    and re: "reopen R rnd None m ix1 = Ok ix'"
  shows "kept R m n ix' M \<or> kept R m n ix' (M + mset (delta_entries ix))"
proof -
  let ?seg = "seg_of_writer (segment_of (vx_dims ix) (delta_entries ix))"
  obtain es where b: "vivy_wf R m ix" "backed R ix es" and eq: "vx_dims ix = n" "mset (delta_entries ix) = mset (map wal_pair es)"
    "M = mset (delta_entries ix) + mset (sealed_entries ix)" using k by (rule kept_backed)
  obtain w d1 es1 segs where 1: "vx_wal ix1 = Some w" "vx_dir ix1 = Some d1" "vx_dims ix1 = vx_dims ix" "holds_log es1 w"
    and leads: "leads_to d1 segs" and cs: "es1 = es \<and> segs = vx_sealed ix \<or> es1 \<in> {es, []} \<and> segs = vx_sealed ix @ [?seg]"
    using compaction_stopped [OF b c] by blast
  obtain d' names where ms: "manifest_segments None d1 = (d', names)" "list_all2 (\<lambda>n s. open_file None n d' = Ok s) names segs"
    "seals d' segs" using leads by (auto simp: leads_to_def)
  have seg: "seg_clean ?seg" "seg_entries ?seg = delta_entries ix" using segment_entries c(2) by (simp_all add: compactable_def)
  have clean: "\<forall>s\<in>set segs. seg_clean s" using cs b(1) seg(1) by (auto simp: vivy_wf_def)
  have "logged R n es1" using b(2) cs eq(1) by (auto simp: backed_def logged_def)
  moreover have "vivy_new R rnd None None n m (Some (Some (wal_log es1))) (Some d1) = Ok ix'"
    using re 1 eq(1) by (simp add: reopen_def holds_log_def)
  ultimately have r: "vivy_wf R m ix'" "backed R ix' es1" "vx_dims ix' = n" "vx_sealed ix' = segs"
    "mset (delta_entries ix') = mset (map wal_pair es1)"
    using open_dir [OF R _ clean ms, where n = n and es = es1 and f = "Some (wal_log es1)" and rnd = rnd and m = m] by simp_all
  from keptI [OF r(1-3) r(5)] show ?thesis
    using cs by (auto simp: r(4,5) eq sealed_entries_def seg(2) [unfolded eq(1)] ac_simps)
qed

lemma kept_more:
  assumes "K \<subseteq># U" "kept R m n ix (A + K) \<or> kept R m n ix (A + K + N)"
  shows "\<exists>K'. K' \<subseteq># U + N \<and> kept R m n ix (A + K')"
  using assms(2)
proof
  assume "kept R m n ix (A + K)"
  moreover have "K \<subseteq># U + N" by (rule subset_mset.order_trans [OF assms(1)]) simp
  ultimately show ?thesis by blast
next
  assume "kept R m n ix (A + K + N)"
  moreover have "K + N \<subseteq># U + N" using assms(1) by simp
  ultimately show ?thesis by (metis add.assoc)
qed

lemma kept_beside:
  assumes "K \<subseteq># U" "kept R m n ix (A + K) \<or> kept R m n ix (add_mset e (A + K))"
  shows "\<exists>K'. K' \<subseteq># add_mset e U \<and> kept R m n ix (A + K')"
  using kept_more [OF assms(1), of R m n ix A "{#e#}"] assms(2) by simp

lemma history_kept: "history R m n ix A U \<Longrightarrow> order_ok R \<Longrightarrow> \<exists>K. K \<subseteq># U \<and> kept R m n ix (A + K)"
proof (induction rule: history.induct)
  case (created rnd stop d ix)
  have "logged R n []" "seals d []"
    using created(2,3) by (simp_all add: logged_def seals_def named_def manifest_load_def scan_dir_def)
  from open_files [OF created(4) this, where f = None and rnd = rnd and stop = stop and m = m] created(1)
  have "vivy_wf R m ix" "backed R ix []" "vx_dims ix = n" "vx_sealed ix = []" "delta_entries ix = []" by simp_all
  then have "kept R m n ix {#}" by (auto simp: kept_def durable_def vivy_entries_def sealed_entries_def intro: exI [of _ "[]"])
  then show ?case by simp
next
  case (inserted ix A U v r lf ix' i)
  then obtain K where K: "K \<subseteq># U" "kept R m n ix (A + K)" by blast
  have "kept R m n ix' (add_mset (i, v) (A + K))"
    by (rule kept_inserted [OF K(2)]) (use vivy_insert_backed [OF inserted(5) _ _ inserted(2,3)] in blast)
  then show ?case using K(1) by auto
next
  case (put ix A U i v r lf ix')
  then obtain K where K: "K \<subseteq># U" "kept R m n ix (A + K)" by blast
  have "kept R m n ix' (add_mset (i, v) (A + K))"
    by (rule kept_inserted [OF K(2)]) (use vivy_insert_with_id_backed [OF put(5) _ _ put(2,3)] in blast)
  then show ?case using K(1) by auto
next
  case (compacted ix A U d cf ts ix')
  then obtain K where K: "K \<subseteq># U" "kept R m n ix (A + K)" by blast
  from K(2) have "kept R m n ix' (A + K)"
  proof (rule kept_backed)
    fix es assume b: "vivy_wf R m ix" "backed R ix es" and eq: "vx_dims ix = n" "mset (delta_entries ix) = mset (map wal_pair es)"
      "A + K = mset (delta_entries ix) + mset (sealed_entries ix)"
    note c = compaction_backed [OF b compacted(2-4)]
    have "durable R ix'" unfolding durable_def
      using c eq(2) by (intro exI [of _ "if delta_entries ix = [] then es else []"]) auto
    then show ?thesis using c eq(1,3) by (auto simp: kept_def vivy_entries_def)
  qed
  then show ?case using K(1) by blast
next
  case (crashed ix A U rnd stop ix')
  then show ?case using kept_reopened by blast
next
  case (insert_cut ix A U v r lf ix1 e rnd stop ix')
  then obtain K where K: "K \<subseteq># U" "kept R m n ix (A + K)" by blast
  from kept_insert_cut [OF insert_cut(6) K(2) insert_cut(2-4)] show ?case by (rule kept_beside [OF K(1)])
next
  case (put_cut ix A U i v r lf ix1 e rnd stop ix')
  then obtain K where K: "K \<subseteq># U" "kept R m n ix (A + K)" by blast
  from kept_put_cut [OF put_cut(6) K(2) put_cut(2-4)] show ?case by (rule kept_beside [OF K(1)])
next
  case (compaction_cut ix A U d cf ts ix1 e rnd ix')
  then obtain K where K: "K \<subseteq># U" "kept R m n ix (A + K)" by blast
  from kept_compaction_cut [OF compaction_cut(8) K(2) compaction_cut(2-6)] show ?case
    by (rule kept_more [OF K(1)])
qed

section \<open>Without faults\<close>

definition no_log_faults :: log_faults where
  "no_log_faults = \<lparr> lf_append = (\<lambda>_ _. (None, None)), lf_commit = (None, None) \<rparr>"

lemma write_chunks_no_faults: "snd (write_chunks (\<lambda>_. (None, None)) cs w) = Ok ()"
proof (induction cs arbitrary: w)
  case (Cons c cs)
  have "snd (buf_write (None, None) c w) = Ok ()"
    by (simp add: buf_write_def flush_buf_def direct_write_def Let_def)
  then obtain w1 where "buf_write (None, None) c w = (w1, Ok ())" by (metis prod.collapse)
  then show ?case using Cons by simp
qed simp

lemma vivy_log_no_faults: "\<exists>ix'. vivy_log no_log_faults [e] ix = (ix', Ok ())"
proof (cases "vx_wal ix")
  case (Some w)
  obtain w' where "wal_append (\<lambda>_. (None, None)) e w = (w', Ok ())"
    unfolding wal_append_def using write_chunks_no_faults [of "wal_chunks e" w] by (metis prod.collapse)
  then show ?thesis by (simp add: vivy_log_def Some no_log_faults_def wal_commit_def flush_buf_def)
qed (simp add: vivy_log_def)

lemma vivy_insert_total:
  assumes "order_ok R" "vivy_wf R m ix" "length v = vx_dims ix" "vivy_dists_ok m ix [v]" "level_ok R (vx_dims ix) m r"
  shows "\<exists>ix'. vivy_insert R r no_log_faults v ix = (ix', Ok (vx_next_id ix))"
proof -
  let ?ix = "ix\<lparr> vx_next_id := vx_next_id ix + 1 \<rparr>"
  obtain ix1 where log: "vivy_log no_log_faults [WalInsert (vx_next_id ix) v] ?ix = (ix1, Ok ())"
    using vivy_log_no_faults by blast
  then have ix1: "ix1 = ?ix\<lparr> vx_wal := vx_wal ix1 \<rparr>"
    by (cases ix) (auto simp: vivy_log_def split: option.splits prod.splits)
  have wf: "vivy_wf R m ix1" using assms(2) by (subst ix1) (simp add: vivy_wf_def)
  obtain ix2 res where s: "shard_insert R r (vx_next_id ix) v ix1 = (ix2, res)" by fastforce
  have "vivy_dists_ok m ix1 [v]" using assms(4) by (subst ix1) (simp add: vivy_dists_ok_def delta_entries_def)
  moreover have "vx_dims ix1 = vx_dims ix" by (subst ix1) simp
  ultimately have "res = Ok ()"
    using shard_insert_spec [OF assms(1) wf, where v = v and r = r and i = "vx_next_id ix"] s assms(3,5)
    by (cases res) auto
  then show ?thesis using assms(3) log s by (simp add: vivy_insert_def Let_def)
qed

lemma compaction_total:
  assumes wf: "vivy_wf R m ix" and b: "backed R ix es" and dir: "vx_dir ix = Some d"
    and c: "compactable no_compaction_faults ts d ix"
  shows "\<exists>ix'. run_compaction R no_compaction_faults ts m d ix = (ix', Ok ())"
proof -
  let ?es = "delta_entries ix" let ?sw = "segment_of (vx_dims ix) ?es" let ?name = "seg_filename ts"
  obtain w where w: "vx_wal ix = Some w" "named d (vx_sealed ix)" using b dir by (auto simp: backed_def seals_def)
  have drain: "drain_shards (vx_shards ix) = Ok ?es"
    using wf by (simp add: drain_shards_entries vivy_wf_def shard_ok_def delta_entries_def)
  have ok: "seg_writer_ok ?sw" "?name \<notin> fst ` set (dd_files d)" using c by (simp_all add: compactable_def)
  note push = push_segment [OF ok(1)]
  have 1: "write_segment no_compaction_faults (vx_dims ix) ?name ?es d = (put_file ?name (seg_file ?sw) d, Ok ())"
    using push by (simp add: write_segment_def no_compaction_faults_def seg_write_file)
  obtain d2 where 2: "record_segment no_compaction_faults ?name (put_file ?name (seg_file ?sw) d) = (d2, Ok ())"
    using named_put_file [OF w(2) ok(2), of "seg_file ?sw"]
    by (auto simp: record_segment_def no_compaction_faults_def named_def manifest_save_def Let_def)
  have "cf_load no_compaction_faults \<noteq> Some IoNotFound" by (simp add: no_compaction_faults_def)
  from seals_added [OF w(2) ok seg_filename_ok this 2] have 4: "open_file None ?name d2 = Ok (seg_of_writer ?sw)" by simp
  have f: "cf_reset no_compaction_faults = None" "cf_open no_compaction_faults = None" by (simp_all add: no_compaction_faults_def)
  show ?thesis by (simp add: run_compaction_def drain Let_def 1 2 w(1) set_dir_def reset_log_def wal_reset_def 4 f)
qed

section \<open>Properties\<close>

text \<open>C1: No accepted insertion is lost by a crash. In the life of a data directory (insertions one by one,
  compactions that succeed, and crashes followed by an opening that succeeds: between calls, in the log
  write of an insertion wherever it is cut, and in a compaction at any step but the writing of the very
  first segment file), the index holds every accepted insertion; beside them it holds only insertions that
  were tried when a crash came and second copies of entries that a compaction held when it was cut, and of
  each no more than that; without such crashes it holds the accepted insertions exactly. A crash between
  calls is always followed by an opening that gives exactly the entries the index had: it never fails, and
  has no panic when no distance is a NaN and no level overflows. Two things are not covered: a compaction
  that fails in a process that goes on (see the last property of this file), and the opening on a log whose
  last record was cut in the middle, which is refused. (Compactions have timestamps of their own, and
  entries the sizes that the two file formats can hold.)\<close>

theorem accepted_inserts_survive:
  assumes "history R m n ix A U" "order_ok R"
  shows "(\<exists>K. K \<subseteq># U \<and> mset (vivy_entries ix) = A + K)
    \<and> (case reopen R rnd stop m ix of Ok ix' \<Rightarrow> mset (vivy_entries ix') = mset (vivy_entries ix)
       | Err e \<Rightarrow> False
       | Panic \<Rightarrow> \<not> (vivy_dists_ok m ix [] \<and> (\<forall>k. level_ok R n m (rnd k))))"
proof -
  obtain K where K: "K \<subseteq># U" "kept R m n ix (A + K)" using history_kept [OF assms] by blast
  from K(2) obtain es where b: "vivy_wf R m ix" "backed R ix es" and eq: "vx_dims ix = n" "mset (delta_entries ix) = mset (map wal_pair es)"
    by (rule kept_backed)
  have "dists_ok m (map (\<lambda>e. snd (wal_pair e)) es) \<longleftrightarrow> vivy_dists_ok m ix []"
    using mset_eq_set [OF eq(2)] by (auto simp: vivy_dists_ok_def dists_ok_def)
  then have "case reopen R rnd stop m ix of Ok ix' \<Rightarrow> mset (vivy_entries ix') = mset (vivy_entries ix)
       | Err e \<Rightarrow> False
       | Panic \<Rightarrow> \<not> (vivy_dists_ok m ix [] \<and> (\<forall>k. level_ok R n m (rnd k)))"
    using reopen_spec [OF assms(2) b, of rnd stop] eq
    by (auto simp: vivy_entries_def sealed_entries_def split: outcome.splits)
  then show ?thesis using K by (auto simp: kept_def)
qed

text \<open>The state after a compaction that fails before it has written anything.\<close>

lemma compaction_failed:
  assumes wf: "vivy_wf R m ix" and b: "backed R ix es" and dir: "vx_dir ix = Some d" and cf: "cf_create cf = Some x"
    and run: "run_compaction R cf ts m d ix = (ix1, Err e)"
  shows "vivy_wf R m ix1 \<and> backed R ix1 es \<and> delta_entries ix1 = [] \<and> vx_sealed ix1 = vx_sealed ix \<and> vx_dir ix1 = Some d
    \<and> delta_entries ix \<noteq> []"
proof -
  let ?ix0 = "ix\<lparr> vx_shards := map (\<lambda>_. hnsw_new R (vx_dims ix) m) (vx_shards ix) \<rparr>"
  have drain: "drain_shards (vx_shards ix) = Ok (delta_entries ix)"
    using wf by (simp add: drain_shards_entries vivy_wf_def shard_ok_def delta_entries_def)
  have ne: "delta_entries ix \<noteq> []" using run by (auto simp: run_compaction_def drain)
  then have ix1: "ix1 = set_dir d ?ix0"
    using run cf by (simp add: run_compaction_def drain write_segment_def Let_def split: prod.splits)
  have "delta_entries ix1 = []" by (simp add: ix1 set_dir_def delta_entries_def new_shards_empty del: map_map)
  moreover have "vivy_wf R m ix1" using shards_new_wf [OF wf] by (simp add: ix1 set_dir_def vivy_wf_def)
  moreover have "backed R ix1 es" using b dir by (simp add: ix1 set_dir_def backed_def)
  ultimately show ?thesis using ne by (simp add: ix1 set_dir_def)
qed

text \<open>C29: What a failed compaction loses. When the segment file cannot be created, the entries of the
  shards are already drained: a search does not find them any more, though the log still has them. The
  next compaction that succeeds (with anything inserted since) empties the log, so that from then on
  they are gone for good: opening gives the sealed entries and the later insertion only.\<close>

theorem failed_compaction_loses:
  assumes "history R m n ix A U" "order_ok R" "vx_dir ix = Some d"
    and "cf_create cf = Some x" "run_compaction R cf ts m d ix = (ix1, Err e)"
    and "wal_readable R (WalInsert (vx_next_id ix1) v)" "vivy_insert R r lf v ix1 = (ix2, Ok i)"
    and "compactable cf2 ts2 d ix2" "run_compaction R cf2 ts2 m d ix2 = (ix3, Ok ())"
    and "reopen R rnd stop m ix3 = Ok ix4"
  shows "delta_entries ix \<noteq> [] \<and> vivy_entries ix1 = sealed_entries ix
    \<and> mset (vivy_entries ix4) = add_mset (i, v) (mset (sealed_entries ix))"
proof -
  obtain K where "kept R m n ix (A + K)" using history_kept [OF assms(1,2)] by blast
  then obtain es where b: "vivy_wf R m ix" "backed R ix es" by (rule kept_backed)
  note f = compaction_failed [OF b assms(3-5)]
  note i = vivy_insert_backed [OF assms(2) _ _ assms(6,7), of m es]
  have 2: "vivy_wf R m ix2" "backed R ix2 (es @ [WalInsert i v])" "vx_dir ix2 = Some d" "vx_sealed ix2 = vx_sealed ix"
    "delta_entries ix2 = [(i, v)]" using f i by auto
  note c = compaction_backed [OF 2(1-3) assms(8,9)]
  have 3: "vivy_wf R m ix3" "backed R ix3 []" "delta_entries ix3 = []" "mset (vivy_entries ix3) = mset (vivy_entries ix2)"
    using c 2(5) by simp_all
  from reopen_spec [OF assms(2) 3(1,2), of rnd stop] assms(10)
  have "vx_sealed ix4 = vx_sealed ix3" "delta_entries ix4 = []" by simp_all
  then have "mset (vivy_entries ix4) = mset (vivy_entries ix2)" using 3 by (simp add: vivy_entries_def sealed_entries_def)
  then show ?thesis using f 2(4,5) by (simp add: vivy_entries_def sealed_entries_def)
qed

section \<open>A concrete history\<close>

definition demo_files :: data_dir where
  "demo_files = \<lparr> dd_manifest = None, dd_tmp = None, dd_files = [] \<rparr>"

lemma demo_wal_readable: "wal_readable demo_runtime (WalInsert i [x])"
  by (simp add: wal_readable_def demo_runtime_def)

lemma demo_level_ok: "level_ok demo_runtime n L2 f_one"
  using demo_level [of n L2] by (simp add: level_ok_def)

lemma demo_created:
  obtains ix where "history demo_runtime L2 1 ix {#} {#}" "vx_dir ix = Some demo_files"
proof -
  have d: "logged demo_runtime 1 []" "seals demo_files []"
    by (simp_all add: logged_def seals_def named_def manifest_load_def scan_dir_def demo_files_def)
  have "dists_ok L2 []" by (simp add: dists_ok_def)
  then obtain ix where ix: "vivy_new demo_runtime (\<lambda>_. f_one) None None 1 L2 (Some None) (Some demo_files) = Ok ix"
    using open_files [OF demo_order_ok d, where f = None and rnd = "\<lambda>_. f_one" and stop = None and m = L2] demo_level_ok
    by (auto split: outcome.splits)
  have "vx_dir ix = Some demo_files"
    using ix by (auto simp: vivy_new_def demo_files_def manifest_segments_def manifest_load_def scan_dir_def Let_def outcome_iff
        split: prod.splits)
  then show thesis using that created [OF ix] by (simp add: demo_files_def)
qed

text \<open>An insertion into a small demo index succeeds.\<close>

lemma demo_insert:
  assumes "vivy_wf demo_runtime L2 ix" "vx_dims ix = 1" "set (map snd (delta_entries ix)) \<subseteq> {[f_one], [f_two]}" "x = f_one \<or> x = f_two"
  shows "\<exists>ix'. vivy_insert demo_runtime f_one no_log_faults [x] ix = (ix', Ok (vx_next_id ix))"
proof (rule vivy_insert_total [OF demo_order_ok assms(1)])
  show "vivy_dists_ok L2 ix [[x]]" unfolding vivy_dists_ok_def
    by (rule dists_ok_subset [OF demo_dists]) (use assms(3,4) in auto)
qed (use assms(2) demo_level_ok in auto)

lemma demo_history:
  obtains ix i where "history demo_runtime L2 1 ix {#(i, [f_one])#} {#}" "kept demo_runtime L2 1 ix {#(i, [f_one])#}"
    "delta_entries ix = [(i, [f_one])]" "vx_sealed ix = []" "vx_dir ix = Some demo_files"
proof -
  obtain ix0 where h0: "history demo_runtime L2 1 ix0 {#} {#}" and d0: "vx_dir ix0 = Some demo_files" by (rule demo_created)
  obtain es where b: "vivy_wf demo_runtime L2 ix0" "backed demo_runtime ix0 es" "vx_dims ix0 = 1"
    and none: "delta_entries ix0 = []"
    using history_kept [OF h0 demo_order_ok] by (auto elim!: kept_backed)
  obtain ix where ix: "vivy_insert demo_runtime f_one no_log_faults [f_one] ix0 = (ix, Ok (vx_next_id ix0))"
    using demo_insert [OF b(1,3)] none by auto
  note h = inserted [OF h0 demo_wal_readable ix]
  have k: "kept demo_runtime L2 1 ix {#(vx_next_id ix0, [f_one])#}" using history_kept [OF h demo_order_ok] by auto
  note i = vivy_insert_backed [OF demo_order_ok b(1,2) demo_wal_readable ix]
  have "vx_sealed ix0 = []" using b(2) d0
    by (auto simp: backed_def seals_def named_def manifest_load_def demo_files_def)
  then show thesis using that [OF h k] i none d0 by simp
qed

definition demo_full :: compaction_faults where
  "demo_full = no_compaction_faults\<lparr> cf_create := Some (IoOther 28) \<rparr>"

lemma demo_compactable:
  assumes "delta_entries ix = [(i, [x])]" "vx_dims ix = 1"
  shows "compactable no_compaction_faults 7 demo_files ix"
  using assms by (simp add: compactable_def demo_files_def no_compaction_faults_def seg_writer_ok_def segment_of_def
      seg_writer_new_def seg_node_ok_def seg_file_def header_bytes_def final_header_def seg_magic_def node_bytes_eq)

lemma demo_full_compaction:
  obtains ix i es ix1 where "history demo_runtime L2 1 ix {#(i, [f_one])#} {#}" "vx_dir ix = Some demo_files"
    "delta_entries ix = [(i, [f_one])]" "vx_sealed ix = []" "vx_dims ix = 1"
    "vivy_wf demo_runtime L2 ix" "backed demo_runtime ix es" "map wal_pair es = [(i, [f_one])]"
    "run_compaction demo_runtime demo_full 6 L2 demo_files ix = (ix1, Err (CeIo (IoOther 28)))" "vx_dims ix1 = 1"
proof -
  obtain ix i where h: "history demo_runtime L2 1 ix {#(i, [f_one])#} {#}" and k: "kept demo_runtime L2 1 ix {#(i, [f_one])#}"
    and d: "delta_entries ix = [(i, [f_one])]" "vx_sealed ix = []" "vx_dir ix = Some demo_files" by (rule demo_history)
  from k obtain es where b: "vivy_wf demo_runtime L2 ix" "backed demo_runtime ix es" "vx_dims ix = 1"
    "mset (delta_entries ix) = mset (map wal_pair es)" by (rule kept_backed)
  have "drain_shards (vx_shards ix) = Ok [(i, [f_one])]"
    using b(1) d(1) by (simp add: drain_shards_entries vivy_wf_def shard_ok_def delta_entries_def)
  then obtain ix1 where "run_compaction demo_runtime demo_full 6 L2 demo_files ix = (ix1, Err (CeIo (IoOther 28)))" "vx_dims ix1 = 1"
    using b(3) by (simp add: run_compaction_def write_segment_def demo_full_def set_dir_def Let_def)
  then show thesis using that [OF h d(3,1,2) b(3,1,2)] b(4) d(1) by (simp flip: mset_map)
qed

text \<open>The witness: after an insertion the disk is full while the entry is compacted, the process dies, and
  opening brings the entry back.\<close>

theorem accepted_inserts_survive_witness:
  "\<exists>ix i ix1 ix'. history demo_runtime L2 1 ix {#(i, [f_one])#} {#}
    \<and> run_compaction demo_runtime demo_full 6 L2 demo_files ix = (ix1, Err (CeIo (IoOther 28)))
    \<and> vivy_entries ix1 = [] \<and> reopen demo_runtime (\<lambda>_. f_one) None L2 ix1 = Ok ix' \<and> (i, [f_one]) \<in> set (vivy_entries ix')"
proof -
  obtain ix i es ix1 where h: "history demo_runtime L2 1 ix {#(i, [f_one])#} {#}" and dir: "vx_dir ix = Some demo_files"
    and d: "delta_entries ix = [(i, [f_one])]" "vx_sealed ix = []" "vx_dims ix = 1"
    and b: "vivy_wf demo_runtime L2 ix" "backed demo_runtime ix es" "map wal_pair es = [(i, [f_one])]"
    and 1: "run_compaction demo_runtime demo_full 6 L2 demo_files ix = (ix1, Err (CeIo (IoOther 28)))" "vx_dims ix1 = 1"
    by (rule demo_full_compaction)
  have "cf_create demo_full = Some (IoOther 28)" by (simp add: demo_full_def)
  note f = compaction_failed [OF b(1,2) dir this 1(1)]
  have "map (\<lambda>e. snd (wal_pair e)) es = [[f_one]]" using arg_cong [OF b(3), of "map snd"] by (simp add: o_def)
  then have "dists_ok L2 (map (\<lambda>e. snd (wal_pair e)) es)" by (intro dists_ok_subset [OF demo_dists]) simp
  then obtain ix' where re: "reopen demo_runtime (\<lambda>_. f_one) None L2 ix1 = Ok ix'"
    using reopen_spec [OF demo_order_ok, of L2 ix1 es "\<lambda>_. f_one" None] f demo_level_ok by (auto split: outcome.splits)
  have c: "compactable demo_full 6 demo_files ix"
    using demo_compactable [OF d(1,3)] by (simp add: compactable_def demo_full_def demo_files_def)
  have "history demo_runtime L2 1 ix' {#(i, [f_one])#} ({#} + mset (delta_entries ix))"
    by (rule compaction_cut [OF h dir c _ 1(1) re]) (simp add: demo_full_def no_compaction_faults_def)
  from accepted_inserts_survive [OF this demo_order_ok] obtain K where "mset (vivy_entries ix') = {#(i, [f_one])#} + K" by blast
  then have "(i, [f_one]) \<in># mset (vivy_entries ix')" by simp
  then have "(i, [f_one]) \<in> set (vivy_entries ix')" by simp
  moreover have "vivy_entries ix1 = []" using f d(2) by (simp add: vivy_entries_def sealed_entries_def)
  ultimately show ?thesis using h 1(1) re by blast
qed

text \<open>The witness: the disk is full while the first entry is compacted; after the next compaction it is gone.\<close>

theorem failed_compaction_loses_witness:
  "\<exists>ix i ix1 ix2 k ix3 ix4. history demo_runtime L2 1 ix {#(i, [f_one])#} {#}
    \<and> run_compaction demo_runtime demo_full 6 L2 demo_files ix = (ix1, Err (CeIo (IoOther 28)))
    \<and> vivy_insert demo_runtime f_one no_log_faults [f_two] ix1 = (ix2, Ok k)
    \<and> run_compaction demo_runtime no_compaction_faults 7 L2 demo_files ix2 = (ix3, Ok ())
    \<and> reopen demo_runtime (\<lambda>_. f_one) None L2 ix3 = Ok ix4 \<and> mset (vivy_entries ix4) = {#(k, [f_two])#}"
proof -
  obtain ix i es ix1 where h: "history demo_runtime L2 1 ix {#(i, [f_one])#} {#}" and dir: "vx_dir ix = Some demo_files"
    and d: "delta_entries ix = [(i, [f_one])]" "vx_sealed ix = []" "vx_dims ix = 1"
    and b: "vivy_wf demo_runtime L2 ix" "backed demo_runtime ix es" "map wal_pair es = [(i, [f_one])]"
    and 1: "run_compaction demo_runtime demo_full 6 L2 demo_files ix = (ix1, Err (CeIo (IoOther 28)))" and dims: "vx_dims ix1 = 1"
    by (rule demo_full_compaction)
  have full: "cf_create demo_full = Some (IoOther 28)" by (simp add: demo_full_def)
  note f = compaction_failed [OF b(1,2) dir full 1]
  obtain ix2 where 2: "vivy_insert demo_runtime f_one no_log_faults [f_two] ix1 = (ix2, Ok (vx_next_id ix1))"
    using demo_insert [of ix1 f_two] f dims by auto
  note s = vivy_insert_backed [OF demo_order_ok _ _ demo_wal_readable 2, of L2 es]
  then have s2: "vivy_wf demo_runtime L2 ix2" "backed demo_runtime ix2 (es @ [WalInsert (vx_next_id ix1) [f_two]])"
    "vx_dir ix2 = Some demo_files" "delta_entries ix2 = [(vx_next_id ix1, [f_two])]" "vx_dims ix2 = 1"
    using f dir dims by auto
  note c = demo_compactable [OF s2(4,5)]
  obtain ix3 where 3: "run_compaction demo_runtime no_compaction_faults 7 L2 demo_files ix2 = (ix3, Ok ())"
    using compaction_total [OF s2(1-3) c] by blast
  have s3: "vivy_wf demo_runtime L2 ix3" "backed demo_runtime ix3 []" "vx_dims ix3 = 1"
    using compaction_backed [OF s2(1-3) c 3] s2(4,5) by simp_all
  have "dists_ok L2 []" by (simp add: dists_ok_def)
  then obtain ix4 where 4: "reopen demo_runtime (\<lambda>_. f_one) None L2 ix3 = Ok ix4"
    using reopen_spec [OF demo_order_ok s3(1,2), of "\<lambda>_. f_one" None] demo_level_ok by (auto split: outcome.splits)
  from failed_compaction_loses [OF h demo_order_ok dir full 1 demo_wal_readable 2 c 3 4]
  have "mset (vivy_entries ix4) = {#(vx_next_id ix1, [f_two])#}" by (simp add: sealed_entries_def d(2))
  then show ?thesis using h 1 2 3 4 by blast
qed

end
