(* ===== verification/Memory_Error.thy ===== *)
theory Memory_Error
  imports Rust_String
begin

text \<open>
  The errors of the memory store (\<open>ltm/src/error.rs\<close>): the stable codes and their names, the error
  value of every failure with the code it carries, its message, and the constructors the code calls.
\<close>

section \<open>Codes\<close>

datatype error_code =
    EcInvalidScope | EcDimensionMismatch | EcEmbeddingModelMismatch | EcNotFound | EcRevisionConflict
  | EcStoreBusy | EcRecoveryRequired | EcCorruptStore | EcEncryptionKeyUnavailable | EcPolicyDenied
  | EcInvalidFilter | EcInvalidInput | EcIoError | EcDatabaseError

fun error_code_str :: "error_code \<Rightarrow> string" where
  "error_code_str EcInvalidScope = ''INVALID_SCOPE''"
| "error_code_str EcDimensionMismatch = ''DIMENSION_MISMATCH''"
| "error_code_str EcEmbeddingModelMismatch = ''EMBEDDING_MODEL_MISMATCH''"
| "error_code_str EcNotFound = ''NOT_FOUND''"
| "error_code_str EcRevisionConflict = ''REVISION_CONFLICT''"
| "error_code_str EcStoreBusy = ''STORE_BUSY''"
| "error_code_str EcRecoveryRequired = ''RECOVERY_REQUIRED''"
| "error_code_str EcCorruptStore = ''CORRUPT_STORE''"
| "error_code_str EcEncryptionKeyUnavailable = ''ENCRYPTION_KEY_UNAVAILABLE''"
| "error_code_str EcPolicyDenied = ''POLICY_DENIED''"
| "error_code_str EcInvalidFilter = ''INVALID_FILTER''"
| "error_code_str EcInvalidInput = ''INVALID_INPUT''"
| "error_code_str EcIoError = ''IO_ERROR''"
| "error_code_str EcDatabaseError = ''DATABASE_ERROR''"

text \<open>A client that tells errors apart by the printed code can tell all of them apart.\<close>

lemma error_code_str_inject [simp]: "error_code_str a = error_code_str b \<longleftrightarrow> a = b"
  by (cases a; cases b) simp_all

section \<open>Errors\<close>

datatype memory_error =
    MeInvalidScope error_code string
  | MeDimensionMismatch error_code nat nat
  | MeEmbeddingModelMismatch error_code string string
  | MeNotFound error_code string
  | MeRevisionConflict error_code string u64 u64
  | MeStoreBusy error_code string
  | MeRecoveryRequired error_code string
  | MeCorruptStore error_code string
  | MeEncryptionKeyUnavailable error_code string
  | MePolicyDenied error_code string
  | MeInvalidFilter error_code string
  | MeInvalidInput error_code string
  | MeDatabaseError error_code string
  | MeIoError error_code string

type_synonym 'a mresult = "(memory_error, 'a) outcome"

fun me_code :: "memory_error \<Rightarrow> error_code" where
  "me_code (MeInvalidScope c m) = c"
| "me_code (MeDimensionMismatch c e a) = c"
| "me_code (MeEmbeddingModelMismatch c e a) = c"
| "me_code (MeNotFound c i) = c"
| "me_code (MeRevisionConflict c i e a) = c"
| "me_code (MeStoreBusy c m) = c"
| "me_code (MeRecoveryRequired c m) = c"
| "me_code (MeCorruptStore c m) = c"
| "me_code (MeEncryptionKeyUnavailable c m) = c"
| "me_code (MePolicyDenied c m) = c"
| "me_code (MeInvalidFilter c m) = c"
| "me_code (MeInvalidInput c m) = c"
| "me_code (MeDatabaseError c m) = c"
| "me_code (MeIoError c m) = c"

definition me_invalid_scope :: "string \<Rightarrow> memory_error" where
  "me_invalid_scope m = MeInvalidScope EcInvalidScope m"

definition me_invalid_input :: "string \<Rightarrow> memory_error" where
  "me_invalid_input m = MeInvalidInput EcInvalidInput m"

definition me_not_found :: "string \<Rightarrow> memory_error" where
  "me_not_found i = MeNotFound EcNotFound i"

definition me_key_unavailable :: "string \<Rightarrow> memory_error" where
  "me_key_unavailable m = MeEncryptionKeyUnavailable EcEncryptionKeyUnavailable m"

text \<open>The message of every variant, as the \<open>error\<close> attributes of the type write it.\<close>

definition coded :: "error_code \<Rightarrow> string \<Rightarrow> string" where
  "coded c m = ''['' @ error_code_str c @ ''] '' @ m"

fun me_display :: "memory_error \<Rightarrow> string" where
  "me_display (MeInvalidScope c m) = coded c m"
| "me_display (MeDimensionMismatch c e a) =
     coded c (''Dimension mismatch: expected '' @ nat_str e @ '', got '' @ nat_str a)"
| "me_display (MeEmbeddingModelMismatch c e a) =
     coded c (''Embedding model mismatch: expected '' @ e @ '', got '' @ a)"
| "me_display (MeNotFound c i) = coded c (''Memory record not found: '' @ i)"
| "me_display (MeRevisionConflict c i e a) =
     coded c (''Revision conflict for record '' @ i @ '': expected revision '' @ nat_str (unat e)
       @ '', current revision '' @ nat_str (unat a))"
| "me_display (MeStoreBusy c m) = coded c (''Store is busy or locked: '' @ m)"
| "me_display (MeRecoveryRequired c m) = coded c (''Recovery required before store can be accessed: '' @ m)"
| "me_display (MeCorruptStore c m) = coded c (''Corrupt store state: '' @ m)"
| "me_display (MeEncryptionKeyUnavailable c m) = coded c (''Encryption key unavailable: '' @ m)"
| "me_display (MePolicyDenied c m) = coded c (''Policy denied memory operation: '' @ m)"
| "me_display (MeInvalidFilter c m) = coded c (''Invalid filter: '' @ m)"
| "me_display (MeInvalidInput c m) = coded c (''Invalid input parameter: '' @ m)"
| "me_display (MeDatabaseError c m) = coded c (''Database error: '' @ m)"
| "me_display (MeIoError c m) = coded c (''I/O error: '' @ m)"

text \<open>The code a variant is meant to carry.\<close>

fun variant_code :: "memory_error \<Rightarrow> error_code" where
  "variant_code (MeInvalidScope c m) = EcInvalidScope"
| "variant_code (MeDimensionMismatch c e a) = EcDimensionMismatch"
| "variant_code (MeEmbeddingModelMismatch c e a) = EcEmbeddingModelMismatch"
| "variant_code (MeNotFound c i) = EcNotFound"
| "variant_code (MeRevisionConflict c i e a) = EcRevisionConflict"
| "variant_code (MeStoreBusy c m) = EcStoreBusy"
| "variant_code (MeRecoveryRequired c m) = EcRecoveryRequired"
| "variant_code (MeCorruptStore c m) = EcCorruptStore"
| "variant_code (MeEncryptionKeyUnavailable c m) = EcEncryptionKeyUnavailable"
| "variant_code (MePolicyDenied c m) = EcPolicyDenied"
| "variant_code (MeInvalidFilter c m) = EcInvalidFilter"
| "variant_code (MeInvalidInput c m) = EcInvalidInput"
| "variant_code (MeDatabaseError c m) = EcDatabaseError"
| "variant_code (MeIoError c m) = EcIoError"

text \<open>Database failures: what the store was doing, followed by the text of the database's error.\<close>

definition db_error :: "string \<Rightarrow> string \<Rightarrow> memory_error" where
  "db_error what e = MeDatabaseError EcDatabaseError (what @ e)"

definition dim_mismatch :: "nat \<Rightarrow> nat \<Rightarrow> memory_error" where
  "dim_mismatch expected actual = MeDimensionMismatch EcDimensionMismatch expected actual"

end
