(* ===== verification/Memory_Model.thy ===== *)
theory Memory_Model
  imports Memory_Error Float32 "HOL-Library.AList"
begin

text \<open>
  The data of the memory store (\<open>ltm/src/namespace.rs\<close>, \<open>model.rs\<close>, \<open>config.rs\<close>, \<open>crypto.rs\<close>,
  \<open>telemetry.rs\<close>, \<open>health.rs\<close>): scopes, records, the requests with their validation, the builder of the
  configuration, key providers, telemetry and health records. A signed 64-bit integer is a word read
  with \<open>sint\<close>; the JSON values of \<open>serde_json\<close> are a type parameter.
\<close>

type_synonym i64 = "64 word"

section \<open>Scopes\<close>

record memory_scope =
  sc_tenant :: string
  sc_namespace :: string
  sc_agent :: "string option"
  sc_user :: "string option"

definition scope_new :: "string \<Rightarrow> string \<Rightarrow> memory_scope mresult" where
  "scope_new tenant_id namespace =
     (let t = trim tenant_id; n = trim namespace in
      if t = [] then Err (me_invalid_scope ''tenant_id must not be empty'')
      else if n = [] then Err (me_invalid_scope ''namespace must not be empty'')
      else Ok \<lparr> sc_tenant = t, sc_namespace = n, sc_agent = None, sc_user = None \<rparr>)"

definition scope_with_agent :: "string \<Rightarrow> memory_scope \<Rightarrow> memory_scope mresult" where
  "scope_with_agent agent_id sc =
     (let a = trim agent_id in
      if a = [] then Err (me_invalid_scope ''agent_id cannot be empty string'')
      else Ok (sc\<lparr> sc_agent := Some a \<rparr>))"

definition scope_with_user :: "string \<Rightarrow> memory_scope \<Rightarrow> memory_scope mresult" where
  "scope_with_user user_id sc =
     (let u = trim user_id in
      if u = [] then Err (me_invalid_scope ''user_id cannot be empty string'')
      else Ok (sc\<lparr> sc_user := Some u \<rparr>))"

text \<open>What the constructors establish: every part is trimmed and not empty.\<close>

definition part_ok :: "string \<Rightarrow> bool" where
  "part_ok s \<longleftrightarrow> s \<noteq> [] \<and> trim s = s"

definition scope_wf :: "memory_scope \<Rightarrow> bool" where
  "scope_wf sc \<longleftrightarrow> part_ok (sc_tenant sc) \<and> part_ok (sc_namespace sc)
     \<and> pred_option part_ok (sc_agent sc) \<and> pred_option part_ok (sc_user sc)"

lemma scope_new_wf: "scope_new t n = Ok sc \<Longrightarrow> scope_wf sc"
  by (auto simp: scope_new_def Let_def scope_wf_def part_ok_def split: if_splits)

lemma scope_with_agent_wf: "scope_with_agent a sc = Ok sc' \<Longrightarrow> scope_wf sc \<Longrightarrow> scope_wf sc'"
  by (auto simp: scope_with_agent_def Let_def scope_wf_def part_ok_def split: if_splits)

lemma scope_with_user_wf: "scope_with_user u sc = Ok sc' \<Longrightarrow> scope_wf sc \<Longrightarrow> scope_wf sc'"
  by (auto simp: scope_with_user_def Let_def scope_wf_def part_ok_def split: if_splits)

section \<open>Records\<close>

datatype memory_kind = KPreference | KFact | KInstruction | KContext | KEpisodic

datatype memory_status = StPending | StActive | StDeleted | StExpired

fun status_str :: "memory_status \<Rightarrow> string" where
  "status_str StPending = ''pending''"
| "status_str StActive = ''active''"
| "status_str StDeleted = ''deleted''"
| "status_str StExpired = ''expired''"

definition status_parse :: "string \<Rightarrow> memory_status option" where
  "status_parse s =
     (if s = ''pending'' then Some StPending
      else if s = ''active'' then Some StActive
      else if s = ''deleted'' then Some StDeleted
      else if s = ''expired'' then Some StExpired
      else None)"

lemma status_parse_str [simp]: "status_parse (status_str st) = Some st"
  by (cases st) (simp_all add: status_parse_def)

lemma status_str_inject [simp]: "status_str a = status_str b \<longleftrightarrow> a = b"
  by (cases a; cases b) simp_all

record 'j memory_record =
  mr_id :: string
  mr_scope :: memory_scope
  mr_kind :: memory_kind
  mr_content :: string
  mr_hash :: bytes
  mr_embedding :: "f32 list"
  mr_model :: string
  mr_dims :: nat
  mr_importance :: f32
  mr_created :: i64
  mr_updated :: i64
  mr_accessed :: "i64 option"
  mr_count :: u64
  mr_expires :: "i64 option"
  mr_status :: memory_status
  mr_revision :: u64
  mr_metadata :: "string \<Rightarrow> 'j option"
  mr_source :: "string \<Rightarrow> 'j option"

section \<open>Requests\<close>

record 'j remember_request =
  rq_operation :: "string option"
  rq_scope :: memory_scope
  rq_content :: string
  rq_embedding :: "f32 list"
  rq_kind :: memory_kind
  rq_importance :: f32
  rq_expires :: "i64 option"
  rq_metadata :: "string \<Rightarrow> 'j option"
  rq_source :: "string \<Rightarrow> 'j option"

text \<open>\<open>(0.0..=1.0).contains\<close>, which no NaN satisfies.\<close>

definition unit_range :: "f32 \<Rightarrow> bool" where
  "unit_range x \<longleftrightarrow> f_le f_zero x \<and> f_le x f_one"

lemma unit_range_not_nan: "unit_range x \<Longrightarrow> \<not> is_nan x"
  by (simp add: unit_range_def f_le_def)

definition remember_validate :: "'j remember_request \<Rightarrow> nat \<Rightarrow> unit mresult" where
  "remember_validate rq dims =
     (if trim (rq_content rq) = [] then Err (me_invalid_input ''content cannot be empty'')
      else if length (rq_embedding rq) \<noteq> dims then Err (dim_mismatch dims (length (rq_embedding rq)))
      else if \<not> unit_range (rq_importance rq)
        then Err (me_invalid_input ''importance must be between 0.0 and 1.0'')
      else Ok ())"

text \<open>A filter; the metadata conditions are in the order in which the hash map yields them.\<close>

record 'j memory_filter =
  fl_kinds :: "memory_kind list option"
  fl_importance :: "f32 option"
  fl_metadata :: "(string \<times> 'j) list option"

definition filter_default :: "'j memory_filter" where
  "filter_default = \<lparr> fl_kinds = None, fl_importance = None, fl_metadata = None \<rparr>"

definition filter_kind_in :: "memory_kind list \<Rightarrow> 'j memory_filter" where
  "filter_kind_in kinds = \<lparr> fl_kinds = Some kinds, fl_importance = None, fl_metadata = None \<rparr>"

definition filter_with_importance :: "f32 \<Rightarrow> 'j memory_filter \<Rightarrow> 'j memory_filter" where
  "filter_with_importance x fl = fl\<lparr> fl_importance := Some x \<rparr>"

definition filter_with_metadata :: "string \<Rightarrow> 'j \<Rightarrow> 'j memory_filter \<Rightarrow> 'j memory_filter" where
  "filter_with_metadata key val fl =
     fl\<lparr> fl_metadata := Some (AList.update key val (case fl_metadata fl of None \<Rightarrow> [] | Some m \<Rightarrow> m)) \<rparr>"

record 'j update_request =
  up_operation :: "string option"
  up_scope :: memory_scope
  up_id :: string
  up_revision :: u64
  up_content :: "string option"
  up_embedding :: "f32 list option"
  up_kind :: "memory_kind option"
  up_importance :: "f32 option"
  up_expires :: "i64 option option"
  up_metadata :: "(string \<times> 'j) list option"

definition update_validate :: "'j update_request \<Rightarrow> nat \<Rightarrow> unit mresult" where
  "update_validate up dims =
     (if trim (up_id up) = [] then Err (me_invalid_input ''id cannot be empty'')
      else if (case up_content up of None \<Rightarrow> False | Some c \<Rightarrow> trim c = [])
        then Err (me_invalid_input ''content cannot be empty'')
      else obind (case up_embedding up of
                    None \<Rightarrow> Ok ()
                  | Some v \<Rightarrow> if length v \<noteq> dims then Err (dim_mismatch dims (length v)) else Ok ())
             (\<lambda>_. if (case up_importance up of None \<Rightarrow> False | Some x \<Rightarrow> \<not> unit_range x)
                  then Err (me_invalid_input ''importance must be between 0.0 and 1.0'') else Ok ()))"

record forget_request =
  fg_operation :: "string option"
  fg_scope :: memory_scope
  fg_id :: string

definition forget_new :: "memory_scope \<Rightarrow> string \<Rightarrow> forget_request mresult" where
  "forget_new sc i =
     (let i' = trim i in
      if i' = [] then Err (me_invalid_input ''id cannot be empty'')
      else Ok \<lparr> fg_operation = None, fg_scope = sc, fg_id = i' \<rparr>)"

record 'j recall_request =
  rc_scope :: memory_scope
  rc_query :: "f32 list"
  rc_text :: "string option"
  rc_limit :: nat
  rc_filters :: "'j memory_filter"
  rc_explain :: bool
  rc_lambda :: "f32 option"

definition recall_validate :: "'j recall_request \<Rightarrow> nat \<Rightarrow> unit mresult" where
  "recall_validate rc dims =
     (if rc_limit rc = 0 then Err (me_invalid_input ''limit must be greater than 0'')
      else if length (rc_query rc) \<noteq> dims then Err (dim_mismatch dims (length (rc_query rc)))
      else if (case rc_lambda rc of None \<Rightarrow> False | Some l \<Rightarrow> \<not> unit_range l)
        then Err (me_invalid_input ''mmr_lambda must be between 0.0 and 1.0'')
      else Ok ())"

section \<open>Responses\<close>

record recall_explanation =
  ex_total :: f32
  ex_similarity :: f32
  ex_importance :: f32
  ex_recency :: f32
  ex_reinforcement :: f32
  ex_notes :: "string list"

record 'j recall_item =
  ri_memory :: "'j memory_record"
  ri_score :: f32
  ri_explanation :: "recall_explanation option"

record 'j recall_response =
  rr_items :: "'j recall_item list"
  rr_total :: nat

record context_options =
  co_max_tokens :: nat
  co_template :: string
  co_header :: "string option"
  co_footer :: "string option"

definition context_default :: context_options where
  "context_default = \<lparr> co_max_tokens = 1500, co_template = ''- [{kind}] {content} (score: {score:.2})'',
     co_header = Some ''### Relevant Agent Memories:'', co_footer = None \<rparr>"

definition context_validate :: "context_options \<Rightarrow> unit mresult" where
  "context_validate co =
     (if co_max_tokens co = 0 then Err (me_invalid_input ''max_tokens must be greater than 0'') else Ok ())"

section \<open>Configuration\<close>

record memory_config =
  cg_path :: string
  cg_dims :: nat
  cg_model :: string
  cg_max_recall :: nat

record config_builder =
  cb_path :: string
  cb_dims :: "nat option"
  cb_model :: "string option"
  cb_max_recall :: nat

definition builder_new :: "string \<Rightarrow> config_builder" where
  "builder_new path = \<lparr> cb_path = path, cb_dims = None, cb_model = None, cb_max_recall = 100 \<rparr>"

definition builder_dims :: "nat \<Rightarrow> config_builder \<Rightarrow> config_builder" where
  "builder_dims dims cb = cb\<lparr> cb_dims := Some dims \<rparr>"

definition builder_model :: "string \<Rightarrow> config_builder \<Rightarrow> config_builder" where
  "builder_model m cb = cb\<lparr> cb_model := Some m \<rparr>"

definition builder_max_recall :: "nat \<Rightarrow> config_builder \<Rightarrow> config_builder" where
  "builder_max_recall limit cb = cb\<lparr> cb_max_recall := limit \<rparr>"

definition builder_build :: "config_builder \<Rightarrow> memory_config mresult" where
  "builder_build cb =
     (case cb_dims cb of
        None \<Rightarrow> Err (me_invalid_input ''MemoryConfig: embedding dimensions must be specified'')
      | Some dims \<Rightarrow>
          if dims = 0 then Err (me_invalid_input ''MemoryConfig: dimensions must be greater than 0'')
          else (case cb_model cb of
             None \<Rightarrow> Err (me_invalid_input ''MemoryConfig: embedding_model must be specified'')
           | Some m \<Rightarrow>
               if trim m = [] then Err (me_invalid_input ''MemoryConfig: embedding_model cannot be empty'')
               else Ok \<lparr> cg_path = cb_path cb, cg_dims = dims, cg_model = m, cg_max_recall = cb_max_recall cb \<rparr>))"

section \<open>Key providers\<close>

text \<open>The trait is one function from the tenant to its key.\<close>

type_synonym key_provider = "string \<Rightarrow> bytes mresult"

definition missing_key_provider :: key_provider where
  "missing_key_provider tenant =
     Err (me_key_unavailable (''No KeyProvider registered to retrieve encryption key for tenant ''
       @ [CHR 0x27] @ tenant @ [CHR 0x27]))"

definition dev_key_provider_with :: "bytes \<Rightarrow> key_provider" where
  "dev_key_provider_with key tenant = Ok key"

definition dev_key_provider :: key_provider where
  "dev_key_provider = dev_key_provider_with (replicate 32 0x42)"

section \<open>Telemetry and health\<close>

record telemetry_record =
  tl_operation :: "string option"
  tl_tenant :: string
  tl_namespace :: string
  tl_kind :: string
  tl_duration :: u64
  tl_success :: bool
  tl_error :: "string option"
  tl_records :: nat
  tl_bytes :: nat

definition telemetry_new :: "string \<Rightarrow> string \<Rightarrow> string \<Rightarrow> telemetry_record" where
  "telemetry_new tenant namespace kind =
     \<lparr> tl_operation = None, tl_tenant = tenant, tl_namespace = namespace, tl_kind = kind,
       tl_duration = 0, tl_success = True, tl_error = None, tl_records = 0, tl_bytes = 0 \<rparr>"

definition telemetry_operation :: "string option \<Rightarrow> telemetry_record \<Rightarrow> telemetry_record" where
  "telemetry_operation op t = t\<lparr> tl_operation := op \<rparr>"

definition telemetry_duration :: "u64 \<Rightarrow> telemetry_record \<Rightarrow> telemetry_record" where
  "telemetry_duration d t = t\<lparr> tl_duration := d \<rparr>"

definition telemetry_outcome :: "bool \<Rightarrow> string option \<Rightarrow> telemetry_record \<Rightarrow> telemetry_record" where
  "telemetry_outcome success code t = t\<lparr> tl_success := success, tl_error := code \<rparr>"

definition telemetry_metrics :: "nat \<Rightarrow> nat \<Rightarrow> telemetry_record \<Rightarrow> telemetry_record" where
  "telemetry_metrics n b t = t\<lparr> tl_records := n, tl_bytes := b \<rparr>"

record store_health =
  sh_healthy :: bool
  sh_active :: nat
  sh_tombstoned :: nat
  sh_pending :: nat
  sh_rebuild :: bool
  sh_db_bytes :: u64
  sh_wal_bytes :: u64

end
