(* ===== verification/Memory_Db.thy ===== *)
theory Memory_Db
  imports Memory_Model Byte_Codec
begin

text \<open>
  The SQLite database of the memory store: the tables and triggers of the schema
  (\<open>ltm/src/repository.rs\<close>, \<open>SCHEMA_V1\<close> and \<open>SCHEMA_V2\<close>) as lists of typed rows, the statements the
  repository executes as functions on them, transactions, and the faults of single statements.
  SQLite, \<open>serde_json\<close> and the Unicode tables of \<open>std\<close> are outside the repository: what the code
  takes from them is one record, the documented behaviour it relies on is \<open>env_ok\<close>.
\<close>

section \<open>Tables\<close>

record memory_row =
  r_id :: string
  r_tenant :: string
  r_namespace :: string
  r_agent :: "string option"
  r_user :: "string option"
  r_kind :: string
  r_content :: string
  r_hash :: bytes
  r_embedding :: bytes
  r_model :: string
  r_dims :: i64
  r_importance :: f32
  r_created :: i64
  r_updated :: i64
  r_accessed :: "i64 option"
  r_count :: i64
  r_expires :: "i64 option"
  r_status :: string
  r_revision :: i64
  r_metadata :: string
  r_source :: string

record op_row =
  o_id :: string
  o_memory :: string
  o_kind :: string
  o_payload :: string
  o_state :: string
  o_created :: i64
  o_applied :: "i64 option"

record fts_row =
  ft_id :: string
  ft_tenant :: string
  ft_namespace :: string
  ft_content :: string

text \<open>\<open>db\_versions\<close> is the table \<open>schema\_migrations\<close> when it exists, \<open>db\_indexed\<close> whether the full-text
  table and its triggers exist.\<close>

record database =
  db_versions :: "(int \<times> i64) list option"
  db_indexed :: bool
  db_memories :: "memory_row list"
  db_ops :: "op_row list"
  db_fts :: "fts_row list"

definition empty_db :: database where
  "empty_db = \<lparr> db_versions = None, db_indexed = False, db_memories = [], db_ops = [], db_fts = [] \<rparr>"

section \<open>The environment\<close>

datatype sql_param = SqlText string | SqlInt i64 | SqlReal "64 word"

text \<open>What \<open>search\_fts\<close> sees of a JSON value: a number with its \<open>as\_i64\<close> and \<open>as\_f64\<close>.\<close>

datatype json_view = JvString string | JvNumber "i64 option" "64 word option" | JvBool bool | JvOther

record 'j store_env =
  ev_print :: "(string \<Rightarrow> 'j option) \<Rightarrow> string option"
  ev_parse :: "string \<Rightarrow> (string \<Rightarrow> 'j option) option"
  ev_plain :: "(string \<Rightarrow> 'j option) \<Rightarrow> bool"
  ev_payload :: "'j memory_record \<Rightarrow> string option"
  ev_view :: "'j \<Rightarrow> json_view"
  ev_show :: "'j \<Rightarrow> string"
  ev_extract_eq :: "string \<Rightarrow> string \<Rightarrow> sql_param \<Rightarrow> bool"
  ev_match :: "string \<Rightarrow> fts_row list \<Rightarrow> fts_row list"
  ev_scan :: "memory_row list \<Rightarrow> memory_row list"
  ev_scan_ops :: "op_row list \<Rightarrow> op_row list"
  ev_keys :: "string list \<Rightarrow> string list"
  ev_alnum :: "string \<Rightarrow> bool"
  ev_hash_str :: "string \<Rightarrow> u64"
  ev_exp :: "f32 \<Rightarrow> f32"
  ev_constraint :: string
  ev_conversion :: string

text \<open>\<open>ev\_plain\<close> are the maps of JSON values in which no number is a floating-point number and nothing is
  nested deeper than the parser allows: such a map prints, and parses back to itself. Of any other map
  nothing is known (\<open>serde\_json\<close> promises the round trip of floating-point numbers only with its feature
  \<open>float\_roundtrip\<close>, which the crate does not enable). SQLite visits every row of a table once, in
  an order it chooses; a full-text query yields rows of the table, each once; no ASCII character but
  the letters and digits is alphanumeric; a hash map yields each of its keys once.\<close>

definition env_ok :: "'j store_env \<Rightarrow> bool" where
  "env_ok E \<longleftrightarrow>
     (\<forall>m. ev_plain E m \<longrightarrow> (\<exists>s. ev_print E m = Some s \<and> ev_parse E s = Some m))
     \<and> (\<forall>rs. mset (ev_scan E rs) = mset rs)
     \<and> (\<forall>os. mset (ev_scan_ops E os) = mset os)
     \<and> (\<forall>q rs. mset (ev_match E q rs) \<subseteq># mset rs)
     \<and> (\<forall>ks. mset (ev_keys E ks) = mset ks)
     \<and> \<not> ev_alnum E [CHR 0x22]"

section \<open>Faults of statements\<close>

text \<open>Where the execution of a method can fail inside the database.\<close>

datatype sql_point =
    SpOpen | SpPragma nat | SpBegin | SpPrepare nat | SpExec nat | SpRow nat | SpCommit

type_synonym sql_faults = "sql_point \<Rightarrow> string option"

definition no_faults :: sql_faults where
  "no_faults = (\<lambda>_. None)"

text \<open>One call into SQLite: it fails with the fault's text, or with a constraint or a table that is missing.\<close>

definition sql :: "'j store_env \<Rightarrow> sql_faults \<Rightarrow> sql_point \<Rightarrow> string \<Rightarrow> 'a option \<Rightarrow> 'a mresult" where
  "sql E sf p what r =
     (case sf p of
        Some e \<Rightarrow> Err (db_error what e)
      | None \<Rightarrow> (case r of None \<Rightarrow> Err (db_error what (ev_constraint E)) | Some x \<Rightarrow> Ok x))"

lemma sql_Ok_iff [outcome_iff]: "sql E sf p what r = Ok x \<longleftrightarrow> sf p = None \<and> r = Some x"
  by (auto simp: sql_def split: option.splits)

lemma sql_no_Panic [simp]: "sql E sf p what r \<noteq> Panic"
  by (simp add: sql_def split: option.splits)

lemma sql_no_faults [simp]: "sql E no_faults p what (Some x) = Ok x"
  by (simp add: sql_def no_faults_def)

text \<open>A transaction that is dropped without a commit leaves the database as it was.\<close>

definition transact :: "'d \<Rightarrow> ('d \<times> 'a) mresult \<Rightarrow> 'd \<times> 'a mresult" where
  "transact db m = (case m of Ok (d, x) \<Rightarrow> (d, Ok x) | Err e \<Rightarrow> (db, Err e) | Panic \<Rightarrow> (db, Panic))"

lemma transact_Ok_iff [outcome_iff]: "transact db m = (d, Ok x) \<longleftrightarrow> m = Ok (d, x)"
  by (auto simp: transact_def split: outcome.splits)

lemma transact_Err_iff [outcome_iff]: "transact db m = (d, Err e) \<longleftrightarrow> m = Err e \<and> d = db"
  by (auto simp: transact_def split: outcome.splits)

lemma transact_Panic_iff [outcome_iff]: "transact db m = (d, Panic) \<longleftrightarrow> m = Panic \<and> d = db"
  by (auto simp: transact_def split: outcome.splits)

section \<open>Statements\<close>

text \<open>The row of the full-text table that the triggers write.\<close>

definition fts_of :: "memory_row \<Rightarrow> fts_row" where
  "fts_of r = \<lparr> ft_id = r_id r, ft_tenant = r_tenant r, ft_namespace = r_namespace r, ft_content = r_content r \<rparr>"

text \<open>Trigger \<open>memories\_ai\<close>.\<close>

definition fts_insert :: "memory_row \<Rightarrow> fts_row list \<Rightarrow> fts_row list" where
  "fts_insert r ft = ft @ [fts_of r]"

text \<open>Trigger \<open>memories\_ad\<close>.\<close>

definition fts_delete :: "string \<Rightarrow> fts_row list \<Rightarrow> fts_row list" where
  "fts_delete i ft = filter (\<lambda>f. ft_id f \<noteq> i) ft"

text \<open>Trigger \<open>memories\_au\<close>, for the old and the new row.\<close>

definition fts_update :: "memory_row \<Rightarrow> memory_row \<Rightarrow> fts_row list \<Rightarrow> fts_row list" where
  "fts_update old new ft = fts_insert new (fts_delete (r_id old) ft)"

text \<open>\<open>INSERT INTO memories\<close>: the table must exist (the first migration makes it together with the table
  of versions), the key is unique and no column that is \<open>NOT NULL\<close> may be null; a NaN is stored as null.\<close>

definition insert_row :: "memory_row \<Rightarrow> database \<Rightarrow> database option" where
  "insert_row r db =
     (if db_versions db = None \<or> r_id r \<in> r_id ` set (db_memories db) \<or> is_nan (r_importance r) then None
      else Some (db\<lparr> db_memories := db_memories db @ [r],
                     db_fts := (if db_indexed db then fts_insert r (db_fts db) else db_fts db) \<rparr>))"

definition insert_op :: "op_row \<Rightarrow> database \<Rightarrow> database option" where
  "insert_op o' db =
     (if db_versions db = None \<or> o_id o' \<in> o_id ` set (db_ops db) then None else Some (db\<lparr> db_ops := db_ops db @ [o'] \<rparr>))"

text \<open>\<open>UPDATE memories SET .. WHERE ..\<close>, with its trigger for every row it changes.\<close>

definition update_rows :: "(memory_row \<Rightarrow> bool) \<Rightarrow> (memory_row \<Rightarrow> memory_row) \<Rightarrow> database \<Rightarrow> database" where
  "update_rows P f db =
     db\<lparr> db_memories := map (\<lambda>r. if P r then f r else r) (db_memories db),
         db_fts := (if db_indexed db
                    then foldl (\<lambda>ft r. fts_update r (f r) ft) (db_fts db) (filter P (db_memories db))
                    else db_fts db) \<rparr>"

definition update_ops :: "(op_row \<Rightarrow> bool) \<Rightarrow> (op_row \<Rightarrow> op_row) \<Rightarrow> database \<Rightarrow> database" where
  "update_ops P f db = db\<lparr> db_ops := map (\<lambda>o'. if P o' then f o' else o') (db_ops db) \<rparr>"

definition delete_rows :: "string list \<Rightarrow> database \<Rightarrow> database" where
  "delete_rows ids db =
     db\<lparr> db_memories := filter (\<lambda>r. r_id r \<notin> set ids) (db_memories db),
         db_fts := (if db_indexed db then foldl (\<lambda>ft i. fts_delete i ft) (db_fts db) ids else db_fts db) \<rparr>"

text \<open>\<open>LIMIT\<close> with a \<open>usize\<close> cast to \<open>i64\<close>: a negative limit is no limit.\<close>

definition sql_limit :: "nat \<Rightarrow> 'a list \<Rightarrow> 'a list" where
  "sql_limit n xs = (let l = sint (word_of_nat n :: i64) in if l < 0 then xs else take (nat l) xs)"

lemma sql_limit_le: "n < 2 ^ 63 \<Longrightarrow> sql_limit n xs = take n xs"
  by (simp add: sql_limit_def Let_def signed_of_nat signed_take_bit_int_eq_self)

lemma set_sql_limit: "set (sql_limit n xs) \<subseteq> set xs"
  by (auto simp: sql_limit_def Let_def dest: in_set_takeD)

section \<open>The database invariant\<close>

text \<open>Ids are unique in both tables; the full-text table holds at most one row per memory, that row
  carries the memory's current scope and content, and every memory that is not deleted has one.\<close>

definition db_wf :: "database \<Rightarrow> bool" where
  "db_wf db \<longleftrightarrow>
     distinct (map r_id (db_memories db)) \<and> distinct (map o_id (db_ops db))
     \<and> distinct (db_fts db) \<and> set (db_fts db) \<subseteq> fts_of ` set (db_memories db)
     \<and> (if db_indexed db
        then \<forall>r\<in>set (db_memories db). r_status r \<noteq> ''deleted'' \<longrightarrow> fts_of r \<in> set (db_fts db)
        else db_fts db = [])"

lemma ft_id_fts_of [simp]: "ft_id (fts_of r) = r_id r"
  by (simp add: fts_of_def)

lemma empty_db_wf: "db_wf empty_db"
  by (simp add: db_wf_def empty_db_def)

lemma insert_row_wf:
  assumes "db_wf db" "insert_row r db = Some d"
  shows "db_wf d"
proof -
  have new: "r_id r \<notin> r_id ` set (db_memories db)" using assms(2) by (auto simp: insert_row_def split: if_splits)
  then have "fts_of r \<notin> set (db_fts db)" using assms(1) by (force simp: db_wf_def dest: arg_cong [where f = ft_id])
  then show ?thesis using assms new by (auto simp: db_wf_def insert_row_def fts_insert_def split: if_splits)
qed

lemma insert_op_wf: "db_wf db \<Longrightarrow> insert_op o' db = Some d \<Longrightarrow> db_wf d"
  by (auto simp: db_wf_def insert_op_def split: if_splits)

lemma update_ops_wf: "db_wf db \<Longrightarrow> (\<And>o'. o_id (f o') = o_id o') \<Longrightarrow> db_wf (update_ops P f db)"
  by (cases "db_indexed db") (simp_all add: db_wf_def update_ops_def o_def if_distrib cong: if_cong)

lemma set_fts_update: "set (fts_update old new ft) = insert (fts_of new) {x \<in> set ft. ft_id x \<noteq> r_id old}"
  by (auto simp: fts_update_def fts_insert_def fts_delete_def)

lemma fts_updates_set:
  assumes "\<And>r. r_id (f r) = r_id r" "distinct (map r_id rs)"
  shows "set (foldl (\<lambda>ft r. fts_update r (f r) ft) ft rs)
    = {x \<in> set ft. ft_id x \<notin> r_id ` set rs} \<union> (\<lambda>r. fts_of (f r)) ` set rs"
  using assms(2)
proof (induction rs arbitrary: ft)
  case Nil
  then show ?case by simp
next
  case (Cons r rs)
  have "r_id r \<notin> r_id ` set rs" "distinct (map r_id rs)" using Cons.prems by auto
  then show ?case
    using Cons.IH [of "fts_update r (f r) ft"] by (auto simp: set_fts_update assms(1))
qed

lemma fts_updates_distinct:
  assumes "\<And>r. r_id (f r) = r_id r" "distinct ft"
  shows "distinct (foldl (\<lambda>ft r. fts_update r (f r) ft) ft rs)"
  using assms(2)
  by (induction rs arbitrary: ft) (auto simp: fts_update_def fts_insert_def fts_delete_def assms(1))

lemma update_rows_wf:
  assumes "db_wf db" "\<And>r. r_id (f r) = r_id r"
  shows "db_wf (update_rows P f db)"
proof -
  let ?ms = "db_memories db"
  have ids: "r_id (if P r then f r else r) = r_id r" for r by (simp add: assms(2))
  have d: "distinct (map r_id ?ms)" using assms(1) by (simp add: db_wf_def)
  then have dP: "distinct (map r_id (filter P ?ms))" by (simp add: distinct_map_filter)
  have inj: "inj_on r_id (set ?ms)" using d by (simp add: distinct_map)
  show ?thesis
  proof (cases "db_indexed db")
    case False
    then show ?thesis using assms(1) by (simp add: db_wf_def update_rows_def o_def ids)
  next
    case True
    let ?ft = "foldl (\<lambda>ft r. fts_update r (f r) ft) (db_fts db) (filter P ?ms)"
    have ft: "set ?ft = {x \<in> set (db_fts db). ft_id x \<notin> r_id ` {r \<in> set ?ms. P r}} \<union> (\<lambda>r. fts_of (f r)) ` {r \<in> set ?ms. P r}"
      by (simp only: fts_updates_set [OF assms(2) dP] set_filter)
    have "set ?ft \<subseteq> fts_of ` (\<lambda>r. if P r then f r else r) ` set ?ms"
    proof
      fix x assume "x \<in> set ?ft"
      then consider r where "r \<in> set ?ms" "P r" "x = fts_of (f r)"
        | r where "r \<in> set ?ms" "\<not> P r" "x = fts_of r"
        using assms(1) unfolding ft by (force simp: db_wf_def True)
      then show "x \<in> fts_of ` (\<lambda>r. if P r then f r else r) ` set ?ms" by cases (force simp: image_iff)+
    qed
    moreover have "\<forall>r\<in>(\<lambda>r. if P r then f r else r) ` set ?ms. r_status r \<noteq> ''deleted'' \<longrightarrow> fts_of r \<in> set ?ft"
      using inj assms(1) unfolding ft by (auto simp: db_wf_def True inj_on_def)
    moreover have "distinct ?ft" using assms fts_updates_distinct [of f, OF assms(2)] by (simp add: db_wf_def)
    ultimately show ?thesis
      using assms(1) by (simp add: db_wf_def update_rows_def o_def ids True split del: if_split)
  qed
qed

lemma fts_deletes_set: "set (foldl (\<lambda>ft i. fts_delete i ft) ft ids) = {x \<in> set ft. ft_id x \<notin> set ids}"
  by (induction ids arbitrary: ft) (auto simp: fts_delete_def)

lemma fts_deletes_distinct: "distinct ft \<Longrightarrow> distinct (foldl (\<lambda>ft i. fts_delete i ft) ft ids)"
  by (induction ids arbitrary: ft) (auto simp: fts_delete_def)

lemma delete_rows_wf: "db_wf db \<Longrightarrow> db_wf (delete_rows ids db)"
  by (auto simp: db_wf_def delete_rows_def fts_deletes_set fts_deletes_distinct distinct_map_filter)

text \<open>The row of a memory, looked up by its key.\<close>

definition find_row :: "string \<Rightarrow> database \<Rightarrow> memory_row option" where
  "find_row i db = find (\<lambda>r. r_id r = i) (db_memories db)"

lemma find_row_iff:
  "db_wf db \<Longrightarrow> find_row i db = Some r \<longleftrightarrow> r \<in> set (db_memories db) \<and> r_id r = i"
  by (auto simp: find_row_def db_wf_def find_Some_iff in_set_conv_nth distinct_conv_nth)

lemma find_row_None: "find_row i db = None \<longleftrightarrow> i \<notin> r_id ` set (db_memories db)"
  by (auto simp: find_row_def find_None_iff)

end
