(* ===== verification/Repository.thy ===== *)
theory Repository
  imports Memory_Db
begin

text \<open>
  The repository (\<open>ltm/src/repository.rs\<close>): opening and migrating the database, the transactions that
  change it and the queries that read it, each with every statement that can fail. A method that
  changes the database returns it with the outcome; a query returns only its outcome.
\<close>

section \<open>Rows and records\<close>

text \<open>\<open>as\_chunks::<4>\<close> leaves out what is left over.\<close>

definition bytes_to_embedding :: "bytes \<Rightarrow> f32 list" where
  "bytes_to_embedding bs = f32s_of_bytes bs"

text \<open>\<open>format!("{:?}", kind).to\_lowercase()\<close>\<close>

fun kind_lower :: "memory_kind \<Rightarrow> string" where
  "kind_lower KPreference = ''preference''"
| "kind_lower KFact = ''fact''"
| "kind_lower KInstruction = ''instruction''"
| "kind_lower KContext = ''context''"
| "kind_lower KEpisodic = ''episodic''"

definition kind_of_str :: "string \<Rightarrow> memory_kind" where
  "kind_of_str s =
     (if s = ''preference'' then KPreference
      else if s = ''fact'' then KFact
      else if s = ''instruction'' then KInstruction
      else if s = ''context'' then KContext
      else KEpisodic)"

lemma kind_of_lower [simp]: "kind_of_str (kind_lower k) = k"
  by (cases k) (simp_all add: kind_of_str_def)

definition json_or_empty :: "string option \<Rightarrow> string" where
  "json_or_empty s = (case s of None \<Rightarrow> ''{}'' | Some t \<Rightarrow> t)"

definition row_of_record :: "'j store_env \<Rightarrow> 'j memory_record \<Rightarrow> memory_row" where
  "row_of_record E rec =
     \<lparr> r_id = mr_id rec, r_tenant = sc_tenant (mr_scope rec), r_namespace = sc_namespace (mr_scope rec),
       r_agent = sc_agent (mr_scope rec), r_user = sc_user (mr_scope rec), r_kind = kind_lower (mr_kind rec),
       r_content = mr_content rec, r_hash = mr_hash rec, r_embedding = f32s_bytes (mr_embedding rec),
       r_model = mr_model rec, r_dims = word_of_nat (mr_dims rec), r_importance = mr_importance rec,
       r_created = mr_created rec, r_updated = mr_updated rec, r_accessed = mr_accessed rec,
       r_count = mr_count rec, r_expires = mr_expires rec, r_status = status_str (mr_status rec),
       r_revision = mr_revision rec, r_metadata = json_or_empty (ev_print E (mr_metadata rec)),
       r_source = json_or_empty (ev_print E (mr_source rec)) \<rparr>"

text \<open>\<open>scope.with\_agent(agent).unwrap()\<close>: a stored part that is blank panics.\<close>

definition scope_of_row :: "'j store_env \<Rightarrow> memory_row \<Rightarrow> (string, memory_scope) outcome" where
  "scope_of_row E r =
     obind (map_err (\<lambda>_. ev_conversion E) (scope_new (r_tenant r) (r_namespace r))) (\<lambda>sc.
     obind (case r_agent r of None \<Rightarrow> Ok sc | Some a \<Rightarrow> no_err (scope_with_agent a sc)) (\<lambda>sc1.
     case r_user r of None \<Rightarrow> Ok sc1 | Some u \<Rightarrow> no_err (scope_with_user u sc1)))"

definition json_or_default :: "'j store_env \<Rightarrow> string \<Rightarrow> string \<Rightarrow> 'j option" where
  "json_or_default E s = (case ev_parse E s of None \<Rightarrow> (\<lambda>_. None) | Some m \<Rightarrow> m)"

definition record_of_row ::
  "'j store_env \<Rightarrow> memory_status \<Rightarrow> memory_row \<Rightarrow> (string, 'j memory_record) outcome" where
  "record_of_row E dflt r =
     obind (scope_of_row E r) (\<lambda>sc. Ok
       \<lparr> mr_id = r_id r, mr_scope = sc, mr_kind = kind_of_str (r_kind r),
         mr_content = from_utf8_lossy (r_content r), mr_hash = r_hash r,
         mr_embedding = bytes_to_embedding (r_embedding r), mr_model = r_model r,
         mr_dims = unat (r_dims r), mr_importance = r_importance r, mr_created = r_created r,
         mr_updated = r_updated r, mr_accessed = r_accessed r, mr_count = r_count r,
         mr_expires = r_expires r,
         mr_status = (case status_parse (r_status r) of None \<Rightarrow> dflt | Some st \<Rightarrow> st),
         mr_revision = r_revision r, mr_metadata = json_or_default E (r_metadata r),
         mr_source = json_or_default E (r_source r) \<rparr>)"

definition op_row_of :: "string \<Rightarrow> string \<Rightarrow> string \<Rightarrow> string \<Rightarrow> string \<Rightarrow> i64 \<Rightarrow> i64 option \<Rightarrow> op_row" where
  "op_row_of op mem kind payload state created applied =
     \<lparr> o_id = op, o_memory = mem, o_kind = kind, o_payload = payload, o_state = state,
       o_created = created, o_applied = applied \<rparr>"

definition payload_of :: "'j store_env \<Rightarrow> 'j memory_record \<Rightarrow> string" where
  "payload_of E rec = json_or_empty (ev_payload E rec)"

section \<open>Opening\<close>

definition max_version :: "(int \<times> i64) list \<Rightarrow> int" where
  "max_version vs = (case vs of [] \<Rightarrow> 0 | v # ws \<Rightarrow> foldl (\<lambda>m w. max m (fst w)) (fst v) ws)"

definition record_version :: "int \<Rightarrow> i64 \<Rightarrow> database \<Rightarrow> database option" where
  "record_version v now db =
     (case db_versions db of
        None \<Rightarrow> None
      | Some vs \<Rightarrow> if v \<in> fst ` set vs then None else Some (db\<lparr> db_versions := Some (vs @ [(v, now)]) \<rparr>))"

text \<open>\<open>SCHEMA\_V1\<close> and \<open>SCHEMA\_V2\<close> create what does not exist and keep what does.\<close>

definition apply_v1 :: "database \<Rightarrow> database" where
  "apply_v1 db = db\<lparr> db_versions := Some (case db_versions db of None \<Rightarrow> [] | Some vs \<Rightarrow> vs) \<rparr>"

definition apply_v2 :: "database \<Rightarrow> database" where
  "apply_v2 db = db\<lparr> db_indexed := True \<rparr>"

definition backfill_fts :: "database \<Rightarrow> database" where
  "backfill_fts db =
     db\<lparr> db_fts := db_fts db @ map fts_of (filter (\<lambda>r. r_status r \<noteq> ''deleted'') (db_memories db)) \<rparr>"

definition migrate_v1 :: "'j store_env \<Rightarrow> sql_faults \<Rightarrow> i64 \<Rightarrow> database \<Rightarrow> database mresult" where
  "migrate_v1 E sf now db =
     obind (sql E sf (SpExec 2) ''Failed to apply schema v1: '' (Some (apply_v1 db))) (\<lambda>d.
     sql E sf (SpExec 3) ''Failed to record schema v1 migration: '' (record_version 1 now d))"

definition migrate_v2 :: "'j store_env \<Rightarrow> sql_faults \<Rightarrow> i64 \<Rightarrow> database \<Rightarrow> database mresult" where
  "migrate_v2 E sf now db =
     obind (sql E sf (SpExec 4) ''Failed to apply schema v2: '' (Some (apply_v2 db))) (\<lambda>d.
     obind (sql E sf (SpExec 5) ''Failed to backfill memories_fts: '' (Some (backfill_fts d))) (\<lambda>d'.
     sql E sf (SpExec 6) ''Failed to record schema v2 migration: '' (record_version 2 now d')))"

definition repo_migrate :: "'j store_env \<Rightarrow> sql_faults \<Rightarrow> i64 \<Rightarrow> database \<Rightarrow> database \<times> unit mresult" where
  "repo_migrate E sf now db = transact db
     (obind (sql E sf SpBegin ''Failed to start migration transaction: '' (Some ())) (\<lambda>_.
      obind (sql E sf (SpExec 0) ''Failed to check table existence: '' (Some (db_versions db))) (\<lambda>table.
      obind (case table of
               None \<Rightarrow> Ok 0
             | Some vs \<Rightarrow> sql E sf (SpExec 1) ''Failed to check migration version: '' (Some (max_version vs))) (\<lambda>ver.
      obind (if ver < 1 then migrate_v1 E sf now db else Ok db) (\<lambda>d1.
      obind (if ver < 2 then migrate_v2 E sf now d1 else Ok d1) (\<lambda>d2.
      obind (sql E sf SpCommit ''Failed to commit migration transaction: '' (Some ())) (\<lambda>_.
      Ok (d2, ()))))))))"

text \<open>The strings whose \<open>to\_lowercase\<close> is \<open>ok\<close>; the third form of k is the Kelvin sign.\<close>

definition lowers_to_ok :: "string \<Rightarrow> bool" where
  "lowers_to_ok s \<longleftrightarrow>
     s \<in> set (concat (map (\<lambda>o'. map (\<lambda>k. o' @ k) [''k'', ''K'', map char_of [226, 132, 170 :: nat]]) [''o'', ''O'']))"

definition repo_integrity_check :: "'j store_env \<Rightarrow> sql_faults \<Rightarrow> string \<Rightarrow> unit mresult" where
  "repo_integrity_check E sf answer =
     obind (sql E sf (SpExec 0) ''Failed to run PRAGMA integrity_check: '' (Some answer)) (\<lambda>status.
     if lowers_to_ok status then Ok ()
     else Err (MeCorruptStore EcCorruptStore (''SQLite integrity check failed: '' @ status)))"

definition repo_open ::
  "'j store_env \<Rightarrow> sql_faults \<Rightarrow> sql_faults \<Rightarrow> sql_faults \<Rightarrow> string \<Rightarrow> i64 \<Rightarrow> database \<Rightarrow> database \<times> unit mresult" where
  "repo_open E sf sf_migrate sf_check answer now db =
     and_then (db, sql E sf SpOpen ''Failed to open SQLite database: '' (Some ())) (\<lambda>d _.
     and_then (d, sql E sf (SpPragma 0) ''Failed to set WAL mode: '' (Some ())) (\<lambda>d _.
     and_then (d, sql E sf (SpPragma 1) ''Failed to set synchronous mode: '' (Some ())) (\<lambda>d _.
     and_then (d, sql E sf (SpPragma 2) ''Failed to enable foreign keys: '' (Some ())) (\<lambda>d _.
     and_then (repo_migrate E sf_migrate now d) (\<lambda>d _. (d, repo_integrity_check E sf_check answer))))))"

text \<open>\<open>VACUUM INTO\<close>: the copy of the database.\<close>

definition repo_backup :: "'j store_env \<Rightarrow> sql_faults \<Rightarrow> string \<Rightarrow> database \<Rightarrow> database mresult" where
  "repo_backup E sf path db =
     (if \<not> valid_utf8 path then Err (me_invalid_input ''invalid target backup path'')
      else sql E sf (SpExec 0) ''SQLite VACUUM INTO failed: '' (Some db))"

section \<open>Writing records\<close>

definition repo_insert_pending ::
  "'j store_env \<Rightarrow> sql_faults \<Rightarrow> 'j memory_record \<Rightarrow> string option \<Rightarrow> i64 \<Rightarrow> database \<Rightarrow> database \<times> unit mresult" where
  "repo_insert_pending E sf rec op now db = transact db
     (obind (sql E sf SpBegin ''Failed to begin transaction: '' (Some ())) (\<lambda>_.
      obind (sql E sf (SpExec 0) ''Failed to insert memory: '' (insert_row (row_of_record E rec) db)) (\<lambda>d1.
      obind (case op of
               None \<Rightarrow> Ok d1
             | Some op_id \<Rightarrow> sql E sf (SpExec 1) ''Failed to insert operation journal: ''
                 (insert_op (op_row_of op_id (mr_id rec) ''remember'' (payload_of E rec) ''pending'' now None) d1)) (\<lambda>d2.
      obind (sql E sf SpCommit ''Failed to commit memory transaction: '' (Some ())) (\<lambda>_.
      Ok (d2, ()))))))"

definition opt_at :: "'a option list \<Rightarrow> nat \<Rightarrow> 'a option" where
  "opt_at xs i = (if i < length xs then xs ! i else None)"

definition insert_batch_step ::
  "'j store_env \<Rightarrow> sql_faults \<Rightarrow> string option list \<Rightarrow> i64 \<Rightarrow> database \<Rightarrow> nat \<times> 'j memory_record \<Rightarrow> database mresult" where
  "insert_batch_step E sf ops now db ir =
     (case ir of (i, rec) \<Rightarrow>
       obind (sql E sf (SpExec (2 * i)) ''Failed to insert memory in batch: '' (insert_row (row_of_record E rec) db)) (\<lambda>d1.
       case opt_at ops i of
         None \<Rightarrow> Ok d1
       | Some op_id \<Rightarrow> sql E sf (SpExec (2 * i + 1)) ''Failed to insert operation journal in batch: ''
           (insert_op (op_row_of op_id (mr_id rec) ''remember'' (payload_of E rec) ''pending'' now None) d1)))"

definition repo_insert_pending_batch ::
  "'j store_env \<Rightarrow> sql_faults \<Rightarrow> 'j memory_record list \<Rightarrow> string option list \<Rightarrow> i64 \<Rightarrow> database
    \<Rightarrow> database \<times> unit mresult" where
  "repo_insert_pending_batch E sf recs ops now db =
     (if recs = [] then (db, Ok ())
      else transact db
       (obind (sql E sf SpBegin ''Failed to begin transaction: '' (Some ())) (\<lambda>_.
        obind (sql E sf (SpPrepare 0) ''Failed to prepare batch memory insert statement: '' (Some ())) (\<lambda>_.
        obind (sql E sf (SpPrepare 1) ''Failed to prepare batch operation insert statement: '' (Some ())) (\<lambda>_.
        obind (ofold (insert_batch_step E sf ops now) db (zip [0..<length recs] recs)) (\<lambda>d.
        obind (sql E sf SpCommit ''Failed to commit batch memory transaction: '' (Some ())) (\<lambda>_.
        Ok (d, ()))))))))"

definition repo_set_status ::
  "'j store_env \<Rightarrow> sql_faults \<Rightarrow> string \<Rightarrow> memory_status \<Rightarrow> database \<Rightarrow> database \<times> unit mresult" where
  "repo_set_status E sf i st db = transact db
     (obind (sql E sf (SpExec 0) ''Failed to update status: ''
        (Some (update_rows (\<lambda>r. r_id r = i) (\<lambda>r. r\<lparr> r_status := status_str st \<rparr>) db))) (\<lambda>d. Ok (d, ())))"

definition repo_set_status_batch ::
  "'j store_env \<Rightarrow> sql_faults \<Rightarrow> string list \<Rightarrow> memory_status \<Rightarrow> database \<Rightarrow> database \<times> unit mresult" where
  "repo_set_status_batch E sf ids st db =
     (if ids = [] then (db, Ok ())
      else transact db
       (obind (sql E sf SpBegin ''Failed to begin transaction for set_status_batch: '' (Some ())) (\<lambda>_.
        obind (sql E sf (SpPrepare 0) ''Failed to prepare set_status_batch statement: '' (Some ())) (\<lambda>_.
        obind (ofold (\<lambda>d (n, i). sql E sf (SpExec n) ''Failed to update status in batch: ''
                  (Some (update_rows (\<lambda>r. r_id r = i) (\<lambda>r. r\<lparr> r_status := status_str st \<rparr>) d)))
                db (zip [0..<length ids] ids)) (\<lambda>d.
        obind (sql E sf SpCommit ''Failed to commit set_status_batch transaction: '' (Some ())) (\<lambda>_.
        Ok (d, ())))))))"

section \<open>The operation journal\<close>

definition repo_memory_of_op :: "'j store_env \<Rightarrow> sql_faults \<Rightarrow> string \<Rightarrow> database \<Rightarrow> string option mresult" where
  "repo_memory_of_op E sf op db =
     sql E sf (SpExec 0) ''Failed to query operation: ''
       (Some (map_option o_memory (find (\<lambda>o'. o_id o' = op) (db_ops db))))"

definition apply_op :: "i64 \<Rightarrow> op_row \<Rightarrow> op_row" where
  "apply_op now o' = o'\<lparr> o_state := ''applied'', o_applied := Some now \<rparr>"

definition repo_mark_applied ::
  "'j store_env \<Rightarrow> sql_faults \<Rightarrow> string \<Rightarrow> i64 \<Rightarrow> database \<Rightarrow> database \<times> unit mresult" where
  "repo_mark_applied E sf op now db = transact db
     (obind (sql E sf (SpExec 0) ''Failed to mark operation applied: ''
        (Some (update_ops (\<lambda>o'. o_id o' = op) (apply_op now) db))) (\<lambda>d. Ok (d, ())))"

definition repo_mark_applied_batch ::
  "'j store_env \<Rightarrow> sql_faults \<Rightarrow> string list \<Rightarrow> i64 \<Rightarrow> database \<Rightarrow> database \<times> unit mresult" where
  "repo_mark_applied_batch E sf ops now db =
     (if ops = [] then (db, Ok ())
      else transact db
       (obind (sql E sf SpBegin ''Failed to begin transaction for mark_operation_applied_batch: '' (Some ())) (\<lambda>_.
        obind (sql E sf (SpPrepare 0) ''Failed to prepare mark_operation_applied_batch statement: '' (Some ())) (\<lambda>_.
        obind (ofold (\<lambda>d (n, op). sql E sf (SpExec n) ''Failed to mark operation applied in batch: ''
                  (Some (update_ops (\<lambda>o'. o_id o' = op) (apply_op now) d)))
                db (zip [0..<length ops] ops)) (\<lambda>d.
        obind (sql E sf SpCommit ''Failed to commit mark_operation_applied_batch transaction: '' (Some ())) (\<lambda>_.
        Ok (d, ())))))))"

text \<open>Stepping through the rows of a query: row \<open>n\<close> may fail in the database or in its conversion.\<close>

definition collect_rows :: "'j store_env \<Rightarrow> sql_faults \<Rightarrow> ('r \<Rightarrow> (string, 'a) outcome) \<Rightarrow> 'r list \<Rightarrow> 'a list mresult" where
  "collect_rows E sf conv rs =
     omap (\<lambda>(n, r). obind (sql E sf (SpRow n) ''Row error: '' (Some ())) (\<lambda>_. map_err (db_error ''Row error: '') (conv r)))
       (zip [0..<length rs] rs)"

definition repo_pending_ops ::
  "'j store_env \<Rightarrow> sql_faults \<Rightarrow> database \<Rightarrow> (string \<times> string \<times> string) list mresult" where
  "repo_pending_ops E sf db =
     obind (sql E sf (SpPrepare 0) ''Failed to prepare pending operations query: '' (Some ())) (\<lambda>_.
     obind (sql E sf (SpExec 0) ''Query pending operations failed: ''
        (Some (sort_key (\<lambda>o'. sint (o_created o')) (filter (\<lambda>o'. o_state o' = ''pending'') (ev_scan_ops E (db_ops db)))))) (\<lambda>rows.
     collect_rows E sf (\<lambda>o'. Ok (o_id o', o_memory o', o_kind o')) rows))"

section \<open>Reading records\<close>

text \<open>\<open>query\_row(..).optional()\<close>: the first row, converted.\<close>

definition first_record ::
  "'j store_env \<Rightarrow> sql_faults \<Rightarrow> string \<Rightarrow> (memory_row \<Rightarrow> bool) \<Rightarrow> database \<Rightarrow> 'j memory_record option mresult" where
  "first_record E sf what P db =
     obind (sql E sf (SpExec 0) what (Some (find P (ev_scan E (db_memories db))))) (\<lambda>row.
     case row of None \<Rightarrow> Ok None
     | Some r \<Rightarrow> obind (map_err (db_error what) (record_of_row E StPending r)) (\<lambda>rec. Ok (Some rec)))"

definition in_scope :: "memory_scope \<Rightarrow> memory_row \<Rightarrow> bool" where
  "in_scope sc r \<longleftrightarrow> r_tenant r = sc_tenant sc \<and> r_namespace r = sc_namespace sc"

definition repo_get ::
  "'j store_env \<Rightarrow> sql_faults \<Rightarrow> memory_scope \<Rightarrow> string \<Rightarrow> database \<Rightarrow> 'j memory_record option mresult" where
  "repo_get E sf sc i db =
     obind (sql E sf (SpPrepare 0) ''Failed to prepare query: '' (Some ())) (\<lambda>_.
     first_record E sf ''Query failed: '' (\<lambda>r. r_id r = i \<and> in_scope sc r) db)"

definition repo_get_internal ::
  "'j store_env \<Rightarrow> sql_faults \<Rightarrow> string \<Rightarrow> database \<Rightarrow> 'j memory_record option mresult" where
  "repo_get_internal E sf i db =
     obind (sql E sf (SpPrepare 0) ''Failed to prepare internal record query: '' (Some ())) (\<lambda>_.
     first_record E sf ''Internal query failed: '' (\<lambda>r. r_id r = i) db)"

definition repo_active_records :: "'j store_env \<Rightarrow> sql_faults \<Rightarrow> database \<Rightarrow> 'j memory_record list mresult" where
  "repo_active_records E sf db =
     obind (sql E sf (SpPrepare 0) ''Failed to prepare active records query: '' (Some ())) (\<lambda>_.
     obind (sql E sf (SpExec 0) ''Query active records failed: ''
        (Some (filter (\<lambda>r. r_status r = ''active'') (ev_scan E (db_memories db))))) (\<lambda>rows.
     collect_rows E sf (record_of_row E StActive) rows))"

section \<open>Updating and deleting\<close>

definition update_row :: "'j store_env \<Rightarrow> 'j memory_record \<Rightarrow> u64 \<Rightarrow> memory_row \<Rightarrow> memory_row" where
  "update_row E rec expected r =
     r\<lparr> r_content := mr_content rec, r_hash := mr_hash rec, r_embedding := f32s_bytes (mr_embedding rec),
        r_importance := mr_importance rec, r_updated := mr_updated rec, r_expires := mr_expires rec,
        r_status := status_str (mr_status rec), r_revision := expected + 1,
        r_metadata := json_or_empty (ev_print E (mr_metadata rec)) \<rparr>"

text \<open>\<open>expected\_revision + 1\<close> panics when it overflows.\<close>

definition repo_update ::
  "'j store_env \<Rightarrow> sql_faults \<Rightarrow> 'j memory_record \<Rightarrow> u64 \<Rightarrow> string option \<Rightarrow> i64 \<Rightarrow> database
    \<Rightarrow> database \<times> unit mresult" where
  "repo_update E sf rec expected op now db = transact db
     (obind (sql E sf SpBegin ''Failed to begin update transaction: '' (Some ())) (\<lambda>_.
      obind (sql E sf (SpExec 0) ''Failed to fetch current revision: ''
        (Some (find (\<lambda>r. r_id r = mr_id rec \<and> in_scope (mr_scope rec) r) (ev_scan E (db_memories db))))) (\<lambda>row.
      case row of
        None \<Rightarrow> Err (me_not_found (mr_id rec))
      | Some cur \<Rightarrow>
          if r_status cur = ''deleted'' then Err (me_not_found (mr_id rec))
          else if r_revision cur \<noteq> expected
            then Err (MeRevisionConflict EcRevisionConflict (mr_id rec) expected (r_revision cur))
          else if expected = - 1 then Panic
          else obind (sql E sf (SpExec 1) ''Failed to update memory record: ''
                  (if is_nan (mr_importance rec) then None
                   else Some (update_rows (\<lambda>r. r_id r = mr_id rec \<and> r_revision r = expected) (update_row E rec expected) db))) (\<lambda>d1.
               obind (case op of
                        None \<Rightarrow> Ok d1
                      | Some op_id \<Rightarrow> sql E sf (SpExec 2) ''Failed to record update operation: ''
                          (insert_op (op_row_of op_id (mr_id rec) ''update'' (payload_of E rec) ''pending'' now None) d1)) (\<lambda>d2.
               obind (sql E sf SpCommit ''Failed to commit update transaction: '' (Some ())) (\<lambda>_.
               Ok (d2, ())))))))"

definition tombstone :: "memory_scope \<Rightarrow> string \<Rightarrow> i64 \<Rightarrow> database \<Rightarrow> database" where
  "tombstone sc i now db =
     update_rows (\<lambda>r. r_id r = i \<and> in_scope sc r) (\<lambda>r. r\<lparr> r_status := ''deleted'', r_updated := now \<rparr>) db"

definition repo_delete ::
  "'j store_env \<Rightarrow> sql_faults \<Rightarrow> memory_scope \<Rightarrow> string \<Rightarrow> string option \<Rightarrow> i64 \<Rightarrow> database \<Rightarrow> database \<times> unit mresult" where
  "repo_delete E sf sc i op now db = transact db
     (obind (sql E sf SpBegin ''Failed to begin delete transaction: '' (Some ())) (\<lambda>_.
      obind (sql E sf (SpExec 0) ''Failed to tombstone memory: '' (Some (tombstone sc i now db))) (\<lambda>d1.
      obind (case op of
               None \<Rightarrow> Ok d1
             | Some op_id \<Rightarrow> sql E sf (SpExec 1) ''Failed to insert delete operation: ''
                 (insert_op (op_row_of op_id i ''delete'' ''{}'' ''applied'' now (Some now)) d1)) (\<lambda>d2.
      obind (sql E sf SpCommit ''Failed to commit delete transaction: '' (Some ())) (\<lambda>_.
      Ok (d2, ()))))))"

definition delete_batch_step ::
  "'j store_env \<Rightarrow> sql_faults \<Rightarrow> memory_scope \<Rightarrow> string option list \<Rightarrow> i64 \<Rightarrow> database \<Rightarrow> nat \<times> string \<Rightarrow> database mresult" where
  "delete_batch_step E sf sc ops now db ni =
     (case ni of (n, i) \<Rightarrow>
       obind (sql E sf (SpExec (2 * n)) ''Failed to tombstone memory in batch: '' (Some (tombstone sc i now db))) (\<lambda>d1.
       case opt_at ops n of
         None \<Rightarrow> Ok d1
       | Some op_id \<Rightarrow> sql E sf (SpExec (2 * n + 1)) ''Failed to insert delete operation in batch: ''
           (insert_op (op_row_of op_id i ''delete'' ''{}'' ''applied'' now (Some now)) d1)))"

definition repo_delete_batch ::
  "'j store_env \<Rightarrow> sql_faults \<Rightarrow> memory_scope \<Rightarrow> string list \<Rightarrow> string option list \<Rightarrow> i64 \<Rightarrow> database
    \<Rightarrow> database \<times> unit mresult" where
  "repo_delete_batch E sf sc ids ops now db =
     (if ids = [] then (db, Ok ())
      else transact db
       (obind (sql E sf SpBegin ''Failed to begin delete batch transaction: '' (Some ())) (\<lambda>_.
        obind (sql E sf (SpPrepare 0) ''Failed to prepare delete batch statement: '' (Some ())) (\<lambda>_.
        obind (sql E sf (SpPrepare 1) ''Failed to prepare delete operation batch statement: '' (Some ())) (\<lambda>_.
        obind (ofold (delete_batch_step E sf sc ops now) db (zip [0..<length ids] ids)) (\<lambda>d.
        obind (sql E sf SpCommit ''Failed to commit delete batch transaction: '' (Some ())) (\<lambda>_.
        Ok (d, ()))))))))"

section \<open>Full-text search\<close>

definition fts_char :: "'j store_env \<Rightarrow> string \<Rightarrow> string" where
  "fts_char E c = (if ev_alnum E c \<or> c = ''_'' \<or> c = ''-'' then c else '' '')"

definition quoted :: "string \<Rightarrow> string" where
  "quoted t = [CHR 0x22] @ t @ [CHR 0x22]"

definition fts_tokens :: "'j store_env \<Rightarrow> string \<Rightarrow> string list" where
  "fts_tokens E input = split_whitespace (concat (map (fts_char E) (str_chars input)))"

definition sanitize_fts_query :: "'j store_env \<Rightarrow> string \<Rightarrow> string" where
  "sanitize_fts_query E input =
     (let tokens = fts_tokens E input in
      if tokens = [] then []
      else quoted (str_join '' '' tokens) @ '' OR '' @ str_join '' OR '' (map quoted tokens))"

definition fts_param :: "'j store_env \<Rightarrow> 'j \<Rightarrow> sql_param" where
  "fts_param E val =
     (case ev_view E val of
        JvString s \<Rightarrow> SqlText s
      | JvNumber i f \<Rightarrow> (case i of Some n \<Rightarrow> SqlInt n
          | None \<Rightarrow> (case f of Some x \<Rightarrow> SqlReal x | None \<Rightarrow> SqlText (ev_show E val)))
      | JvBool b \<Rightarrow> SqlInt (if b then 1 else 0)
      | JvOther \<Rightarrow> SqlText (ev_show E val))"

definition fts_cond :: "'j store_env \<Rightarrow> 'j memory_filter \<Rightarrow> memory_row \<Rightarrow> bool" where
  "fts_cond E fl m \<longleftrightarrow>
     (case fl_metadata fl of None \<Rightarrow> True
      | Some conds \<Rightarrow> list_all (\<lambda>(key, val). ev_extract_eq E (r_metadata m) (''$.'' @ key) (fts_param E val)) conds)"

text \<open>The rows of the join, in rank order.\<close>

definition fts_rows ::
  "'j store_env \<Rightarrow> memory_scope \<Rightarrow> string \<Rightarrow> 'j memory_filter \<Rightarrow> database \<Rightarrow> string list" where
  "fts_rows E sc query fl db =
     concat (map (\<lambda>f. map (\<lambda>m. ft_id f)
                  (filter (\<lambda>m. r_id m = ft_id f \<and> r_status m = ''active'' \<and> fts_cond E fl m) (db_memories db)))
       (filter (\<lambda>f. ft_tenant f = sc_tenant sc \<and> ft_namespace f = sc_namespace sc) (ev_match E query (db_fts db))))"

text \<open>\<open>rows.flatten()\<close> drops the error of a step, after which the statement yields no more rows.\<close>

fun until_fault :: "sql_faults \<Rightarrow> nat \<Rightarrow> 'a list \<Rightarrow> 'a list" where
  "until_fault sf n [] = []"
| "until_fault sf n (x # xs) = (if sf (SpRow n) = None then x # until_fault sf (Suc n) xs else [])"

definition repo_search_fts ::
  "'j store_env \<Rightarrow> sql_faults \<Rightarrow> memory_scope \<Rightarrow> string \<Rightarrow> 'j memory_filter \<Rightarrow> nat \<Rightarrow> database \<Rightarrow> string list mresult" where
  "repo_search_fts E sf sc text fl limit db =
     (let query = sanitize_fts_query E text in
      if query = [] then Ok []
      else obind (sql E sf (SpPrepare 0) ''Failed to prepare FTS query: '' (Some ())) (\<lambda>_.
           obind (sql E sf (SpExec 0) ''FTS query failed: '' (Some (sql_limit limit (fts_rows E sc query fl db)))) (\<lambda>rows.
           Ok (until_fault sf 0 rows))))"

section \<open>Health and vacuum\<close>

definition repo_health_counts :: "'j store_env \<Rightarrow> sql_faults \<Rightarrow> database \<Rightarrow> (nat \<times> nat \<times> nat) mresult" where
  "repo_health_counts E sf db =
     obind (sql E sf (SpExec 0) ''Failed to count active records: ''
        (Some (length (filter (\<lambda>r. r_status r = ''active'') (db_memories db))))) (\<lambda>active.
     obind (sql E sf (SpExec 1) ''Failed to count tombstoned records: ''
        (Some (length (filter (\<lambda>r. r_status r = ''deleted'') (db_memories db))))) (\<lambda>tombstoned.
     obind (sql E sf (SpExec 2) ''Failed to count pending operations: ''
        (Some (length (filter (\<lambda>o'. o_state o' = ''pending'') (db_ops db))))) (\<lambda>pending.
     Ok (active, tombstoned, pending))))"

definition expendable :: "i64 \<Rightarrow> memory_row \<Rightarrow> bool" where
  "expendable now r \<longleftrightarrow> r_status r = ''deleted''
     \<or> (case r_expires r of None \<Rightarrow> False | Some t \<Rightarrow> sint t \<le> sint now)"

definition vacuum_ids :: "'j store_env \<Rightarrow> nat \<Rightarrow> i64 \<Rightarrow> database \<Rightarrow> string list" where
  "vacuum_ids E batch now db = sql_limit batch (map r_id (filter (expendable now) (ev_scan E (db_memories db))))"

definition repo_vacuum ::
  "'j store_env \<Rightarrow> sql_faults \<Rightarrow> nat \<Rightarrow> i64 \<Rightarrow> database \<Rightarrow> database \<times> nat mresult" where
  "repo_vacuum E sf batch now db = transact db
     (obind (sql E sf SpBegin ''Failed to start vacuum transaction: '' (Some ())) (\<lambda>_.
      obind (sql E sf (SpExec 0) ''Failed to vacuum tombstoned records: ''
        (Some (vacuum_ids E batch now db))) (\<lambda>ids.
      obind (sql E sf SpCommit ''Failed to commit vacuum transaction: '' (Some ())) (\<lambda>_.
      Ok (delete_rows ids db, length (filter (\<lambda>r. r_id r \<in> set ids) (db_memories db)))))))"

end
