(* ===== verification/Index_Adapter.thy ===== *)
theory Index_Adapter
  imports Vivy_Index Memory_Model
begin

text \<open>
  The vector index of the memory store (\<open>ltm/src/index_adapter.rs\<close>): the operations of the trait
  \<open>VectorIndex\<close>, the contract the store relies on as a locale, and the two implementations, the one on
  the Vivy index and the in-memory test double, each shown to keep the contract.
\<close>

section \<open>The trait\<close>

text \<open>What an operation of an index takes from outside: a random number, the faults of its writes, and
  for a backup the clock, the faults of the compaction and of the copies.\<close>

record index_world =
  iw_random :: f32
  iw_log :: log_faults
  iw_compaction :: compaction_faults
  iw_clock :: u64
  iw_mkdir :: "io_error option"
  iw_copy :: "string \<Rightarrow> io_error option"

record ('ix, 'j) index_ops =
  io_upsert :: "index_world \<Rightarrow> string \<Rightarrow> f32 list \<Rightarrow> 'ix \<Rightarrow> 'ix \<times> unit mresult"
  io_remove :: "string \<Rightarrow> 'ix \<Rightarrow> 'ix \<times> unit mresult"
  io_search :: "f32 list \<Rightarrow> nat \<Rightarrow> 'ix \<Rightarrow> (string \<times> f32) list mresult"
  io_rebuild :: "(nat \<Rightarrow> index_world) \<Rightarrow> 'j memory_record list \<Rightarrow> 'ix \<Rightarrow> 'ix \<times> unit mresult"
  io_healthy :: "'ix \<Rightarrow> bool"
  io_upsert_batch :: "(nat \<Rightarrow> index_world) \<Rightarrow> (string \<times> f32 list) list \<Rightarrow> 'ix \<Rightarrow> 'ix \<times> unit mresult"
  io_remove_batch :: "string list \<Rightarrow> 'ix \<Rightarrow> 'ix \<times> unit mresult"
  io_backup :: "index_world \<Rightarrow> data_dir \<Rightarrow> 'ix \<Rightarrow> 'ix \<times> data_dir mresult"

text \<open>The provided methods of the trait.\<close>

fun default_upsert_batch ::
  "(index_world \<Rightarrow> string \<Rightarrow> f32 list \<Rightarrow> 'ix \<Rightarrow> 'ix \<times> unit mresult) \<Rightarrow> (nat \<Rightarrow> index_world)
    \<Rightarrow> (string \<times> f32 list) list \<Rightarrow> 'ix \<Rightarrow> 'ix \<times> unit mresult" where
  "default_upsert_batch up ws [] ix = (ix, Ok ())"
| "default_upsert_batch up ws ((i, v) # items) ix =
     and_then (up (ws 0) i v ix) (\<lambda>ix1 _. default_upsert_batch up (\<lambda>n. ws (Suc n)) items ix1)"

fun default_remove_batch ::
  "(string \<Rightarrow> 'ix \<Rightarrow> 'ix \<times> unit mresult) \<Rightarrow> string list \<Rightarrow> 'ix \<Rightarrow> 'ix \<times> unit mresult" where
  "default_remove_batch rm [] ix = (ix, Ok ())"
| "default_remove_batch rm (i # ids) ix = and_then (rm i ix) (\<lambda>ix1 _. default_remove_batch rm ids ix1)"

definition default_backup :: "index_world \<Rightarrow> data_dir \<Rightarrow> 'ix \<Rightarrow> 'ix \<times> data_dir mresult" where
  "default_backup w target ix = (ix, Ok target)"

section \<open>The Vivy-backed index\<close>

record 'b vivy_vector_index =
  vv_dims :: nat
  vv_metric :: metric
  vv_index :: "'b vivy_index"
  vv_ids :: "string \<Rightarrow> u64 option"
  vv_names :: "u64 \<Rightarrow> string option"
  vv_tombs :: "string \<Rightarrow> bool option"
  vv_next :: u64

text \<open>The runtime of the engine, with the \<open>Debug\<close> texts of its errors.\<close>

record 'b adapter_env =
  ae_runtime :: "'b runtime"
  ae_vivy_text :: "vivy_error \<Rightarrow> string"
  ae_wal_text :: "wal_error \<Rightarrow> string"

text \<open>\<open>files\<close>: the contents of \<open>index.wal\<close>, if it exists, and the data directory.\<close>

definition vv_new_with_dir ::
  "'b adapter_env \<Rightarrow> (nat \<Rightarrow> f32) \<Rightarrow> io_error option \<Rightarrow> save_stop option \<Rightarrow> nat \<Rightarrow> metric
    \<Rightarrow> (bytes option \<times> data_dir) option \<Rightarrow> 'b vivy_vector_index mresult" where
  "vv_new_with_dir A rnd wal_io stop dims m files =
     obind (map_err (\<lambda>e. db_error ''Failed to create VivyIndex: '' (ae_wal_text A e))
              (vivy_new (ae_runtime A) rnd wal_io stop dims m (map_option fst files) (map_option snd files)))
       (\<lambda>ix. Ok \<lparr> vv_dims = dims, vv_metric = m, vv_index = ix, vv_ids = (\<lambda>_. None), vv_names = (\<lambda>_. None),
                  vv_tombs = (\<lambda>_. None), vv_next = 1 \<rparr>)"

definition vv_new :: "'b adapter_env \<Rightarrow> (nat \<Rightarrow> f32) \<Rightarrow> nat \<Rightarrow> metric \<Rightarrow> 'b vivy_vector_index mresult" where
  "vv_new A rnd dims m = vv_new_with_dir A rnd None None dims m None"

text \<open>The number of a memory id: the one it has, or the next.\<close>

definition vv_number :: "string \<Rightarrow> 'b vivy_vector_index \<Rightarrow> 'b vivy_vector_index \<times> u64" where
  "vv_number i vv =
     (case vv_ids vv i of
        Some n \<Rightarrow> (vv\<lparr> vv_names := (vv_names vv)(n \<mapsto> i) \<rparr>, n)
      | None \<Rightarrow> (let n = vv_next vv in
          (vv\<lparr> vv_ids := (vv_ids vv)(i \<mapsto> n), vv_next := n + 1, vv_names := (vv_names vv)(n \<mapsto> i) \<rparr>, n)))"

definition vv_clear_tomb :: "string \<Rightarrow> 'b vivy_vector_index \<Rightarrow> 'b vivy_vector_index" where
  "vv_clear_tomb i vv = vv\<lparr> vv_tombs := (vv_tombs vv)(i := None) \<rparr>"

definition vv_insert ::
  "'b adapter_env \<Rightarrow> string \<Rightarrow> index_world \<Rightarrow> u64 \<Rightarrow> f32 list \<Rightarrow> 'b vivy_vector_index \<Rightarrow> 'b vivy_vector_index \<times> unit mresult" where
  "vv_insert A what w n v vv =
     (case vivy_insert_with_id (ae_runtime A) (iw_random w) (iw_log w) n v (vv_index vv) of
        (ix, res) \<Rightarrow> (vv\<lparr> vv_index := ix \<rparr>, map_err (\<lambda>e. db_error what (ae_vivy_text A e)) res))"

definition vv_upsert ::
  "'b adapter_env \<Rightarrow> index_world \<Rightarrow> string \<Rightarrow> f32 list \<Rightarrow> 'b vivy_vector_index \<Rightarrow> 'b vivy_vector_index \<times> unit mresult" where
  "vv_upsert A w i v vv =
     (if length v \<noteq> vv_dims vv then (vv, Err (dim_mismatch (vv_dims vv) (length v)))
      else (case vv_number i vv of
              (vv1, n) \<Rightarrow> vv_insert A ''VivyIndex insert failed: '' w n v (vv_clear_tomb i vv1)))"

fun vv_numbers :: "string list \<Rightarrow> 'b vivy_vector_index \<Rightarrow> 'b vivy_vector_index \<times> u64 list" where
  "vv_numbers [] vv = (vv, [])"
| "vv_numbers (i # is) vv =
     (case vv_number i vv of (vv1, n) \<Rightarrow> case vv_numbers is vv1 of (vv2, ns) \<Rightarrow> (vv2, n # ns))"

fun vv_inserts ::
  "'b adapter_env \<Rightarrow> (nat \<Rightarrow> index_world) \<Rightarrow> (u64 \<times> f32 list) list \<Rightarrow> 'b vivy_vector_index
    \<Rightarrow> 'b vivy_vector_index \<times> unit mresult" where
  "vv_inserts A ws [] vv = (vv, Ok ())"
| "vv_inserts A ws ((n, v) # es) vv =
     and_then (vv_insert A ''VivyIndex batch insert failed: '' (ws 0) n v vv) (\<lambda>vv1 _. vv_inserts A (\<lambda>k. ws (Suc k)) es vv1)"

definition vv_upsert_batch ::
  "'b adapter_env \<Rightarrow> (nat \<Rightarrow> index_world) \<Rightarrow> (string \<times> f32 list) list \<Rightarrow> 'b vivy_vector_index
    \<Rightarrow> 'b vivy_vector_index \<times> unit mresult" where
  "vv_upsert_batch A ws items vv =
     (case find (\<lambda>(i, v). length v \<noteq> vv_dims vv) items of
        Some (i, v) \<Rightarrow> (vv, Err (dim_mismatch (vv_dims vv) (length v)))
      | None \<Rightarrow>
          (case vv_numbers (map fst items) vv of
             (vv1, ns) \<Rightarrow> vv_inserts A ws (zip ns (map snd items)) (foldl (\<lambda>x i. vv_clear_tomb i x) vv1 (map fst items))))"

definition vv_remove :: "string \<Rightarrow> 'b vivy_vector_index \<Rightarrow> 'b vivy_vector_index \<times> unit mresult" where
  "vv_remove i vv = (vv\<lparr> vv_tombs := (vv_tombs vv)(i \<mapsto> True) \<rparr>, Ok ())"

definition vv_remove_batch :: "string list \<Rightarrow> 'b vivy_vector_index \<Rightarrow> 'b vivy_vector_index \<times> unit mresult" where
  "vv_remove_batch ids vv =
     (vv\<lparr> vv_tombs := foldl (\<lambda>tombs i. tombs(i \<mapsto> True)) (vv_tombs vv) ids \<rparr>, Ok ())"

text \<open>The hits of the engine whose id has a name that is neither removed nor seen before, until the
  number of results equals the limit (which never happens for the limit 0).\<close>

fun vv_filter_hits ::
  "(u64 \<Rightarrow> string option) \<Rightarrow> (string \<Rightarrow> bool option) \<Rightarrow> nat \<Rightarrow> string list \<Rightarrow> (string \<times> f32) list
    \<Rightarrow> (u64 \<times> f32) list \<Rightarrow> (string \<times> f32) list" where
  "vv_filter_hits names tombs limit seen final [] = final"
| "vv_filter_hits names tombs limit seen final ((n, dist) # raw) =
     (case names n of
        None \<Rightarrow> vv_filter_hits names tombs limit seen final raw
      | Some i \<Rightarrow>
          if tombs i \<noteq> None \<or> i \<in> set seen then vv_filter_hits names tombs limit seen final raw
          else (let final' = final @ [(i, dist)] in
                if length final' = limit then final'
                else vv_filter_hits names tombs limit (i # seen) final' raw))"

text \<open>\<open>limit * 3 + 10\<close> overflows, or the capacity of the result does (32 bytes an element).\<close>

definition vv_search ::
  "'b adapter_env \<Rightarrow> f32 list \<Rightarrow> nat \<Rightarrow> 'b vivy_vector_index \<Rightarrow> (string \<times> f32) list mresult" where
  "vv_search A q limit vv =
     (if length q \<noteq> vv_dims vv then Err (dim_mismatch (vv_dims vv) (length q))
      else if 2 ^ 64 \<le> limit * 3 + 10 then Panic
      else obind (map_err (\<lambda>e. db_error ''VivyIndex search failed: '' (ae_vivy_text A e))
                    (vivy_search (ae_runtime A) q (limit * 3 + 10) (vv_index vv))) (\<lambda>raw.
           if 2 ^ 63 \<le> limit * 32 then Panic
           else Ok (vv_filter_hits (vv_names vv) (vv_tombs vv) limit [] [] raw)))"

text \<open>One record of a rebuild; a record of another dimension is skipped.\<close>

definition vv_rebuild_step ::
  "'b adapter_env \<Rightarrow> (nat \<Rightarrow> index_world) \<Rightarrow> 'b vivy_vector_index \<Rightarrow> nat \<times> 'j memory_record \<Rightarrow> 'b vivy_vector_index mresult" where
  "vv_rebuild_step A ws vv kr =
     (case kr of (k, rec) \<Rightarrow>
       if length (mr_embedding rec) \<noteq> vv_dims vv then Ok vv
       else (let n = vv_next vv in
             case vv_insert A ''Failed to insert during rebuild: '' (ws k) n (mr_embedding rec) vv of
               (vv1, res) \<Rightarrow> obind res (\<lambda>_.
                 Ok (vv1\<lparr> vv_ids := (vv_ids vv1)(mr_id rec \<mapsto> n), vv_names := (vv_names vv1)(n \<mapsto> mr_id rec),
                          vv_next := n + 1 \<rparr>))))"

text \<open>The rebuilt index lives in memory only: it is made without a log and without a directory.\<close>

definition vv_rebuild ::
  "'b adapter_env \<Rightarrow> (nat \<Rightarrow> index_world) \<Rightarrow> 'j memory_record list \<Rightarrow> 'b vivy_vector_index
    \<Rightarrow> 'b vivy_vector_index \<times> unit mresult" where
  "vv_rebuild A ws recs vv =
     (case obind (map_err (\<lambda>e. db_error ''Failed to create new VivyIndex during rebuild: '' (ae_wal_text A e))
                    (vivy_new (ae_runtime A) (\<lambda>_. f_zero) None None (vv_dims vv) (vv_metric vv) None None))
             (\<lambda>ix. ofold (vv_rebuild_step A ws)
                     \<lparr> vv_dims = vv_dims vv, vv_metric = vv_metric vv, vv_index = ix, vv_ids = (\<lambda>_. None),
                       vv_names = (\<lambda>_. None), vv_tombs = (\<lambda>_. None), vv_next = 1 \<rparr>
                     (zip [0..<length recs] recs)) of
        Ok vv' \<Rightarrow> (vv', Ok ())
      | Err e \<Rightarrow> (vv, Err e)
      | Panic \<Rightarrow> (vv, Panic))"

definition vv_backup ::
  "'b adapter_env \<Rightarrow> index_world \<Rightarrow> data_dir \<Rightarrow> 'b vivy_vector_index \<Rightarrow> 'b vivy_vector_index \<times> data_dir mresult" where
  "vv_backup A w target vv =
     (case vivy_flush_and_copy (ae_runtime A) (iw_compaction w) (iw_clock w) (iw_mkdir w) (iw_copy w) target (vv_index vv) of
        (ix, res) \<Rightarrow> (vv\<lparr> vv_index := ix \<rparr>, map_err (\<lambda>e. db_error ''Vector segment backup failed: '' (ae_vivy_text A e)) res))"

definition vivy_ops :: "'b adapter_env \<Rightarrow> ('b vivy_vector_index, 'j) index_ops" where
  "vivy_ops A =
     \<lparr> io_upsert = vv_upsert A, io_remove = vv_remove, io_search = vv_search A, io_rebuild = vv_rebuild A,
       io_healthy = (\<lambda>_. True), io_upsert_batch = vv_upsert_batch A, io_remove_batch = vv_remove_batch,
       io_backup = vv_backup A \<rparr>"

section \<open>The test double\<close>

record test_index =
  ti_dims :: nat
  ti_vectors :: "(string \<times> f32 list) list"

definition ti_new :: "nat \<Rightarrow> test_index" where
  "ti_new dims = \<lparr> ti_dims = dims, ti_vectors = [] \<rparr>"

definition ti_upsert :: "index_world \<Rightarrow> string \<Rightarrow> f32 list \<Rightarrow> test_index \<Rightarrow> test_index \<times> unit mresult" where
  "ti_upsert w i v ti =
     (if length v \<noteq> ti_dims ti then (ti, Err (dim_mismatch (ti_dims ti) (length v)))
      else (ti\<lparr> ti_vectors := AList.update i v (ti_vectors ti) \<rparr>, Ok ()))"

definition ti_remove :: "string \<Rightarrow> test_index \<Rightarrow> test_index \<times> unit mresult" where
  "ti_remove i ti = (ti\<lparr> ti_vectors := AList.delete i (ti_vectors ti) \<rparr>, Ok ())"

text \<open>\<open>ord\<close>: the order in which the hash map is visited.\<close>

definition ti_search ::
  "((string \<times> f32 list) list \<Rightarrow> (string \<times> f32 list) list) \<Rightarrow> f32 list \<Rightarrow> nat \<Rightarrow> test_index \<Rightarrow> (string \<times> f32) list mresult" where
  "ti_search ord q limit ti =
     (if length q \<noteq> ti_dims ti then Err (dim_mismatch (ti_dims ti) (length q))
      else obind (sort_by_dist (sort_key (\<lambda>h. f_key (snd h))) (map (\<lambda>(i, v). (i, cosine q v)) (ord (ti_vectors ti))))
             (\<lambda>scored. Ok (take limit scored)))"

definition ti_rebuild :: "(nat \<Rightarrow> index_world) \<Rightarrow> 'j memory_record list \<Rightarrow> test_index \<Rightarrow> test_index \<times> unit mresult" where
  "ti_rebuild ws recs ti =
     (ti\<lparr> ti_vectors := foldl (\<lambda>m r. AList.update (mr_id r) (mr_embedding r) m) []
           (filter (\<lambda>r. length (mr_embedding r) = ti_dims ti) recs) \<rparr>, Ok ())"

definition test_ops :: "((string \<times> f32 list) list \<Rightarrow> (string \<times> f32 list) list) \<Rightarrow> (test_index, 'j) index_ops" where
  "test_ops ord =
     \<lparr> io_upsert = ti_upsert, io_remove = ti_remove, io_search = ti_search ord, io_rebuild = ti_rebuild,
       io_healthy = (\<lambda>_. True), io_upsert_batch = default_upsert_batch ti_upsert,
       io_remove_batch = default_remove_batch ti_remove, io_backup = default_backup \<rparr>"

section \<open>The contract\<close>

text \<open>
  \<open>ids\<close> are the memory ids that a search may return, \<open>room\<close> how many new ids the index can number.
  The store relies on: an upsert makes the id searchable and changes no other, a removal hides it, a
  rebuild makes exactly the given records searchable, a failed rebuild changes nothing, and a search
  returns searchable ids, each once, at most as many as asked for.
\<close>

locale vector_index =
  fixes ops :: "('ix, 'j) index_ops"
    and inv :: "'ix \<Rightarrow> bool" and ids :: "'ix \<Rightarrow> string set" and dims :: "'ix \<Rightarrow> nat" and room :: "'ix \<Rightarrow> nat"
  assumes upsert_only: "io_upsert ops w i v ix = (ix', res) \<Longrightarrow> ids ix' \<subseteq> insert i (ids ix) \<and> dims ix' = dims ix"
    and upsert_Ok: "io_upsert ops w i v ix = (ix', Ok ()) \<Longrightarrow> inv ix \<Longrightarrow> 0 < room ix \<Longrightarrow>
      inv ix' \<and> ids ix' = insert i (ids ix) \<and> room ix \<le> Suc (room ix') \<and> length v = dims ix"
    and upsert_keeps: "io_upsert ops w i v ix = (ix', res) \<Longrightarrow> inv ix \<Longrightarrow> 0 < room ix \<Longrightarrow> inv ix' \<and> ids ix \<subseteq> ids ix'"
    and remove: "io_remove ops i ix = (ix', res) \<Longrightarrow>
      res = Ok () \<and> ids ix' = ids ix - {i} \<and> room ix' = room ix \<and> dims ix' = dims ix \<and> (inv ix \<longrightarrow> inv ix')"
    and search: "io_search ops q k ix = Ok hits \<Longrightarrow> inv ix \<Longrightarrow>
      distinct (map fst hits) \<and> set (map fst hits) \<subseteq> ids ix \<and> (0 < k \<longrightarrow> length hits \<le> k) \<and> length q = dims ix"
    and rebuild_Ok: "io_rebuild ops ws recs ix = (ix', Ok ()) \<Longrightarrow> length recs < 2 ^ 64 - 1 \<Longrightarrow>
      inv ix' \<and> ids ix' = mr_id ` {r \<in> set recs. length (mr_embedding r) = dims ix} \<and> dims ix' = dims ix"
    and rebuild_failed: "io_rebuild ops ws recs ix = (ix', res) \<Longrightarrow> res \<noteq> Ok () \<Longrightarrow> ix' = ix"
    and upsert_batch_only: "io_upsert_batch ops ws items ix = (ix', res) \<Longrightarrow>
      ids ix' \<subseteq> fst ` set items \<union> ids ix \<and> dims ix' = dims ix"
    and upsert_batch_Ok: "io_upsert_batch ops ws items ix = (ix', Ok ()) \<Longrightarrow> inv ix \<Longrightarrow> length items \<le> room ix \<Longrightarrow>
      inv ix' \<and> ids ix' = fst ` set items \<union> ids ix"
    and remove_batch: "io_remove_batch ops is ix = (ix', res) \<Longrightarrow>
      res = Ok () \<and> ids ix' = ids ix - set is \<and> dims ix' = dims ix \<and> (inv ix \<longrightarrow> inv ix')"
    and search_only: "io_search ops q k ix = Ok hits \<Longrightarrow> set (map fst hits) \<subseteq> ids ix"
    and rebuild_only: "io_rebuild ops ws recs ix = (ix', Ok ()) \<Longrightarrow> ids ix' \<subseteq> mr_id ` set recs"

section \<open>The Vivy-backed index keeps the contract\<close>

definition vv_inv :: "'b vivy_vector_index \<Rightarrow> bool" where
  "vv_inv vv \<longleftrightarrow> (\<forall>i n. vv_ids vv i = Some n \<longrightarrow> vv_names vv n = Some i)
     \<and> (\<forall>n i. vv_names vv n = Some i \<longrightarrow> unat n < unat (vv_next vv))"

definition vv_live :: "'b vivy_vector_index \<Rightarrow> string set" where
  "vv_live vv = {i. i \<in> ran (vv_names vv) \<and> vv_tombs vv i = None}"

definition vv_room :: "'b vivy_vector_index \<Rightarrow> nat" where
  "vv_room vv = 2 ^ 64 - 1 - unat (vv_next vv)"

lemma vv_next_Suc: "0 < vv_room vv \<Longrightarrow> unat (vv_next vv + 1) = Suc (unat (vv_next vv))"
  by (simp add: vv_room_def unat_word_ariths)

lemma vv_insert_frame:
  "vv_insert A what w n v vv = (vv', res) \<Longrightarrow> \<exists>ix. vv' = vv\<lparr> vv_index := ix \<rparr>"
  by (auto simp: vv_insert_def split: prod.splits)

lemma vv_frame [simp]:
  "vv_inv (vv\<lparr> vv_index := ix \<rparr>) = vv_inv vv" "vv_live (vv\<lparr> vv_index := ix \<rparr>) = vv_live vv"
  "vv_room (vv\<lparr> vv_index := ix \<rparr>) = vv_room vv"
  "vv_inv (vv_clear_tomb i vv) = vv_inv vv" "vv_room (vv_clear_tomb i vv) = vv_room vv"
  "vv_dims (vv_clear_tomb i vv) = vv_dims vv"
  by (simp_all add: vv_inv_def vv_live_def vv_room_def vv_clear_tomb_def)

lemma vv_live_clear: "vv_live (vv_clear_tomb i vv) = vv_live vv \<union> ({i} \<inter> ran (vv_names vv))"
  by (auto simp: vv_live_def vv_clear_tomb_def)

text \<open>Numbering an id gives it a name of its own and takes none away.\<close>

lemma vv_number_facts:
  assumes "vv_number i vv = (vv', n)" "vv_inv vv" "0 < vv_room vv"
  shows "vv_inv vv' \<and> ran (vv_names vv') = insert i (ran (vv_names vv)) \<and> vv_tombs vv' = vv_tombs vv
      \<and> vv_dims vv' = vv_dims vv \<and> vv_room vv \<le> Suc (vv_room vv')"
proof (cases "vv_ids vv i")
  case (Some m)
  then have "vv_names vv m = Some i" using assms(2) by (simp add: vv_inv_def)
  then have "(vv_names vv)(m \<mapsto> i) = vv_names vv" "i \<in> ran (vv_names vv)" by (auto simp: ranI)
  then show "vv_inv vv' \<and> ran (vv_names vv') = insert i (ran (vv_names vv)) \<and> vv_tombs vv' = vv_tombs vv
      \<and> vv_dims vv' = vv_dims vv \<and> vv_room vv \<le> Suc (vv_room vv')"
    using assms Some by (auto simp: vv_number_def)
next
  case None
  have fresh: "vv_names vv (vv_next vv) = None" using assms(2) by (force simp: vv_inv_def)
  have S: "unat (vv_next vv + 1) = Suc (unat (vv_next vv))" by (rule vv_next_Suc [OF assms(3)])
  have vv': "vv' = vv\<lparr> vv_ids := (vv_ids vv)(i \<mapsto> vv_next vv), vv_next := vv_next vv + 1,
      vv_names := (vv_names vv)(vv_next vv \<mapsto> i) \<rparr>"
    using assms(1) None by (auto simp: vv_number_def Let_def)
  have "vv_inv vv'"
    using assms(2) fresh unfolding vv' vv_inv_def by (auto simp: S less_SucI)
  moreover have "ran (vv_names vv') = insert i (ran (vv_names vv))"
    using fresh unfolding vv' by (simp add: ran_map_upd)
  ultimately show "vv_inv vv' \<and> ran (vv_names vv') = insert i (ran (vv_names vv)) \<and> vv_tombs vv' = vv_tombs vv
      \<and> vv_dims vv' = vv_dims vv \<and> vv_room vv \<le> Suc (vv_room vv')"
    by (simp add: vv' vv_room_def S)
qed

lemma vv_upsert_facts:
  assumes "vv_upsert A w i v vv = (vv', res)" "vv_inv vv" "0 < vv_room vv" "length v = vv_dims vv"
  shows "vv_inv vv' \<and> vv_live vv' = insert i (vv_live vv) \<and> vv_room vv \<le> Suc (vv_room vv') \<and> vv_dims vv' = vv_dims vv"
proof -
  obtain vv1 n where n: "vv_number i vv = (vv1, n)" by fastforce
  note facts = vv_number_facts [OF n assms(2,3)]
  from assms(1,4) n obtain ix where vv': "vv' = (vv_clear_tomb i vv1)\<lparr> vv_index := ix \<rparr>"
    by (auto simp: vv_upsert_def dest!: vv_insert_frame)
  have "vv_live vv' = insert i (vv_live vv)"
    using facts by (auto simp: vv' vv_live_def vv_clear_tomb_def)
  then show ?thesis using facts by (simp add: vv')
qed

lemma ran_upd_subset: "ran (m(k \<mapsto> v)) \<subseteq> insert v (ran m)"
  by (auto simp: ran_def)

lemma vv_number_only:
  "vv_number i vv = (vv', n) \<Longrightarrow> ran (vv_names vv') \<subseteq> insert i (ran (vv_names vv)) \<and> vv_tombs vv' = vv_tombs vv
    \<and> vv_dims vv' = vv_dims vv"
  by (auto simp: vv_number_def Let_def split: option.splits dest!: subsetD [OF ran_upd_subset])

lemma vv_upsert_only:
  assumes "vv_upsert A w i v vv = (vv', res)"
  shows "vv_live vv' \<subseteq> insert i (vv_live vv) \<and> vv_dims vv' = vv_dims vv"
proof (cases "length v = vv_dims vv")
  case True
  obtain vv1 n where n: "vv_number i vv = (vv1, n)" by fastforce
  from assms True n obtain ix where vv': "vv' = (vv_clear_tomb i vv1)\<lparr> vv_index := ix \<rparr>"
    by (auto simp: vv_upsert_def dest!: vv_insert_frame)
  show ?thesis using vv_number_only [OF n] by (auto simp: vv' vv_live_def vv_clear_tomb_def)
next
  case False
  then show ?thesis using assms by (auto simp: vv_upsert_def)
qed

lemma vv_numbers_only:
  "vv_numbers is vv = (vv', ns) \<Longrightarrow> ran (vv_names vv') \<subseteq> set is \<union> ran (vv_names vv) \<and> vv_tombs vv' = vv_tombs vv
    \<and> vv_dims vv' = vv_dims vv"
proof (induction "is" arbitrary: vv vv' ns)
  case Nil
  then show ?case by simp
next
  case (Cons i "is")
  obtain vv1 n where n: "vv_number i vv = (vv1, n)" by fastforce
  obtain vv2 ms where ms: "vv_numbers is vv1 = (vv2, ms)" by fastforce
  show ?case using Cons.IH [OF ms] vv_number_only [OF n] Cons.prems n ms by auto
qed

lemma vv_numbers_facts:
  assumes "vv_numbers is vv = (vv', ns)" "vv_inv vv" "length is \<le> vv_room vv"
  shows "vv_inv vv' \<and> ran (vv_names vv') = set is \<union> ran (vv_names vv) \<and> vv_tombs vv' = vv_tombs vv
    \<and> vv_dims vv' = vv_dims vv"
  using assms
proof (induction "is" arbitrary: vv vv' ns)
  case Nil
  then show ?case by simp
next
  case (Cons i "is")
  obtain vv1 n where n: "vv_number i vv = (vv1, n)" by fastforce
  obtain vv2 ms where ms: "vv_numbers is vv1 = (vv2, ms)" by fastforce
  have "0 < vv_room vv" using Cons.prems(3) by simp
  note facts = vv_number_facts [OF n Cons.prems(2) this]
  have "length is \<le> vv_room vv1" using facts Cons.prems(3) by simp
  from Cons.IH [OF ms _ this] show ?case using facts Cons.prems(1) n ms by auto
qed

lemma vv_inserts_frame:
  "vv_inserts A ws es vv = (vv', res) \<Longrightarrow> \<exists>ix. vv' = vv\<lparr> vv_index := ix \<rparr>"
proof (induction A ws es vv arbitrary: vv' res rule: vv_inserts.induct)
  case (1 A ws vv)
  then show ?case by (auto intro: exI [of _ "vv_index vv"])
next
  case (2 A ws n v es vv)
  obtain vv1 r where i: "vv_insert A ''VivyIndex batch insert failed: '' (ws 0) n v vv = (vv1, r)" by fastforce
  from vv_insert_frame [OF i] obtain ix where vv1: "vv1 = vv\<lparr> vv_index := ix \<rparr>" by blast
  show ?case
  proof (cases r)
    case (Ok x)
    then have "vv_inserts A (\<lambda>k. ws (Suc k)) es vv1 = (vv', res)" using 2(2) i by simp
    from 2(1) [OF this] show ?thesis using vv1 by auto
  qed (use 2(2) i vv1 in auto)
qed

lemma vv_clear_tombs:
  "foldl (\<lambda>x i. vv_clear_tomb i x) vv is = vv\<lparr> vv_tombs := (\<lambda>i. if i \<in> set is then None else vv_tombs vv i) \<rparr>"
  by (induction "is" arbitrary: vv) (auto simp: vv_clear_tomb_def fun_eq_iff)

lemma vv_upsert_batch_facts:
  assumes "vv_upsert_batch A ws items vv = (vv', Ok ())" "vv_inv vv" "length items \<le> vv_room vv"
  shows "vv_inv vv' \<and> vv_live vv' = fst ` set items \<union> vv_live vv \<and> vv_dims vv' = vv_dims vv"
proof -
  obtain vv1 ns where n: "vv_numbers (map fst items) vv = (vv1, ns)" by fastforce
  have facts: "vv_inv vv1 \<and> ran (vv_names vv1) = set (map fst items) \<union> ran (vv_names vv)
      \<and> vv_tombs vv1 = vv_tombs vv \<and> vv_dims vv1 = vv_dims vv"
    using vv_numbers_facts [OF n assms(2)] assms(3) by simp
  from assms(1) n obtain ix where vv': "vv' = (foldl (\<lambda>x i. vv_clear_tomb i x) vv1 (map fst items))\<lparr> vv_index := ix \<rparr>"
    by (auto simp: vv_upsert_batch_def split: option.splits dest!: vv_inserts_frame)
  show ?thesis using facts unfolding vv' vv_clear_tombs by (auto simp: vv_live_def vv_inv_def)
qed

lemma vv_upsert_batch_only:
  assumes "vv_upsert_batch A ws items vv = (vv', res)"
  shows "vv_live vv' \<subseteq> fst ` set items \<union> vv_live vv \<and> vv_dims vv' = vv_dims vv"
proof (cases "find (\<lambda>(i, v). length v \<noteq> vv_dims vv) items")
  case None
  obtain vv1 ns where n: "vv_numbers (map fst items) vv = (vv1, ns)" by fastforce
  from assms None n obtain ix where vv': "vv' = (foldl (\<lambda>x i. vv_clear_tomb i x) vv1 (map fst items))\<lparr> vv_index := ix \<rparr>"
    by (auto simp: vv_upsert_batch_def dest!: vv_inserts_frame)
  show ?thesis using vv_numbers_only [OF n] unfolding vv' vv_clear_tombs by (auto simp: vv_live_def split: if_splits)
next
  case (Some iv)
  then show ?thesis using assms by (cases iv) (auto simp: vv_upsert_batch_def)
qed

lemma tombs_fold: "foldl (\<lambda>tombs i. tombs(i \<mapsto> True)) m is = (\<lambda>i. if i \<in> set is then Some True else m i)"
  by (induction "is" arbitrary: m) (auto simp: fun_eq_iff)

definition hits_ok :: "string set \<Rightarrow> nat \<Rightarrow> (string \<times> f32) list \<Rightarrow> bool" where
  "hits_ok live limit hits \<longleftrightarrow> distinct (map fst hits) \<and> set (map fst hits) \<subseteq> live \<and> (0 < limit \<longrightarrow> length hits \<le> limit)"

lemma vv_filter_hits_facts:
  assumes "set (map fst final) \<subseteq> set seen" "hits_ok {i. i \<in> ran names \<and> tombs i = None} limit final"
    and "limit = 0 \<or> length final < limit"
  shows "hits_ok {i. i \<in> ran names \<and> tombs i = None} limit (vv_filter_hits names tombs limit seen final raw)"
  using assms
proof (induction names tombs limit seen final raw rule: vv_filter_hits.induct)
  case (1 names tombs limit seen final)
  then show ?case by simp
next
  case (2 names tombs limit seen final n dist raw)
  let ?live = "{i. i \<in> ran names \<and> tombs i = None}"
  show ?case
  proof (cases "names n")
    case None
    then show ?thesis using 2 by simp
  next
    case (Some i)
    show ?thesis
    proof (cases "tombs i \<noteq> None \<or> i \<in> set seen")
      case True
      then show ?thesis using 2 Some by simp
    next
      case False
      let ?final = "final @ [(i, dist)]"
      have "i \<in> ran names" using Some by (rule ranI)
      then have ok: "hits_ok ?live limit ?final" using 2(4-6) False by (auto simp: hits_ok_def)
      show ?thesis
      proof (cases "length ?final = limit")
        case True
        then show ?thesis using Some False ok by (simp add: Let_def)
      next
        case more: False
        have "limit = 0 \<or> length ?final < limit" "set (map fst ?final) \<subseteq> set (i # seen)"
          using more 2(4,6) by auto
        with 2(3) [OF Some False refl more] ok
        have "hits_ok ?live limit (vv_filter_hits names tombs limit (i # seen) ?final raw)" by blast
        moreover have "vv_filter_hits names tombs limit seen final ((n, dist) # raw)
            = vv_filter_hits names tombs limit (i # seen) ?final raw"
          using Some False more by (simp add: Let_def)
        ultimately show ?thesis by (simp only:)
      qed
    qed
  qed
qed

lemma vv_search_facts:
  assumes "vv_search A q k vv = Ok hits"
  shows "distinct (map fst hits) \<and> set (map fst hits) \<subseteq> vv_live vv \<and> (0 < k \<longrightarrow> length hits \<le> k) \<and> length q = vv_dims vv"
  using assms vv_filter_hits_facts [of "[]" "[]" "vv_names vv" "vv_tombs vv" k]
  by (auto simp: vv_search_def vv_live_def hits_ok_def outcome_iff split: if_splits)

lemma vv_rebuild_step_facts:
  assumes "vv_rebuild_step A ws vv (k, rec) = Ok vv'" "vv_inv vv" "0 < vv_room vv"
  shows "vv_inv vv' \<and> vv_dims vv' = vv_dims vv \<and> vv_tombs vv' = vv_tombs vv \<and> vv_room vv \<le> Suc (vv_room vv')
    \<and> ran (vv_names vv') = (if length (mr_embedding rec) = vv_dims vv then {mr_id rec} else {}) \<union> ran (vv_names vv)"
proof (cases "length (mr_embedding rec) = vv_dims vv")
  case False
  then show ?thesis using assms by (simp add: vv_rebuild_step_def)
next
  case True
  let ?n = "vv_next vv"
  have fresh: "vv_names vv ?n = None" using assms(2) by (force simp: vv_inv_def)
  have S: "unat (?n + 1) = Suc (unat ?n)" by (rule vv_next_Suc [OF assms(3)])
  obtain ix where vv': "vv' = vv\<lparr> vv_index := ix, vv_ids := (vv_ids vv)(mr_id rec \<mapsto> ?n),
      vv_names := (vv_names vv)(?n \<mapsto> mr_id rec), vv_next := ?n + 1 \<rparr>"
    using assms(1) True
    by (auto simp: vv_rebuild_step_def Let_def outcome_iff split: prod.splits dest!: vv_insert_frame)
  have "vv_inv vv'"
    using assms(2) fresh unfolding vv' vv_inv_def by (auto simp: S less_SucI)
  then show ?thesis using fresh True by (simp add: vv' vv_room_def S ran_map_upd)
qed

lemma vv_rebuild_steps:
  assumes "ofold (vv_rebuild_step A ws) vv krs = Ok vv'" "vv_inv vv" "length krs \<le> vv_room vv"
  shows "vv_inv vv' \<and> vv_dims vv' = vv_dims vv \<and> vv_tombs vv' = vv_tombs vv
    \<and> ran (vv_names vv') = mr_id ` {r \<in> snd ` set krs. length (mr_embedding r) = vv_dims vv} \<union> ran (vv_names vv)"
  using assms
proof (induction krs arbitrary: vv)
  case Nil
  then show ?case by simp
next
  case (Cons kr krs)
  obtain k rec where kr: "kr = (k, rec)" by fastforce
  from Cons.prems(1) obtain vv1 where s: "vv_rebuild_step A ws vv (k, rec) = Ok vv1"
    and r: "ofold (vv_rebuild_step A ws) vv1 krs = Ok vv'" by (auto simp: kr outcome_iff)
  have "0 < vv_room vv" using Cons.prems(3) by simp
  note facts = vv_rebuild_step_facts [OF s Cons.prems(2) this]
  have "length krs \<le> vv_room vv1" using facts Cons.prems(3) by simp
  from Cons.IH [OF r _ this] facts show ?case by (auto simp: kr)
qed

lemma vv_rebuild_facts:
  assumes "vv_rebuild A ws recs vv = (vv', Ok ())" "length recs < 2 ^ 64 - 1"
  shows "vv_inv vv' \<and> vv_live vv' = mr_id ` {r \<in> set recs. length (mr_embedding r) = vv_dims vv} \<and> vv_dims vv' = vv_dims vv"
proof -
  obtain ix where "ofold (vv_rebuild_step A ws)
       \<lparr> vv_dims = vv_dims vv, vv_metric = vv_metric vv, vv_index = ix, vv_ids = (\<lambda>_. None),
         vv_names = (\<lambda>_. None), vv_tombs = (\<lambda>_. None), vv_next = 1 \<rparr> (zip [0..<length recs] recs) = Ok vv'"
    (is "ofold _ ?v0 _ = _")
    using assms(1) by (auto simp: vv_rebuild_def outcome_iff split: outcome.splits)
  note steps = vv_rebuild_steps [OF this]
  have "snd ` set (zip [0..<length recs] recs) = set recs"
    by (metis length_map map_nth map_snd_zip set_map)
  with steps assms(2) show ?thesis by (simp add: vv_inv_def vv_room_def vv_live_def)
qed

lemma vv_rebuild_only:
  assumes "vv_rebuild A ws recs vv = (vv', Ok ())"
  shows "vv_live vv' \<subseteq> mr_id ` set recs"
proof -
  obtain ix where "ofold (vv_rebuild_step A ws)
       \<lparr> vv_dims = vv_dims vv, vv_metric = vv_metric vv, vv_index = ix, vv_ids = (\<lambda>_. None),
         vv_names = (\<lambda>_. None), vv_tombs = (\<lambda>_. None), vv_next = 1 \<rparr> (zip [0..<length recs] recs) = Ok vv'"
    using assms(1) by (auto simp: vv_rebuild_def outcome_iff split: outcome.splits)
  then have "ran (vv_names vv') \<subseteq> mr_id ` set recs"
  proof (rule ofold_invariant)
    fix v kr v' assume kr: "kr \<in> set (zip [0..<length recs] recs)" and v: "ran (vv_names v) \<subseteq> mr_id ` set recs"
      and s: "vv_rebuild_step A ws v kr = Ok v'"
    obtain k rec where k: "kr = (k, rec)" by fastforce
    then have rec: "rec \<in> set recs" using kr by (auto dest: set_zip_rightD)
    show "ran (vv_names v') \<subseteq> mr_id ` set recs"
    proof (cases "length (mr_embedding rec) = vv_dims v")
      case False
      then show ?thesis using s v by (simp add: k vv_rebuild_step_def)
    next
      case True
      then obtain n where "vv_names v' = (vv_names v)(n \<mapsto> mr_id rec)"
        using s by (auto simp: k vv_rebuild_step_def Let_def outcome_iff split: prod.splits dest!: vv_insert_frame)
      then show ?thesis using v rec ran_upd_subset [of "vv_names v" n "mr_id rec"] by auto
    qed
  qed simp
  then show ?thesis by (auto simp: vv_live_def)
qed

lemma vv_rebuild_failed: "vv_rebuild A ws recs vv = (vv', res) \<Longrightarrow> res \<noteq> Ok () \<Longrightarrow> vv' = vv"
  by (auto simp: vv_rebuild_def split: outcome.splits)

interpretation vv: vector_index "vivy_ops A :: ('b vivy_vector_index, 'j) index_ops" vv_inv vv_live vv_dims vv_room
proof (unfold_locales, goal_cases)
  case (1 w i v ix ix' res)
  then show ?case using vv_upsert_only by (simp add: vivy_ops_def)
next
  case (2 w i v ix ix')
  then have "length v = vv_dims ix" by (auto simp: vivy_ops_def vv_upsert_def split: if_splits)
  then show ?case using 2 vv_upsert_facts [of A w i v ix ix' "Ok ()"] by (simp add: vivy_ops_def)
next
  case (3 w i v ix ix' res)
  show ?case
  proof (cases "length v = vv_dims ix")
    case True
    then show ?thesis using 3 vv_upsert_facts [of A w i v ix ix' res] by (auto simp: vivy_ops_def)
  next
    case False
    then show ?thesis using 3 by (auto simp: vivy_ops_def vv_upsert_def)
  qed
next
  case (4 i ix ix' res)
  then show ?case by (auto simp: vivy_ops_def vv_remove_def vv_inv_def vv_live_def vv_room_def split: if_splits)
next
  case (5 q k ix hits)
  then show ?case using vv_search_facts by (simp add: vivy_ops_def)
next
  case (6 ws recs ix ix')
  then show ?case using vv_rebuild_facts by (simp add: vivy_ops_def)
next
  case (7 ws recs ix ix' res)
  then show ?case using vv_rebuild_failed by (simp add: vivy_ops_def)
next
  case (8 ws items ix ix' res)
  then show ?case using vv_upsert_batch_only by (simp add: vivy_ops_def)
next
  case (9 ws items ix ix')
  then show ?case using vv_upsert_batch_facts [of A ws items ix ix'] by (simp add: vivy_ops_def)
next
  case (10 "is" ix ix' res)
  then show ?case by (auto simp: vivy_ops_def vv_remove_batch_def tombs_fold vv_inv_def vv_live_def split: if_splits)
next
  case (11 q k ix hits)
  then show ?case using vv_search_facts [of A q k ix hits] by (simp add: vivy_ops_def)
next
  case (12 ws recs ix ix')
  then show ?case using vv_rebuild_only by (simp add: vivy_ops_def)
qed

section \<open>The test double keeps the contract\<close>

definition ti_inv :: "test_index \<Rightarrow> bool" where
  "ti_inv ti \<longleftrightarrow> distinct (map fst (ti_vectors ti))"

definition ti_live :: "test_index \<Rightarrow> string set" where
  "ti_live ti = fst ` set (ti_vectors ti)"

lemma ti_upsert_facts:
  assumes "ti_upsert w i v ti = (ti', res)" "ti_inv ti"
  shows "ti_inv ti' \<and> ti_dims ti' = ti_dims ti
    \<and> (if length v = ti_dims ti then res = Ok () \<and> ti_live ti' = insert i (ti_live ti)
       else res = Err (dim_mismatch (ti_dims ti) (length v)) \<and> ti' = ti)"
proof (cases "length v = ti_dims ti")
  case True
  then have "ti' = ti\<lparr> ti_vectors := AList.update i v (ti_vectors ti) \<rparr>" "res = Ok ()"
    using assms(1) by (simp_all add: ti_upsert_def)
  then show ?thesis
    using True assms(2) AList.distinct_update [of "ti_vectors ti" i v]
    by (simp add: ti_inv_def ti_live_def dom_update)
next
  case False
  then show ?thesis using assms by (auto simp: ti_upsert_def)
qed

lemma ti_upsert_only:
  assumes "ti_upsert w i v ti = (ti', res)"
  shows "ti_live ti' \<subseteq> insert i (ti_live ti) \<and> ti_dims ti' = ti_dims ti"
proof (cases "length v = ti_dims ti")
  case True
  then have "ti' = ti\<lparr> ti_vectors := AList.update i v (ti_vectors ti) \<rparr>"
    using assms by (simp add: ti_upsert_def)
  then show ?thesis by (simp add: ti_live_def dom_update)
next
  case False
  then show ?thesis using assms by (auto simp: ti_upsert_def)
qed

lemma ti_remove_facts:
  "ti_live (fst (ti_remove i ti)) = ti_live ti - {i}" "ti_inv ti \<Longrightarrow> ti_inv (fst (ti_remove i ti))"
  "ti_dims (fst (ti_remove i ti)) = ti_dims ti"
proof -
  show "ti_live (fst (ti_remove i ti)) = ti_live ti - {i}"
    by (auto simp: ti_remove_def ti_live_def AList.delete_eq)
qed (simp_all add: ti_remove_def ti_inv_def AList.distinct_delete)

lemma ti_rebuild_facts:
  "distinct (map fst m) \<Longrightarrow>
    distinct (map fst (foldl (\<lambda>m r. AList.update (mr_id r) (mr_embedding r) m) m recs))
    \<and> fst ` set (foldl (\<lambda>m r. AList.update (mr_id r) (mr_embedding r) m) m recs) = mr_id ` set recs \<union> fst ` set m"
proof (induction recs arbitrary: m)
  case Nil
  then show ?case by simp
next
  case (Cons r recs)
  from Cons.IH [OF AList.distinct_update [OF Cons.prems], of "mr_id r" "mr_embedding r"]
  show ?case by (simp add: dom_update)
qed

lemma ti_upsert_batch_facts:
  "default_upsert_batch ti_upsert ws items ti = (ti', Ok ()) \<Longrightarrow> ti_inv ti \<Longrightarrow>
    ti_inv ti' \<and> ti_live ti' = fst ` set items \<union> ti_live ti \<and> ti_dims ti' = ti_dims ti"
proof (induction items arbitrary: ws ti)
  case Nil
  then show ?case by simp
next
  case (Cons iv items)
  obtain i v where iv: "iv = (i, v)" by fastforce
  obtain ti1 r where u: "ti_upsert (ws 0) i v ti = (ti1, r)" by fastforce
  with Cons.prems iv have "r = Ok ()" by (cases r) auto
  then show ?case
    using Cons.IH [of "\<lambda>n. ws (Suc n)" ti1] Cons.prems iv u ti_upsert_facts [OF u] by (auto split: if_splits)
qed

lemma ti_upsert_batch_only:
  "default_upsert_batch ti_upsert ws items ti = (ti', res) \<Longrightarrow>
    ti_live ti' \<subseteq> fst ` set items \<union> ti_live ti \<and> ti_dims ti' = ti_dims ti"
proof (induction items arbitrary: ws ti)
  case Nil
  then show ?case by simp
next
  case (Cons iv items)
  obtain i v where iv: "iv = (i, v)" by fastforce
  obtain ti1 r where u: "ti_upsert (ws 0) i v ti = (ti1, r)" by fastforce
  then show ?case
    using Cons.IH [of "\<lambda>n. ws (Suc n)" ti1] Cons.prems iv ti_upsert_only [OF u] by (cases r) auto
qed

lemma ti_remove_batch_facts:
  "default_remove_batch ti_remove is ti = (ti', res) \<Longrightarrow>
    res = Ok () \<and> ti_live ti' = ti_live ti - set is \<and> ti_dims ti' = ti_dims ti \<and> (ti_inv ti \<longrightarrow> ti_inv ti')"
proof (induction "is" arbitrary: ti)
  case Nil
  then show ?case by auto
next
  case (Cons i "is")
  obtain ti1 where r: "ti_remove i ti = (ti1, Ok ())" by (simp add: ti_remove_def)
  then show ?case using Cons.IH [of ti1] Cons.prems ti_remove_facts(1,3) [of i ti] ti_remove_facts(2) [of ti i] by auto
qed

lemma ti_search_facts:
  assumes "ti_search ord q k ti = Ok hits" "ti_inv ti" "\<And>m. mset (ord m) = mset m"
  shows "distinct (map fst hits) \<and> set (map fst hits) \<subseteq> ti_live ti \<and> length hits \<le> k \<and> length q = ti_dims ti"
proof -
  let ?scored = "sort_key (\<lambda>h. f_key (snd h)) (map (\<lambda>(i, v). (i, cosine q v)) (ord (ti_vectors ti)))"
  have hits: "hits = take k ?scored" and q: "length q = ti_dims ti"
    using assms(1) by (auto simp: ti_search_def outcome_iff sort_by_dist_def split: if_splits)
  have m: "mset (map fst ?scored) = mset (map fst (ti_vectors ti))"
    by (simp add: assms(3) image_mset.compositionality o_def case_prod_unfold)
  have "distinct (map fst ?scored)" "set (map fst ?scored) = ti_live ti"
    using mset_eq_imp_distinct_iff [OF m] mset_eq_setD [OF m] assms(2)
    by (simp_all only: ti_inv_def ti_live_def set_map)
  then show ?thesis
    using q set_take_subset [of k "map fst ?scored"] unfolding hits take_map [symmetric] by (auto simp del: set_map)
qed

text \<open>The test double numbers nothing; its room is a bound that no index reaches.\<close>

definition ti_room :: "test_index \<Rightarrow> nat" where
  "ti_room ti = 2 ^ 64"

lemma ti_room_const: "ti_room a \<le> Suc (ti_room b)" "ti_room a = ti_room b"
  by (simp_all only: ti_room_def le_Suc_eq order_refl simp_thms)

interpretation ti: vector_index "test_ops id :: (test_index, 'j) index_ops" ti_inv ti_live ti_dims ti_room
proof (unfold_locales, goal_cases)
  case (1 w i v ix ix' res)
  then show ?case using ti_upsert_only by (simp add: test_ops_def)
next
  case (2 w i v ix ix')
  then show ?case using ti_upsert_facts [of w i v ix ix' "Ok ()"] ti_room_const(1) [of ix ix']
    by (simp add: test_ops_def split: if_splits)
next
  case (3 w i v ix ix' res)
  then show ?case using ti_upsert_facts [of w i v ix ix'] by (auto simp: test_ops_def split: if_splits)
next
  case (4 i ix ix' res)
  then have "ix' = fst (ti_remove i ix)" "res = Ok ()" by (auto simp: test_ops_def ti_remove_def)
  then show ?case using ti_remove_facts(1,3) [of i ix] ti_remove_facts(2) [of ix i] ti_room_const(2) [of ix' ix] by simp
next
  case (5 q k ix hits)
  then show ?case using ti_search_facts [of id q k ix hits] by (simp add: test_ops_def)
next
  case (6 ws recs ix ix')
  then show ?case
    using ti_rebuild_facts [of "[]" "filter (\<lambda>r. length (mr_embedding r) = ti_dims ix) recs"] 6(1) [symmetric]
    by (simp add: test_ops_def ti_rebuild_def ti_inv_def ti_live_def)
next
  case (7 ws recs ix ix' res)
  then show ?case by (simp add: test_ops_def ti_rebuild_def)
next
  case (8 ws items ix ix' res)
  then show ?case using ti_upsert_batch_only by (simp add: test_ops_def)
next
  case (9 ws items ix ix')
  then show ?case using ti_upsert_batch_facts by (simp add: test_ops_def)
next
  case (10 "is" ix ix' res)
  then show ?case using ti_remove_batch_facts by (simp add: test_ops_def)
next
  case (11 q k ix hits)
  then have "set hits \<subseteq> set (map (\<lambda>(i, v). (i, cosine q v)) (ti_vectors ix))"
    by (auto simp: test_ops_def ti_search_def outcome_iff sort_by_dist_def dest!: in_set_takeD split: if_splits)
  then have "fst ` set hits \<subseteq> fst ` set (map (\<lambda>(i, v). (i, cosine q v)) (ti_vectors ix))" by (rule image_mono)
  then show ?case by (auto simp: ti_live_def image_image case_prod_unfold)
next
  case (12 ws recs ix ix')
  then show ?case
    using ti_rebuild_facts [of "[]" "filter (\<lambda>r. length (mr_embedding r) = ti_dims ix) recs"] 12 [symmetric]
    by (auto simp: test_ops_def ti_rebuild_def ti_live_def)
qed

end
