(* ===== verification/Journal.thy ===== *)
theory Journal
  imports Repository Index_Adapter
begin

text \<open>
  The coordinator (\<open>ltm/src/journal.rs\<close>): every change of the store goes through the database first
  and the vector index second, with the operation journal in between; on startup the journal is
  replayed and the index rebuilt. The state is the database with the index; a call that fails leaves
  what the calls before it did, which is also what a crash at that point leaves in the database.
\<close>

section \<open>State\<close>

record 'ix journal =
  jn_db :: database
  jn_index :: 'ix

definition on_db :: "(database \<Rightarrow> database \<times> 'a mresult) \<Rightarrow> 'ix journal \<Rightarrow> 'ix journal \<times> 'a mresult" where
  "on_db f st = (case f (jn_db st) of (db, res) \<Rightarrow> (st\<lparr> jn_db := db \<rparr>, res))"

definition on_index :: "('ix \<Rightarrow> 'ix \<times> 'a mresult) \<Rightarrow> 'ix journal \<Rightarrow> 'ix journal \<times> 'a mresult" where
  "on_index f st = (case f (jn_index st) of (ix, res) \<Rightarrow> (st\<lparr> jn_index := ix \<rparr>, res))"

definition ask :: "(database \<Rightarrow> 'a mresult) \<Rightarrow> 'ix journal \<Rightarrow> 'ix journal \<times> 'a mresult" where
  "ask f st = (st, f (jn_db st))"

text \<open>The faults of the database calls of one operation, in their order.\<close>

type_synonym call_faults = "nat \<Rightarrow> sql_faults"

definition no_call_faults :: call_faults where
  "no_call_faults = (\<lambda>_. no_faults)"

section \<open>Remember\<close>

definition finish_remember ::
  "'j store_env \<Rightarrow> ('ix, 'j) index_ops \<Rightarrow> call_faults \<Rightarrow> index_world \<Rightarrow> i64 \<Rightarrow> 'j memory_record \<Rightarrow> string option
    \<Rightarrow> 'ix journal \<Rightarrow> 'ix journal \<times> string mresult" where
  "finish_remember E ops jf w now rec op st =
     and_then (on_index (io_upsert ops w (mr_id rec) (mr_embedding rec)) st) (\<lambda>st2 _.
     and_then (on_db (repo_set_status E (jf 2) (mr_id rec) StActive) st2) (\<lambda>st3 _.
     and_then (case op of None \<Rightarrow> (st3, Ok ()) | Some op_id \<Rightarrow> on_db (repo_mark_applied E (jf 3) op_id now) st3) (\<lambda>st4 _.
     (st4, Ok (mr_id rec)))))"

definition coordinate_remember ::
  "'j store_env \<Rightarrow> ('ix, 'j) index_ops \<Rightarrow> call_faults \<Rightarrow> index_world \<Rightarrow> i64 \<Rightarrow> 'j memory_record \<Rightarrow> string option
    \<Rightarrow> 'ix journal \<Rightarrow> 'ix journal \<times> string mresult" where
  "coordinate_remember E ops jf w now rec op st =
     and_then (case op of None \<Rightarrow> (st, Ok None) | Some op_id \<Rightarrow> ask (repo_memory_of_op E (jf 0) op_id) st) (\<lambda>st0 found.
     case found of
       Some existing \<Rightarrow> (st0, Ok existing)
     | None \<Rightarrow> and_then (on_db (repo_insert_pending E (jf 1) rec op now) st0) (\<lambda>st1 _.
                finish_remember E ops jf w now rec op st1))"

definition coordinate_remember_batch ::
  "'j store_env \<Rightarrow> ('ix, 'j) index_ops \<Rightarrow> call_faults \<Rightarrow> (nat \<Rightarrow> index_world) \<Rightarrow> i64 \<Rightarrow> 'j memory_record list
    \<Rightarrow> string option list \<Rightarrow> 'ix journal \<Rightarrow> 'ix journal \<times> string list mresult" where
  "coordinate_remember_batch E ops jf ws now recs opids st =
     (if recs = [] then (st, Ok [])
      else (let ids = map mr_id recs; applied = List.map_filter id opids in
        and_then (on_db (repo_insert_pending_batch E (jf 0) recs opids now) st) (\<lambda>st1 _.
        and_then (on_index (io_upsert_batch ops ws (map (\<lambda>r. (mr_id r, mr_embedding r)) recs)) st1) (\<lambda>st2 _.
        and_then (on_db (repo_set_status_batch E (jf 1) ids StActive) st2) (\<lambda>st3 _.
        and_then (if applied = [] then (st3, Ok ()) else on_db (repo_mark_applied_batch E (jf 2) applied now) st3) (\<lambda>st4 _.
        (st4, Ok ids)))))))"

section \<open>Update and forget\<close>

definition coordinate_update ::
  "'j store_env \<Rightarrow> ('ix, 'j) index_ops \<Rightarrow> call_faults \<Rightarrow> index_world \<Rightarrow> i64 \<Rightarrow> 'j memory_record \<Rightarrow> u64
    \<Rightarrow> string option \<Rightarrow> 'ix journal \<Rightarrow> 'ix journal \<times> unit mresult" where
  "coordinate_update E ops jf w now rec expected op st =
     and_then (case op of None \<Rightarrow> (st, Ok None) | Some op_id \<Rightarrow> ask (repo_memory_of_op E (jf 0) op_id) st) (\<lambda>st0 found.
     if found = Some (mr_id rec) then (st0, Ok ())
     else and_then (on_db (repo_update E (jf 1) rec expected op now) st0) (\<lambda>st1 _.
          and_then (on_index (io_upsert ops w (mr_id rec) (mr_embedding rec)) st1) (\<lambda>st2 _.
          case op of None \<Rightarrow> (st2, Ok ()) | Some op_id \<Rightarrow> on_db (repo_mark_applied E (jf 2) op_id now) st2)))"

definition coordinate_forget ::
  "'j store_env \<Rightarrow> ('ix, 'j) index_ops \<Rightarrow> sql_faults \<Rightarrow> i64 \<Rightarrow> memory_scope \<Rightarrow> string \<Rightarrow> string option
    \<Rightarrow> 'ix journal \<Rightarrow> 'ix journal \<times> unit mresult" where
  "coordinate_forget E ops sf now sc i op st =
     and_then (on_db (repo_delete E sf sc i op now) st) (\<lambda>st1 _. on_index (io_remove ops i) st1)"

definition coordinate_forget_batch ::
  "'j store_env \<Rightarrow> ('ix, 'j) index_ops \<Rightarrow> sql_faults \<Rightarrow> i64 \<Rightarrow> memory_scope \<Rightarrow> string list \<Rightarrow> string option list
    \<Rightarrow> 'ix journal \<Rightarrow> 'ix journal \<times> unit mresult" where
  "coordinate_forget_batch E ops sf now sc ids opids st =
     (if ids = [] then (st, Ok ())
      else and_then (on_db (repo_delete_batch E sf sc ids opids now) st) (\<lambda>st1 _. on_index (io_remove_batch ops ids) st1))"

section \<open>Recovery\<close>

text \<open>One pending operation; the outcome is 1 when it is counted as recovered.\<close>

definition recover_record ::
  "'j store_env \<Rightarrow> ('ix, 'j) index_ops \<Rightarrow> call_faults \<Rightarrow> index_world \<Rightarrow> 'j memory_record \<Rightarrow> 'ix journal \<Rightarrow> 'ix journal \<times> unit mresult" where
  "recover_record E ops jf w rec st =
     (if mr_status rec = StPending \<or> mr_status rec = StActive
      then and_then (on_index (io_upsert ops w (mr_id rec) (mr_embedding rec)) st) (\<lambda>st1 _.
           if mr_status rec = StPending then on_db (repo_set_status E (jf 1) (mr_id rec) StActive) st1 else (st1, Ok ()))
      else (st, Ok ()))"

definition recover_op ::
  "'j store_env \<Rightarrow> ('ix, 'j) index_ops \<Rightarrow> call_faults \<Rightarrow> index_world \<Rightarrow> i64 \<Rightarrow> string \<times> string \<times> string
    \<Rightarrow> 'ix journal \<Rightarrow> 'ix journal \<times> nat mresult" where
  "recover_op E ops jf w now pend st =
     (case pend of (op_id, mem_id, kind) \<Rightarrow>
       if kind = ''remember'' \<or> kind = ''update''
       then and_then (ask (repo_get_internal E (jf 0) mem_id) st) (\<lambda>st0 found.
            case found of
              None \<Rightarrow> (st0, Ok 0)
            | Some rec \<Rightarrow>
                and_then (recover_record E ops jf w rec st0) (\<lambda>st1 _.
                and_then (on_db (repo_mark_applied E (jf 2) op_id now) st1) (\<lambda>st2 _. (st2, Ok 1))))
       else if kind = ''delete''
       then and_then (on_index (io_remove ops mem_id) st) (\<lambda>st1 _.
            and_then (on_db (repo_mark_applied E (jf 2) op_id now) st1) (\<lambda>st2 _. (st2, Ok 1)))
       else (st, Ok 0))"

fun recover_ops ::
  "'j store_env \<Rightarrow> ('ix, 'j) index_ops \<Rightarrow> (nat \<Rightarrow> call_faults) \<Rightarrow> (nat \<Rightarrow> index_world) \<Rightarrow> (nat \<Rightarrow> i64)
    \<Rightarrow> (string \<times> string \<times> string) list \<Rightarrow> nat \<Rightarrow> 'ix journal \<Rightarrow> 'ix journal \<times> nat mresult" where
  "recover_ops E ops jfs ws nows [] n st = (st, Ok n)"
| "recover_ops E ops jfs ws nows (p # ps) n st =
     and_then (recover_op E ops (jfs 0) (ws 0) (nows 0) p st) (\<lambda>st1 k.
     recover_ops E ops (\<lambda>x. jfs (Suc x)) (\<lambda>x. ws (Suc x)) (\<lambda>x. nows (Suc x)) ps (n + k) st1)"

definition rebuild_active ::
  "'j store_env \<Rightarrow> ('ix, 'j) index_ops \<Rightarrow> sql_faults \<Rightarrow> (nat \<Rightarrow> index_world) \<Rightarrow> 'ix journal \<Rightarrow> 'ix journal \<times> unit mresult" where
  "rebuild_active E ops sf ws st =
     and_then (ask (repo_active_records E sf) st) (\<lambda>st1 recs. on_index (io_rebuild ops ws recs) st1)"

record recovery_plan =
  rp_pending :: sql_faults
  rp_ops :: "nat \<Rightarrow> call_faults"
  rp_op_worlds :: "nat \<Rightarrow> index_world"
  rp_clock :: "nat \<Rightarrow> i64"
  rp_active :: sql_faults
  rp_worlds :: "nat \<Rightarrow> index_world"

definition recover_startup ::
  "'j store_env \<Rightarrow> ('ix, 'j) index_ops \<Rightarrow> recovery_plan \<Rightarrow> 'ix journal \<Rightarrow> 'ix journal \<times> nat mresult" where
  "recover_startup E ops rp st =
     and_then (ask (repo_pending_ops E (rp_pending rp)) st) (\<lambda>st0 pend.
     and_then (recover_ops E ops (rp_ops rp) (rp_op_worlds rp) (rp_clock rp) pend 0 st0) (\<lambda>st1 n.
     and_then (rebuild_active E ops (rp_active rp) (rp_worlds rp) st1) (\<lambda>st2 _. (st2, Ok n))))"

end
