(* ===== verification/Repository_Facts.thy ===== *)
theory Repository_Facts
  imports Repository
begin

text \<open>
  What the repository guarantees: the invariant of the database under every method with every fault,
  rows that always read back as records, the round trip of a record, isolation between scopes,
  updates by compare-and-swap, vacuum, migration, and the full-text query.
\<close>

section \<open>Reading a row\<close>

text \<open>A row whose parts are trimmed and not blank, with a status the code writes.\<close>

definition row_ok :: "memory_row \<Rightarrow> bool" where
  "row_ok r \<longleftrightarrow> part_ok (r_tenant r) \<and> part_ok (r_namespace r) \<and> pred_option part_ok (r_agent r)
     \<and> pred_option part_ok (r_user r) \<and> r_status r \<in> range status_str"

definition row_scope :: "memory_row \<Rightarrow> memory_scope" where
  "row_scope r = \<lparr> sc_tenant = r_tenant r, sc_namespace = r_namespace r, sc_agent = r_agent r, sc_user = r_user r \<rparr>"

lemma scope_of_row_ok: "row_ok r \<Longrightarrow> scope_of_row E r = Ok (row_scope r)"
  by (auto simp: scope_of_row_def row_ok_def row_scope_def part_ok_def scope_new_def scope_with_agent_def
      scope_with_user_def Let_def split: option.splits)

lemma row_scope_wf: "row_ok r \<Longrightarrow> scope_wf (row_scope r)"
  by (simp add: row_ok_def scope_wf_def row_scope_def)

lemma record_of_row_ok:
  assumes "row_ok r"
  obtains rec where "record_of_row E d r = Ok rec" "mr_id rec = r_id r" "mr_scope rec = row_scope r"
    "status_str (mr_status rec) = r_status r" "mr_revision rec = r_revision r" "mr_expires rec = r_expires r"
    "mr_embedding rec = bytes_to_embedding (r_embedding r)" "mr_importance rec = r_importance r"
proof -
  obtain st where "r_status r = status_str st" using assms by (auto simp: row_ok_def)
  then show ?thesis using that assms by (simp add: record_of_row_def scope_of_row_ok)
qed

text \<open>What the JSON library makes of a map that is printed into its column and parsed from it.\<close>

definition json_reread :: "'j store_env \<Rightarrow> (string \<Rightarrow> 'j option) \<Rightarrow> string \<Rightarrow> 'j option" where
  "json_reread E m = json_or_default E (json_or_empty (ev_print E m))"

lemma json_reread_plain: "env_ok E \<Longrightarrow> ev_plain E m \<Longrightarrow> json_reread E m = m"
  by (auto simp: env_ok_def json_reread_def json_or_empty_def json_or_default_def dest!: spec [of _ m])

definition reread :: "'j store_env \<Rightarrow> 'j memory_record \<Rightarrow> 'j memory_record" where
  "reread E rec = rec\<lparr> mr_metadata := json_reread E (mr_metadata rec), mr_source := json_reread E (mr_source rec) \<rparr>"

lemma reread_plain:
  "env_ok E \<Longrightarrow> ev_plain E (mr_metadata rec) \<Longrightarrow> ev_plain E (mr_source rec) \<Longrightarrow> reread E rec = rec"
  by (simp add: reread_def json_reread_plain)

lemma reread_fields [simp]:
  "reread E (rec\<lparr> mr_status := st \<rparr>) = (reread E rec)\<lparr> mr_status := st \<rparr>"
  "reread E (rec\<lparr> mr_updated := t \<rparr>) = (reread E rec)\<lparr> mr_updated := t \<rparr>"
  by (simp_all add: reread_def)

text \<open>A scope that was validated, and a content that is a string.\<close>

definition record_ok :: "'j memory_record \<Rightarrow> bool" where
  "record_ok rec \<longleftrightarrow> scope_wf (mr_scope rec) \<and> valid_utf8 (mr_content rec) \<and> mr_dims rec < 2 ^ 64"

lemma row_of_record_ok: "scope_wf (mr_scope rec) \<Longrightarrow> row_ok (row_of_record E rec)"
  by (simp add: row_ok_def row_of_record_def scope_wf_def)

lemma record_roundtrip:
  assumes "record_ok rec"
  shows "record_of_row E d (row_of_record E rec) = Ok (reread E rec)"
proof -
  have "scope_of_row E (row_of_record E rec) = Ok (mr_scope rec)"
    using scope_of_row_ok [OF row_of_record_ok, of rec E E] assms
    by (simp add: record_ok_def) (simp add: row_scope_def row_of_record_def)
  moreover have "unat (word_of_nat (mr_dims rec) :: i64) = mr_dims rec"
    using assms by (simp add: record_ok_def unsigned_of_nat take_bit_nat_eq_self)
  moreover have "from_utf8_lossy (mr_content rec) = mr_content rec"
    using assms by (simp add: record_ok_def from_utf8_lossy_valid)
  ultimately show ?thesis
    by (simp add: record_of_row_def row_of_record_def bytes_to_embedding_def reread_def json_reread_def)
qed

section \<open>Queries by key\<close>

lemma find_perm:
  assumes "mset ys = mset xs" "distinct (map f xs)" "\<And>x. P x \<Longrightarrow> f x = k"
  shows "find P ys = find P xs"
proof (cases "find P xs")
  case None
  then have "find P ys = None" using mset_eq_set [OF assms(1)] by (auto simp: find_None_iff)
  with None show ?thesis by simp
next
  case (Some x)
  then have x: "x \<in> set ys" "P x" using mset_eq_set [OF assms(1)] by (auto simp: find_Some_iff in_set_conv_nth)
  have "y = x" if "y \<in> set ys" "P y" for y
    using that x assms(2,3) mset_eq_set [OF assms(1)] by (auto simp: distinct_map inj_on_def)
  moreover obtain z where "find P ys = Some z" using x by (cases "find P ys") (auto simp: find_None_iff)
  moreover from this have "z \<in> set ys" "P z" by (auto simp: find_Some_iff)
  ultimately show ?thesis using Some by simp
qed

lemma find_Some_set: "find P xs = Some x \<Longrightarrow> x \<in> set xs \<and> P x"
  by (auto simp: find_Some_iff)

text \<open>Looking a row up by its id and a condition does not depend on the order of the scan.\<close>

lemma find_scan:
  assumes "env_ok E" "db_wf db"
  shows "find (\<lambda>r. r_id r = i \<and> Q r) (ev_scan E (db_memories db)) = find (\<lambda>r. r_id r = i \<and> Q r) (db_memories db)"
  using assms by (intro find_perm [where f = r_id and k = i]) (auto simp: env_ok_def db_wf_def)

lemma find_scan_iff:
  assumes "env_ok E" "db_wf db"
  shows "find (\<lambda>r. r_id r = i \<and> Q r) (ev_scan E (db_memories db)) = Some r
    \<longleftrightarrow> r \<in> set (db_memories db) \<and> r_id r = i \<and> Q r"
proof
  assume "r \<in> set (db_memories db) \<and> r_id r = i \<and> Q r"
  then show "find (\<lambda>r. r_id r = i \<and> Q r) (ev_scan E (db_memories db)) = Some r"
    using assms(2) unfolding find_scan [OF assms]
    by (cases "find (\<lambda>r. r_id r = i \<and> Q r) (db_memories db)")
      (auto simp: find_None_iff db_wf_def distinct_map inj_on_def dest!: find_Some_set)
qed (use find_Some_set find_scan [OF assms] in fastforce)

lemma find_scan_None:
  assumes "env_ok E" "db_wf db"
  shows "find (\<lambda>r. r_id r = i \<and> Q r) (ev_scan E (db_memories db)) = None
    \<longleftrightarrow> (\<forall>r\<in>set (db_memories db). r_id r = i \<longrightarrow> \<not> Q r)"
  using find_scan_iff [OF assms, of i Q]
  by (cases "find (\<lambda>r. r_id r = i \<and> Q r) (ev_scan E (db_memories db))") (auto simp: find_None_iff)

text \<open>The memory that a scoped read sees.\<close>

definition visible :: "memory_scope \<Rightarrow> string \<Rightarrow> database \<Rightarrow> memory_row option" where
  "visible sc i db = find (\<lambda>r. r_id r = i \<and> in_scope sc r) (db_memories db)"

lemma repo_get_visible:
  assumes "env_ok E" "db_wf db"
  shows "repo_get E no_faults sc i db =
    (case visible sc i db of None \<Rightarrow> Ok None
     | Some r \<Rightarrow> obind (map_err (db_error ''Query failed: '') (record_of_row E StPending r)) (\<lambda>rec. Ok (Some rec)))"
  by (simp add: repo_get_def first_record_def visible_def find_scan [OF assms] split: option.split)

lemma repo_get_Some:
  assumes "repo_get E sf sc i db = Ok (Some rec)" "env_ok E"
  obtains r where "r \<in> set (db_memories db)" "r_id r = i" "in_scope sc r" "record_of_row E StPending r = Ok rec"
proof -
  from assms(1) obtain r where f: "find (\<lambda>r. r_id r = i \<and> in_scope sc r) (ev_scan E (db_memories db)) = Some r"
    and rec: "record_of_row E StPending r = Ok rec"
    by (auto simp: repo_get_def first_record_def outcome_iff split: option.splits)
  have "set (ev_scan E (db_memories db)) = set (db_memories db)"
    using assms(2) by (intro mset_eq_set) (simp add: env_ok_def)
  then show ?thesis using that rec find_Some_set [OF f] by blast
qed

section \<open>The invariant\<close>

text \<open>The full-text table exists exactly when the migration that makes it is recorded.\<close>

definition db_inv :: "database \<Rightarrow> bool" where
  "db_inv db \<longleftrightarrow> db_wf db \<and> (\<forall>r\<in>set (db_memories db). row_ok r)
     \<and> db_indexed db = (case db_versions db of None \<Rightarrow> False | Some vs \<Rightarrow> 2 \<le> max_version vs)"

lemma empty_db_inv: "db_inv empty_db"
  by (simp add: db_inv_def empty_db_wf) (simp add: empty_db_def)

lemma insert_row_inv:
  assumes "db_inv db" "row_ok r" "insert_row r db = Some d"
  shows "db_inv d"
  using assms insert_row_wf [of db r d] by (auto simp: db_inv_def insert_row_def split: if_splits)

lemma insert_op_inv: "db_inv db \<Longrightarrow> insert_op o' db = Some d \<Longrightarrow> db_inv d"
  using insert_op_wf [of db o' d] by (auto simp: db_inv_def insert_op_def split: if_splits)

lemma update_rows_inv:
  assumes "db_inv db" "\<And>r. r_id (f r) = r_id r" "\<And>r. row_ok r \<Longrightarrow> P r \<Longrightarrow> row_ok (f r)"
  shows "db_inv (update_rows P f db)"
proof -
  have "db_wf (update_rows P f db)" using assms(1,2) by (intro update_rows_wf) (simp_all add: db_inv_def)
  then show ?thesis using assms(1,3) by (auto simp: db_inv_def update_rows_def)
qed

lemma apply_op_id [simp]: "o_id (apply_op now o') = o_id o'"
  by (simp add: apply_op_def)

lemma update_ops_inv: "db_inv db \<Longrightarrow> db_inv (update_ops P (apply_op now) db)"
  using update_ops_wf [of db "apply_op now" P] by (simp add: db_inv_def) (simp add: update_ops_def)

lemma delete_rows_inv: "db_inv db \<Longrightarrow> db_inv (delete_rows ids db)"
  using delete_rows_wf [of db ids] by (auto simp: db_inv_def delete_rows_def)

lemma status_row_ok: "row_ok r \<Longrightarrow> row_ok (r\<lparr> r_status := status_str st \<rparr>)"
  by (simp add: row_ok_def)

lemma max_version_snoc: "max_version (vs @ [v]) = (if vs = [] then fst v else max (max_version vs) (fst v))"
  by (cases vs) (simp_all add: max_version_def)

lemma record_version_facts:
  "record_version v now db = Some d \<Longrightarrow>
    \<exists>vs. db_versions db = Some vs \<and> d = db\<lparr> db_versions := Some (vs @ [(v, now)]) \<rparr>"
  by (auto simp: record_version_def split: option.splits if_splits)

lemma migrate_v1_inv:
  assumes "migrate_v1 E sf now db = Ok d" "db_inv db"
  shows "db_inv d \<and> db_indexed d = db_indexed db \<and> db_memories d = db_memories db \<and> db_fts d = db_fts db"
proof -
  from assms(1) obtain vs where d: "d = (apply_v1 db)\<lparr> db_versions := Some (vs @ [(1, now)]) \<rparr>"
    "db_versions (apply_v1 db) = Some vs"
    by (auto simp: migrate_v1_def outcome_iff dest!: record_version_facts)
  then have "db_versions db = None \<and> vs = [] \<or> db_versions db = Some vs"
    by (auto simp: apply_v1_def split: option.splits)
  moreover have "\<not> (2 \<le> max_version [])" by (simp add: max_version_def)
  ultimately show ?thesis using assms(2)
    by (auto simp: d(1) apply_v1_def db_inv_def db_wf_def max_version_snoc)
qed

lemma migrate_v2_inv:
  assumes "migrate_v2 E sf now db = Ok d" "db_inv db" "\<not> db_indexed db"
  shows "db_inv d \<and> db_indexed d \<and> db_memories d = db_memories db"
proof -
  from assms(1) obtain vs where d: "d = (backfill_fts (apply_v2 db))\<lparr> db_versions := Some (vs @ [(2, now)]) \<rparr>"
    by (auto simp: migrate_v2_def outcome_iff dest!: record_version_facts)
  have "inj_on fts_of (set (db_memories db))"
    using assms(2) by (auto simp: db_inv_def db_wf_def distinct_map inj_on_def dest!: arg_cong [where f = ft_id])
  then have "distinct (map fts_of (filter (\<lambda>r. r_status r \<noteq> ''deleted'') (db_memories db)))"
    using assms(2) by (simp add: distinct_map inj_on_def db_inv_def db_wf_def)
  then show ?thesis using assms(2,3)
    by (auto simp: d backfill_fts_def apply_v2_def db_inv_def db_wf_def max_version_snoc)
qed

lemma if_Ok_iff: "(if c then m else Ok x) = Ok y \<longleftrightarrow> (if c then m = Ok y else y = x)"
  by auto

lemma migrate_steps:
  assumes "repo_migrate E sf now db = (d, Ok u)"
  obtains ver d1 where "(db_versions db = None \<and> ver = 0) \<or> (\<exists>vs. db_versions db = Some vs \<and> ver = max_version vs)"
    "if ver < 1 then migrate_v1 E sf now db = Ok d1 else d1 = db"
    "if ver < 2 then migrate_v2 E sf now d1 = Ok d else d = d1"
  using assms unfolding repo_migrate_def transact_Ok_iff obind_Ok_iff sql_Ok_iff
  by (auto simp: sql_Ok_iff if_Ok_iff split: option.splits)

lemma repo_migrate_inv:
  assumes "repo_migrate E sf now db = (d, res)" "db_inv db"
  shows "db_inv d \<and> db_memories d = db_memories db"
proof (cases res)
  case (Ok u)
  with assms(1) have "repo_migrate E sf now db = (d, Ok u)" by simp
  then obtain ver d1 where ver: "(db_versions db = None \<and> ver = 0) \<or> (\<exists>vs. db_versions db = Some vs \<and> ver = max_version vs)"
    and 1: "if ver < 1 then migrate_v1 E sf now db = Ok d1 else d1 = db"
    and 2: "if ver < 2 then migrate_v2 E sf now d1 = Ok d else d = d1"
    by (rule migrate_steps)
  have d1: "db_inv d1 \<and> db_indexed d1 = db_indexed db \<and> db_memories d1 = db_memories db"
    using 1 assms(2) migrate_v1_inv [of E sf now db d1] by (cases "ver < 1") simp_all
  show ?thesis
  proof (cases "ver < 2")
    case True
    then have "\<not> db_indexed db" using ver assms(2) by (auto simp: db_inv_def)
    then show ?thesis using 2 True d1 migrate_v2_inv [of E sf now d1 d] by simp
  next
    case False
    then show ?thesis using 2 d1 by simp
  qed
qed (use assms in \<open>auto simp: repo_migrate_def outcome_iff\<close>)

lemma migrate_Ok:
  assumes "repo_migrate E sf now db = (d, Ok u)" "db_inv db"
  shows "db_indexed d \<and> set (db_fts d) = (if db_indexed db then set (db_fts db)
      else fts_of ` {r \<in> set (db_memories db). r_status r \<noteq> ''deleted''})"
proof -
  obtain ver d1 where ver: "(db_versions db = None \<and> ver = 0) \<or> (\<exists>vs. db_versions db = Some vs \<and> ver = max_version vs)"
    and 1: "if ver < 1 then migrate_v1 E sf now db = Ok d1 else d1 = db"
    and 2: "if ver < 2 then migrate_v2 E sf now d1 = Ok d else d = d1"
    by (rule migrate_steps [OF assms(1)])
  have d1: "db_inv d1 \<and> db_indexed d1 = db_indexed db \<and> db_memories d1 = db_memories db \<and> db_fts d1 = db_fts db"
    using 1 assms(2) migrate_v1_inv [of E sf now db d1] by (cases "ver < 1") simp_all
  have ix: "db_indexed db \<longleftrightarrow> 2 \<le> ver" using ver assms(2) by (auto simp: db_inv_def)
  show ?thesis
  proof (cases "ver < 2")
    case True
    then have n: "\<not> db_indexed d1" "db_fts d1 = []" using ix d1 by (auto simp: db_inv_def db_wf_def)
    have m: "migrate_v2 E sf now d1 = Ok d" using 2 True by simp
    then obtain vs where "d = (backfill_fts (apply_v2 d1))\<lparr> db_versions := Some (vs @ [(2, now)]) \<rparr>"
      by (auto simp: migrate_v2_def outcome_iff dest!: record_version_facts)
    then show ?thesis using n d1 True ix by (simp add: backfill_fts_def apply_v2_def)
  next
    case False
    then show ?thesis using 2 d1 ix by simp
  qed
qed

lemma repo_open_cases:
  assumes "repo_open E sf sfm sfc answer now db = (d, res)"
  obtains "d = db" | "repo_migrate E sfm now db = (d, Ok ())"
proof -
  obtain d' r where m: "repo_migrate E sfm now db = (d', r)" by fastforce
  moreover have "d' = db" if "r \<noteq> Ok ()" using m that by (cases r) (auto simp: repo_migrate_def outcome_iff)
  ultimately show thesis using assms that
    by (cases r) (auto simp: repo_open_def sql_def split: option.splits)
qed

lemma repo_open_inv:
  assumes "repo_open E sf sfm sfc answer now db = (d, res)" "db_inv db"
  shows "db_inv d \<and> db_memories d = db_memories db"
proof -
  obtain d' r where m: "repo_migrate E sfm now db = (d', r)" by fastforce
  have "d = db \<or> d = d'"
    using assms(1) m by (cases r) (auto simp: repo_open_def sql_def split: option.splits)
  then show ?thesis using repo_migrate_inv [OF m assms(2)] assms(2) by auto
qed

text \<open>Every method that changes the database, with whatever faults, arguments and outcome.\<close>

inductive db_step :: "'j store_env \<Rightarrow> database \<Rightarrow> database \<Rightarrow> bool" for E where
  open_db: "repo_open E sf sfm sfc answer now db = (d, res) \<Longrightarrow> db_step E db d"
| insert_one: "repo_insert_pending E sf rec op now db = (d, res) \<Longrightarrow> scope_wf (mr_scope rec) \<Longrightarrow> db_step E db d"
| insert_many: "repo_insert_pending_batch E sf recs ops now db = (d, res) \<Longrightarrow>
    \<forall>rec\<in>set recs. scope_wf (mr_scope rec) \<Longrightarrow> db_step E db d"
| set_one: "repo_set_status E sf i st db = (d, res) \<Longrightarrow> db_step E db d"
| set_many: "repo_set_status_batch E sf ids st db = (d, res) \<Longrightarrow> db_step E db d"
| mark_one: "repo_mark_applied E sf op now db = (d, res) \<Longrightarrow> db_step E db d"
| mark_many: "repo_mark_applied_batch E sf ops now db = (d, res) \<Longrightarrow> db_step E db d"
| update_one: "repo_update E sf rec expected op now db = (d, res) \<Longrightarrow> db_step E db d"
| delete_one: "repo_delete E sf sc i op now db = (d, res) \<Longrightarrow> db_step E db d"
| delete_many: "repo_delete_batch E sf sc ids ops now db = (d, res) \<Longrightarrow> db_step E db d"
| vacuum: "repo_vacuum E sf batch now db = (d, n) \<Longrightarrow> db_step E db d"

text \<open>A transaction ends in the state of its last statement or in the state it started from.\<close>

lemma transact_cases:
  assumes "transact db m = (d, res)"
  obtains "d = db" | x where "m = Ok (d, x)"
  using assms by (cases m) (auto simp: transact_def)

text \<open>The optional row of the operation journal that a transaction adds last.\<close>

definition op_added :: "(string \<Rightarrow> op_row) \<Rightarrow> string option \<Rightarrow> database \<Rightarrow> database \<Rightarrow> bool" where
  "op_added mk op d d' \<longleftrightarrow> (case op of None \<Rightarrow> d' = d | Some i \<Rightarrow> insert_op (mk i) d = Some d')"

lemma op_added_frame:
  "op_added mk op d d' \<Longrightarrow> db_memories d' = db_memories d \<and> db_fts d' = db_fts d \<and> db_indexed d' = db_indexed d
    \<and> db_ops d' = db_ops d @ (case op of None \<Rightarrow> [] | Some i \<Rightarrow> [mk i])"
  by (auto simp: op_added_def insert_op_def split: option.splits if_splits)

lemma repo_insert_Ok:
  assumes "repo_insert_pending E sf rec op now db = (d, Ok u)"
  obtains d1 where "insert_row (row_of_record E rec) db = Some d1"
    "op_added (\<lambda>i. op_row_of i (mr_id rec) ''remember'' (payload_of E rec) ''pending'' now None) op d1 d"
  using assms by (auto simp: repo_insert_pending_def outcome_iff op_added_def split: option.splits)

lemma insert_batch_step_Ok:
  assumes "insert_batch_step E sf ops now db (n, rec) = Ok d"
  obtains d1 where "insert_row (row_of_record E rec) db = Some d1"
    "op_added (\<lambda>i. op_row_of i (mr_id rec) ''remember'' (payload_of E rec) ''pending'' now None) (opt_at ops n) d1 d"
  using assms by (auto simp: insert_batch_step_def outcome_iff op_added_def split: option.splits)

lemma repo_update_Ok:
  assumes "repo_update E sf rec expected op now db = (d, Ok u)"
  obtains cur d1 where
    "find (\<lambda>r. r_id r = mr_id rec \<and> in_scope (mr_scope rec) r) (ev_scan E (db_memories db)) = Some cur"
    "r_status cur \<noteq> ''deleted''" "r_revision cur = expected" "expected \<noteq> - 1" "\<not> is_nan (mr_importance rec)"
    "d1 = update_rows (\<lambda>r. r_id r = mr_id rec \<and> r_revision r = expected) (update_row E rec expected) db"
    "op_added (\<lambda>i. op_row_of i (mr_id rec) ''update'' (payload_of E rec) ''pending'' now None) op d1 d"
  using assms by (auto simp: repo_update_def outcome_iff op_added_def split: option.splits if_splits)

lemma repo_delete_Ok:
  assumes "repo_delete E sf sc i op now db = (d, Ok u)"
  shows "op_added (\<lambda>o'. op_row_of o' i ''delete'' ''{}'' ''applied'' now (Some now)) op (tombstone sc i now db) d"
  using assms by (auto simp: repo_delete_def outcome_iff op_added_def split: option.splits)

lemma delete_batch_step_Ok:
  assumes "delete_batch_step E sf sc ops now db (n, i) = Ok d"
  shows "op_added (\<lambda>o'. op_row_of o' i ''delete'' ''{}'' ''applied'' now (Some now)) (opt_at ops n) (tombstone sc i now db) d"
  using assms by (auto simp: delete_batch_step_def outcome_iff op_added_def split: option.splits)

text \<open>A method that fails leaves the database as it was.\<close>

lemma transact_failed: "transact db m = (d, res) \<Longrightarrow> (\<And>x. res \<noteq> Ok x) \<Longrightarrow> d = db"
  by (cases m) (auto simp: transact_def)

lemma no_Ok_cases: obtains u where "res = Ok u" | "\<And>u. res \<noteq> Ok u"
  by (cases res) auto

lemmas repo_write_defs = repo_insert_pending_def repo_update_def repo_delete_def repo_set_status_def
  repo_mark_applied_def repo_vacuum_def repo_migrate_def

lemma repo_failed:
  assumes "\<And>u. res \<noteq> Ok u"
  shows "repo_insert_pending E sf rec op now db = (d, res) \<Longrightarrow> d = db"
    and "repo_update E sf rec expected op now db = (d, res) \<Longrightarrow> d = db"
    and "repo_delete E sf sc i op now db = (d, res) \<Longrightarrow> d = db"
    and "repo_set_status E sf i st db = (d, res) \<Longrightarrow> d = db"
    and "repo_mark_applied E sf i now db = (d, res) \<Longrightarrow> d = db"
  unfolding repo_write_defs by (erule transact_failed [OF _ assms])+

text \<open>
  The contract of an invariant of the database: it is kept by opening and by every statement. Then every
  method keeps it, whatever its arguments, its faults and its outcome.
\<close>

locale database_invariant =
  fixes E :: "'j store_env" and P :: "database \<Rightarrow> bool"
  assumes opened: "repo_open E sf sfm sfc answer now db = (d, res) \<Longrightarrow> P db \<Longrightarrow> P d"
    and row_inserted: "P db \<Longrightarrow> row_ok r \<Longrightarrow> insert_row r db = Some d \<Longrightarrow> P d"
    and op_inserted: "P db \<Longrightarrow> insert_op o' db = Some d \<Longrightarrow> P d"
    and rows_updated: "P db \<Longrightarrow> (\<And>r. r_id (f r) = r_id r) \<Longrightarrow> (\<And>r. row_ok r \<Longrightarrow> Q r \<Longrightarrow> row_ok (f r)) \<Longrightarrow>
      P (update_rows Q f db)"
    and ops_updated: "P db \<Longrightarrow> P (update_ops Q' (apply_op now) db)"
    and rows_deleted: "P db \<Longrightarrow> P (delete_rows ids db)"
begin

lemma transacted:
  assumes "transact db m = (d, res)" "P db" "\<And>d x. m = Ok (d, x) \<Longrightarrow> P d"
  shows "P d"
  using assms(1) by (rule transact_cases) (use assms(2,3) in auto)

lemma op_kept: "op_added mk op d d' \<Longrightarrow> P d \<Longrightarrow> P d'"
  by (auto simp: op_added_def intro: op_inserted split: option.splits)

lemma status_set: "P db \<Longrightarrow> P (update_rows Q (\<lambda>r. r\<lparr> r_status := status_str st \<rparr>) db)"
  by (rule rows_updated) (simp_all add: status_row_ok)

lemma tombstoned: "P db \<Longrightarrow> P (tombstone sc i now db)"
  unfolding tombstone_def
  by (rule rows_updated) (auto simp: row_ok_def intro: range_eqI [of _ status_str StDeleted])

lemma record_updated: "P db \<Longrightarrow> P (update_rows Q (update_row E rec expected) db)"
  by (rule rows_updated) (simp_all add: update_row_def row_ok_def)

lemma batch_inserted:
  assumes "insert_batch_step E sf ops now db (n, rec) = Ok d" "P db" "scope_wf (mr_scope rec)"
  shows "P d"
  using assms(1) by (rule insert_batch_step_Ok)
    (use assms(2,3) op_kept row_inserted row_of_record_ok in blast)

lemma step: "db_step E db d \<Longrightarrow> P db \<Longrightarrow> P d"
proof (induction rule: db_step.induct)
  case (open_db sf sfm sfc answer now db d res)
  then show ?case using opened by blast
next
  case (insert_one sf rec op now db d res)
  show ?case
  proof (cases res rule: no_Ok_cases)
    case (1 u)
    with insert_one(1) have "repo_insert_pending E sf rec op now db = (d, Ok u)" by simp
    then show ?thesis
      by (rule repo_insert_Ok) (use insert_one(2,3) op_kept row_inserted row_of_record_ok in blast)
  next
    case 2
    then show ?thesis using repo_failed(1) [OF 2 insert_one(1)] insert_one(3) by simp
  qed
next
  case (insert_many sf recs ops now db d res)
  have "P d'" if "ofold (insert_batch_step E sf ops now) db (zip [0..<length recs] recs) = Ok d'" for d'
    using that insert_many(3)
    by (rule ofold_invariant) (use insert_many(2) in \<open>auto dest: set_zip_rightD intro: batch_inserted\<close>)
  then show ?case using insert_many(1,3)
    by (auto simp: repo_insert_pending_batch_def outcome_iff split: if_splits elim!: transacted)
next
  case (set_one sf i st db d res)
  then show ?case using status_set
    by (auto simp: repo_set_status_def outcome_iff elim!: transacted)
next
  case (set_many sf ids st db d res)
  have "P d'" if "ofold (\<lambda>d (n, i). sql E sf (SpExec n) ''Failed to update status in batch: ''
      (Some (update_rows (\<lambda>r. r_id r = i) (\<lambda>r. r\<lparr> r_status := status_str st \<rparr>) d)))
      db (zip [0..<length ids] ids) = Ok d'" for d'
    using that set_many(2) by (rule ofold_invariant) (auto simp: outcome_iff status_set)
  then show ?case using set_many
    by (auto simp: repo_set_status_batch_def outcome_iff split: if_splits elim!: transacted)
next
  case (mark_one sf op now db d res)
  then show ?case using ops_updated
    by (auto simp: repo_mark_applied_def outcome_iff elim!: transacted)
next
  case (mark_many sf ops now db d res)
  have "P d'" if "ofold (\<lambda>d (n, op). sql E sf (SpExec n) ''Failed to mark operation applied in batch: ''
      (Some (update_ops (\<lambda>o'. o_id o' = op) (apply_op now) d))) db (zip [0..<length ops] ops) = Ok d'" for d'
    using that mark_many(2) by (rule ofold_invariant) (auto simp: outcome_iff ops_updated)
  then show ?case using mark_many
    by (auto simp: repo_mark_applied_batch_def outcome_iff split: if_splits elim!: transacted)
next
  case (update_one sf rec expected op now db d res)
  show ?case
  proof (cases res rule: no_Ok_cases)
    case (1 u)
    with update_one(1) have "repo_update E sf rec expected op now db = (d, Ok u)" by simp
    then show ?thesis
      by (rule repo_update_Ok) (use update_one(2) op_kept record_updated in blast)
  next
    case 2
    then show ?thesis using repo_failed(2) [OF 2 update_one(1)] update_one(2) by simp
  qed
next
  case (delete_one sf sc i op now db d res)
  show ?case
  proof (cases res rule: no_Ok_cases)
    case (1 u)
    with delete_one(1) have "op_added (\<lambda>o'. op_row_of o' i ''delete'' ''{}'' ''applied'' now (Some now)) op (tombstone sc i now db) d"
      using repo_delete_Ok by blast
    then show ?thesis using op_kept tombstoned delete_one(2) by blast
  next
    case 2
    then show ?thesis using repo_failed(3) [OF 2 delete_one(1)] delete_one(2) by simp
  qed
next
  case (delete_many sf sc ids ops now db d res)
  have "P d'" if "ofold (delete_batch_step E sf sc ops now) db (zip [0..<length ids] ids) = Ok d'" for d'
    using that delete_many(2)
    by (rule ofold_invariant) (auto dest!: delete_batch_step_Ok intro: op_kept tombstoned)
  then show ?case using delete_many
    by (auto simp: repo_delete_batch_def outcome_iff split: if_splits elim!: transacted)
next
  case (vacuum sf batch now db d n)
  then show ?case using rows_deleted
    by (auto simp: repo_vacuum_def outcome_iff elim!: transacted)
qed

lemma steps: "(db_step E)\<^sup>*\<^sup>* db d \<Longrightarrow> P db \<Longrightarrow> P d"
  by (induction rule: rtranclp_induct) (auto intro: step)

end

interpretation kept: database_invariant E db_inv for E :: "'j store_env"
proof (unfold_locales, goal_cases)
  case (1 sf sfm sfc answer now db d res)
  then show ?case using repo_open_inv by blast
qed (blast intro: insert_row_inv insert_op_inv update_rows_inv update_ops_inv delete_rows_inv)+

lemmas db_step_inv = kept.step
lemmas reachable_inv = kept.steps
lemmas insert_batch_step_inv = kept.batch_inserted

section \<open>Databases of the current schema\<close>

text \<open>A new file has no table and so no memory; once opened it has the full-text table before its first
  memory, so that the triggers see every one of them.\<close>

definition indexes_all :: "database \<Rightarrow> bool" where
  "indexes_all db \<longleftrightarrow>
     (if db_versions db = None then db_memories db = []
      else db_indexed db \<and> (\<forall>r\<in>set (db_memories db). fts_of r \<in> set (db_fts db)))"

lemma insert_row_indexes: "indexes_all db \<Longrightarrow> insert_row r db = Some d \<Longrightarrow> indexes_all d"
  by (auto simp: indexes_all_def insert_row_def fts_insert_def split: if_splits)

lemma insert_op_indexes: "indexes_all db \<Longrightarrow> insert_op o' db = Some d \<Longrightarrow> indexes_all d"
  by (auto simp: indexes_all_def insert_op_def split: if_splits)

lemma update_rows_indexes:
  assumes "indexes_all db" "db_wf db" "\<And>r. r_id (f r) = r_id r"
  shows "indexes_all (update_rows Q f db)"
proof (cases "db_versions db = None")
  case False
  let ?ms = "db_memories db"
  have d: "distinct (map r_id ?ms)" using assms(2) by (simp add: db_wf_def)
  then have dQ: "distinct (map r_id (filter Q ?ms))" by (simp add: distinct_map_filter)
  have inj: "inj_on r_id (set ?ms)" using d by (simp add: distinct_map)
  have ft: "set (db_fts (update_rows Q f db))
      = {x \<in> set (db_fts db). ft_id x \<notin> r_id ` {r \<in> set ?ms. Q r}} \<union> (\<lambda>r. fts_of (f r)) ` {r \<in> set ?ms. Q r}"
    using assms(1) False by (simp add: update_rows_def indexes_all_def fts_updates_set [OF assms(3) dQ])
  have "fts_of (if Q r then f r else r) \<in> set (db_fts (update_rows Q f db))" if "r \<in> set ?ms" for r
    using assms(1) False that inj unfolding ft by (auto simp: indexes_all_def inj_on_def)
  moreover have "db_memories (update_rows Q f db) = map (\<lambda>r. if Q r then f r else r) ?ms"
    "db_indexed (update_rows Q f db)" "db_versions (update_rows Q f db) \<noteq> None"
    using assms(1) False by (simp_all add: indexes_all_def update_rows_def)
  ultimately show ?thesis by (auto simp: indexes_all_def simp del: if_image_distrib)
qed (use assms(1) in \<open>simp add: indexes_all_def update_rows_def\<close>)

lemma update_ops_indexes: "indexes_all db \<Longrightarrow> indexes_all (update_ops Q f db)"
  by (simp add: indexes_all_def update_ops_def)

lemma delete_rows_indexes: "indexes_all db \<Longrightarrow> indexes_all (delete_rows ids db)"
  by (auto simp: indexes_all_def delete_rows_def fts_deletes_set)

lemma repo_open_indexes:
  assumes "repo_open E sf sfm sfc answer now db = (d, res)" "db_inv db" "indexes_all db"
  shows "indexes_all d"
  using assms(1)
proof (rule repo_open_cases)
  assume m: "repo_migrate E sfm now db = (d, Ok ())"
  show "indexes_all d"
  proof (cases "db_versions db")
    case None
    then show ?thesis using migrate_Ok [OF m assms(2)] repo_migrate_inv [OF m assms(2)] assms(3) by (simp add: indexes_all_def)
  next
    case (Some vs)
    then have "db_indexed db" using assms(3) by (simp add: indexes_all_def)
    moreover from this have "db_indexed d" using migrate_Ok [OF m assms(2)] by simp
    moreover from this have "db_versions d \<noteq> None"
      using repo_migrate_inv [OF m assms(2)] by (auto simp: db_inv_def split: option.splits)
    ultimately show ?thesis using migrate_Ok [OF m assms(2)] repo_migrate_inv [OF m assms(2)] assms(3) Some
      by (auto simp: indexes_all_def)
  qed
qed (use assms(3) in simp)

interpretation current: database_invariant E "\<lambda>db. db_inv db \<and> indexes_all db" for E :: "'j store_env"
proof (unfold_locales, goal_cases)
  case (1 sf sfm sfc answer now db d res)
  then show ?case using repo_open_inv repo_open_indexes by blast
next
  case (4 db f Q)
  then have "db_wf db" by (simp add: db_inv_def)
  then show ?case using 4 update_rows_inv [of db f Q] update_rows_indexes [of db f Q] by blast
qed (blast intro: insert_row_inv insert_op_inv update_ops_inv delete_rows_inv insert_row_indexes insert_op_indexes
    update_ops_indexes delete_rows_indexes)+

lemma empty_indexes_all: "indexes_all empty_db"
  by (simp add: indexes_all_def empty_db_def)

lemma indexed_exactly:
  assumes "(db_step E)\<^sup>*\<^sup>* empty_db db"
  shows "set (db_fts db) = fts_of ` set (db_memories db)"
proof -
  have "db_inv db \<and> indexes_all db" using current.steps [OF assms] empty_db_inv empty_indexes_all by simp
  then show ?thesis by (auto simp: indexes_all_def db_inv_def db_wf_def split: if_splits)
qed

end
