(* ===== verification/Repository_Safety.thy ===== *)
theory Repository_Safety
  imports Repository_Facts
begin

text \<open>
  Properties of the repository over every sequence of its methods: the database invariant, typed
  reads within a scope, the round trip of a record, updates that cannot be lost, full-text search
  that stays in its scope and its query that cannot be broken out of, vacuum, and migration.
\<close>

section \<open>A concrete environment\<close>

text \<open>JSON maps that are empty print as \<open>{}\<close> and no other map prints; scans keep the table's order;
  every full-text row matches; the ASCII letters and digits are alphanumeric.\<close>

definition demo_env :: "string store_env" where
  "demo_env = \<lparr> ev_print = (\<lambda>m. if m = (\<lambda>_. None) then Some ''{}'' else None),
     ev_parse = (\<lambda>s. if s = ''{}'' then Some (\<lambda>_. None) else None), ev_plain = (\<lambda>m. m = (\<lambda>_. None)), ev_payload = (\<lambda>_. Some ''{}''),
     ev_view = JvString, ev_show = (\<lambda>s. s), ev_extract_eq = (\<lambda>_ _ _. True), ev_match = (\<lambda>_ rs. rs),
     ev_scan = (\<lambda>rs. rs), ev_scan_ops = (\<lambda>os. os), ev_keys = (\<lambda>ks. ks),
     ev_alnum = (\<lambda>c. case c of [b] \<Rightarrow> b \<in> set ''abcdefghijklmnopqrstuvwxyz0123456789'' | _ \<Rightarrow> False),
     ev_hash_str = (\<lambda>_. 0), ev_exp = (\<lambda>_. f_one), ev_constraint = ''constraint failed'',
     ev_conversion = ''conversion failed'' \<rparr>"

lemma demo_env_ok: "env_ok demo_env"
  by (auto simp: env_ok_def demo_env_def split: if_splits)

definition demo_scope :: memory_scope where
  "demo_scope = \<lparr> sc_tenant = ''acme'', sc_namespace = ''support'', sc_agent = None, sc_user = None \<rparr>"

definition demo_record :: "string \<Rightarrow> f32 list \<Rightarrow> string memory_record" where
  "demo_record i v =
     \<lparr> mr_id = i, mr_scope = demo_scope, mr_kind = KFact, mr_content = ''sky is blue'', mr_hash = [],
       mr_embedding = v, mr_model = ''m'', mr_dims = length v, mr_importance = f_one, mr_created = 5,
       mr_updated = 5, mr_accessed = None, mr_count = 0, mr_expires = None, mr_status = StPending,
       mr_revision = 1, mr_metadata = (\<lambda>_. None), mr_source = (\<lambda>_. None) \<rparr>"

lemma part_ok_demo: "part_ok ''acme''" "part_ok ''support''"
  by (auto simp: part_ok_def intro!: trim_visible)

lemma demo_scope_wf: "scope_wf demo_scope"
  by (simp add: scope_wf_def demo_scope_def part_ok_demo)

lemma demo_record_ok: "length v < 2 ^ 64 \<Longrightarrow> record_ok (demo_record i v)"
  by (simp add: record_ok_def demo_record_def demo_scope_wf valid_utf8_ascii)

lemma demo_reread: "mr_metadata rec = (\<lambda>_. None) \<Longrightarrow> mr_source rec = (\<lambda>_. None) \<Longrightarrow> reread demo_env rec = rec"
  by (rule reread_plain [OF demo_env_ok]) (simp_all add: demo_env_def)

text \<open>A new file once it has been opened.\<close>

definition demo_db :: database where
  "demo_db = \<lparr> db_versions = Some [(1, 5), (2, 5)], db_indexed = True, db_memories = [], db_ops = [], db_fts = [] \<rparr>"

lemma demo_open: "repo_open demo_env no_faults no_faults no_faults ''ok'' 5 empty_db = (demo_db, Ok ())"
  by (simp add: repo_open_def repo_migrate_def transact_def migrate_v1_def migrate_v2_def record_version_def apply_v1_def
      apply_v2_def backfill_fts_def empty_db_def demo_db_def repo_integrity_check_def lowers_to_ok_def)

lemma demo_db_reachable: "(db_step demo_env)\<^sup>*\<^sup>* empty_db demo_db"
  by (rule r_into_rtranclp, rule open_db [OF demo_open])

lemma demo_db_empty [simp]: "db_memories demo_db = []" "db_ops demo_db = []"
  by (simp_all add: demo_db_def)

lemma demo_db_wf: "db_wf demo_db"
  using kept.steps [OF demo_db_reachable empty_db_inv] by (simp add: db_inv_def)

section \<open>The database invariant\<close>

text \<open>C8: Whatever sequence of repository methods runs on a new database file, with whatever arguments and
  with a fault at any statement: ids stay unique in both tables, and the full-text table holds exactly
  one row for every memory in the table of memories, with the memory's current scope and content, and no
  other row. A deleted memory keeps its row until vacuum removes the memory.\<close>

theorem repository_invariant:
  assumes "(db_step E)\<^sup>*\<^sup>* empty_db db"
  shows "distinct (map r_id (db_memories db)) \<and> distinct (map o_id (db_ops db))
    \<and> distinct (map ft_id (db_fts db)) \<and> set (db_fts db) = fts_of ` set (db_memories db)"
proof -
  have wf: "db_wf db" using kept.steps [OF assms empty_db_inv] by (simp add: db_inv_def)
  then have "inj_on ft_id (set (db_fts db))"
    by (auto simp: db_wf_def distinct_map inj_on_def subset_iff image_iff) (metis ft_id_fts_of)
  then show ?thesis using wf indexed_exactly [OF assms] by (auto simp: db_wf_def distinct_map)
qed

abbreviation demo_row :: memory_row where
  "demo_row \<equiv> row_of_record demo_env (demo_record ''a'' [f_one])"

definition demo_crashed :: database where
  "demo_crashed = demo_db\<lparr> db_memories := [demo_row], db_fts := [fts_of demo_row],
     db_ops := [op_row_of ''op'' ''a'' ''remember'' ''{}'' ''pending'' 5 None] \<rparr>"

lemma demo_inserted:
  "repo_insert_pending demo_env no_faults (demo_record ''a'' [f_one]) (Some ''op'') 5 demo_db = (demo_crashed, Ok ())"
  by (simp add: repo_insert_pending_def transact_def insert_row_def insert_op_def demo_db_def demo_crashed_def fts_insert_def
      row_of_record_def demo_record_def payload_of_def json_or_empty_def demo_env_def finite_not_nan)

lemma demo_crashed_reachable: "(db_step demo_env)\<^sup>*\<^sup>* empty_db demo_crashed"
proof -
  have "db_step demo_env demo_db demo_crashed"
    by (rule insert_one [OF demo_inserted]) (simp add: demo_record_def demo_scope_wf)
  with demo_db_reachable show ?thesis by (rule rtranclp.rtrancl_into_rtrancl)
qed

text \<open>The witness: a memory that was opened, inserted and deleted is still in the full-text table.\<close>

theorem repository_invariant_witness:
  "\<exists>d. repo_delete demo_env no_faults demo_scope ''a'' None 9 demo_crashed = (d, Ok ()) \<and> db_indexed d
    \<and> map r_status (db_memories d) = [''deleted''] \<and> distinct (map ft_id (db_fts d)) \<and> ft_id ` set (db_fts d) = {''a''}"
proof -
  have del: "repo_delete demo_env no_faults demo_scope ''a'' None 9 demo_crashed = (tombstone demo_scope ''a'' 9 demo_crashed, Ok ())"
    by (simp add: repo_delete_def transact_def)
  have row: "r_id demo_row = ''a''" "in_scope demo_scope demo_row"
    by (simp_all add: row_of_record_def demo_record_def in_scope_def)
  have d: "db_memories (tombstone demo_scope ''a'' 9 demo_crashed) = [demo_row\<lparr> r_status := ''deleted'', r_updated := 9 \<rparr>]"
    "db_indexed (tombstone demo_scope ''a'' 9 demo_crashed)"
    by (simp_all add: tombstone_def update_rows_def demo_crashed_def demo_db_def row)
  have "(db_step demo_env)\<^sup>*\<^sup>* empty_db (tombstone demo_scope ''a'' 9 demo_crashed)"
    using demo_crashed_reachable delete_one [OF del] by (rule rtranclp.rtrancl_into_rtrancl)
  from repository_invariant [OF this] have "distinct (map ft_id (db_fts (tombstone demo_scope ''a'' 9 demo_crashed)))"
    "set (db_fts (tombstone demo_scope ''a'' 9 demo_crashed)) = {fts_of (demo_row\<lparr> r_status := ''deleted'', r_updated := 9 \<rparr>)}"
    by (simp_all add: d)
  then show ?thesis using del d row by simp
qed

section \<open>Typed reads within a scope\<close>

text \<open>C16: In every reachable database every scoped read is well typed: without a fault \<open>get\_by\_scope\_and\_id\<close>
  returns without a panic and without a conversion error, and a record it returns has the requested
  id, a validated scope, and the tenant and namespace of the request. The agent and the user of the
  request play no part in the read.\<close>

theorem scoped_read_typed:
  assumes "(db_step E)\<^sup>*\<^sup>* empty_db db" "env_ok E"
  shows "\<exists>found. repo_get E no_faults sc i db = Ok found
    \<and> repo_get E no_faults (sc\<lparr> sc_agent := agent, sc_user := user \<rparr>) i db = Ok found
    \<and> pred_option (\<lambda>rec. mr_id rec = i \<and> scope_wf (mr_scope rec)
        \<and> sc_tenant (mr_scope rec) = sc_tenant sc \<and> sc_namespace (mr_scope rec) = sc_namespace sc) found"
proof -
  have inv: "db_inv db" by (rule reachable_inv [OF assms(1) empty_db_inv])
  have names: "visible (sc\<lparr> sc_agent := agent, sc_user := user \<rparr>) i db = visible sc i db"
    by (simp add: visible_def in_scope_def)
  show ?thesis
  proof (cases "visible sc i db")
    case None
    then show ?thesis using inv names by (simp add: repo_get_visible [OF assms(2)] db_inv_def)
  next
    case (Some r)
    then have r: "r \<in> set (db_memories db)" "r_id r = i" "in_scope sc r"
      using find_Some_set unfolding visible_def by fastforce+
    then have ok: "row_ok r" using inv by (simp add: db_inv_def)
    then obtain rec where "record_of_row E StPending r = Ok rec" "mr_id rec = r_id r" "mr_scope rec = row_scope r"
      by (rule record_of_row_ok)
    then show ?thesis using Some inv r names row_scope_wf [OF ok]
      by (simp add: repo_get_visible [OF assms(2)] db_inv_def row_scope_def in_scope_def)
  qed
qed

theorem scoped_read_typed_witness:
  "repo_get demo_env no_faults demo_scope ''a'' demo_crashed = Ok (Some (demo_record ''a'' [f_one]))
    \<and> repo_get demo_env no_faults (demo_scope\<lparr> sc_agent := Some ''bot'', sc_user := None \<rparr>) ''a'' demo_crashed
      = Ok (Some (demo_record ''a'' [f_one]))
    \<and> scope_wf (mr_scope (demo_record ''a'' [f_one]))"
proof -
  have wf: "db_wf demo_crashed" using kept.steps [OF demo_crashed_reachable empty_db_inv] by (simp add: db_inv_def)
  have "visible demo_scope ''a'' demo_crashed = Some demo_row"
    by (simp add: visible_def demo_crashed_def in_scope_def row_of_record_def demo_record_def)
  moreover have "record_of_row demo_env StPending demo_row = Ok (demo_record ''a'' [f_one])"
    using record_roundtrip [OF demo_record_ok [of "[f_one]" "''a''"], of demo_env StPending]
      demo_reread [of "demo_record ''a'' [f_one]"] by (simp add: demo_record_def)
  ultimately have "repo_get demo_env no_faults demo_scope ''a'' demo_crashed = Ok (Some (demo_record ''a'' [f_one]))"
    by (simp add: repo_get_visible [OF demo_env_ok wf])
  then show ?thesis using scoped_read_typed [OF demo_crashed_reachable demo_env_ok,
    where sc = demo_scope and i = "''a''" and agent = "Some ''bot''" and user = None] by auto
qed

section \<open>Round trip\<close>

lemma op_added_visible: "op_added mk op d d' \<Longrightarrow> visible sc i d' = visible sc i d"
  by (simp add: visible_def op_added_frame)

text \<open>C20: A record that was inserted is read back by its scope and id: every field of it is exactly what was
  inserted, except that metadata and source are what the JSON library makes of them when it prints and
  parses them, which is the same again when they hold no floating-point number (and are not nested too
  deep). A request from another tenant or namespace does not see the record, and every other memory
  reads as before.\<close>

theorem inserted_record_read_back:
  assumes "env_ok E" "db_wf db" "record_ok rec" "repo_insert_pending E sf rec op now db = (d, Ok ())"
  shows "repo_get E no_faults (mr_scope rec) (mr_id rec) d
      = Ok (Some (rec\<lparr> mr_metadata := json_reread E (mr_metadata rec), mr_source := json_reread E (mr_source rec) \<rparr>))
    \<and> (ev_plain E (mr_metadata rec) \<longrightarrow> json_reread E (mr_metadata rec) = mr_metadata rec)
    \<and> (ev_plain E (mr_source rec) \<longrightarrow> json_reread E (mr_source rec) = mr_source rec)
    \<and> (in_scope sc (row_of_record E rec) \<or> repo_get E no_faults sc (mr_id rec) d = Ok None)
    \<and> (i = mr_id rec \<or> repo_get E no_faults sc i d = repo_get E no_faults sc i db)"
proof -
  from assms(4) obtain d1 where ins: "insert_row (row_of_record E rec) db = Some d1"
    and op: "op_added (\<lambda>i. op_row_of i (mr_id rec) ''remember'' (payload_of E rec) ''pending'' now None) op d1 d"
    by (rule repo_insert_Ok)
  let ?r = "row_of_record E rec"
  have wf: "db_wf d1" by (rule insert_row_wf [OF assms(2) ins])
  then have wfd: "db_wf d" using op by (auto simp: op_added_def intro: insert_op_wf split: option.splits)
  have id: "r_id ?r = mr_id rec" by (simp add: row_of_record_def)
  have new: "\<forall>r\<in>set (db_memories db). r_id r \<noteq> mr_id rec" and mem: "db_memories d1 = db_memories db @ [?r]"
    using ins id by (force simp: insert_row_def image_iff split: if_splits)+
  have old: "find (\<lambda>r. r_id r = mr_id rec \<and> in_scope s r) (db_memories db) = None" for s
    using new by (auto simp: find_None_iff)
  have vis: "visible s j d = (case find (\<lambda>r. r_id r = j \<and> in_scope s r) (db_memories db) of
      None \<Rightarrow> if j = mr_id rec \<and> in_scope s ?r then Some ?r else None | Some r \<Rightarrow> Some r)" for s j
    by (simp only: op_added_visible [OF op]) (auto simp: visible_def mem find_append_option id split: option.split)
  have own: "in_scope (mr_scope rec) ?r" by (simp add: in_scope_def row_of_record_def)
  have other: "visible s j d = visible s j db" if "j \<noteq> mr_id rec" for s j
    using that by (subst vis) (simp add: visible_def split: option.split)
  have get: "repo_get E no_faults s j d = (case visible s j d of None \<Rightarrow> Ok None
     | Some r \<Rightarrow> obind (map_err (db_error ''Query failed: '') (record_of_row E StPending r)) (\<lambda>rec. Ok (Some rec)))" for s j
    by (rule repo_get_visible [OF assms(1) wfd])
  have "repo_get E no_faults (mr_scope rec) (mr_id rec) d = Ok (Some (reread E rec))"
    using own record_roundtrip [OF assms(3), of E StPending] by (simp add: get vis old)
  moreover have "in_scope sc ?r \<or> repo_get E no_faults sc (mr_id rec) d = Ok None" by (simp add: get vis old)
  moreover have "i = mr_id rec \<or> repo_get E no_faults sc i d = repo_get E no_faults sc i db"
    using other [of i sc] by (cases "i = mr_id rec") (simp_all add: get repo_get_visible [OF assms(1,2)])
  ultimately show ?thesis using json_reread_plain [OF assms(1)] unfolding reread_def by blast
qed

theorem inserted_record_read_back_witness:
  "repo_insert_pending demo_env no_faults (demo_record ''a'' [f_one]) (Some ''op'') 5 demo_db = (demo_crashed, Ok ())
    \<and> repo_get demo_env no_faults demo_scope ''a'' demo_crashed = Ok (Some (demo_record ''a'' [f_one]))"
proof -
  note r = inserted_record_read_back [OF demo_env_ok demo_db_wf _ demo_inserted, of demo_scope "''b''"]
  have "ev_plain demo_env (\<lambda>_. None)" by (simp add: demo_env_def)
  then show ?thesis using r demo_record_ok [of "[f_one]" "''a''"] demo_inserted by (simp add: demo_record_def)
qed

section \<open>Updates\<close>

lemma update_rows_find:
  assumes "db_wf db" "r \<in> set (db_memories db)" "r' \<in> set (db_memories (update_rows P f db))"
    and "\<And>r. r_id (f r) = r_id r" "r_id r' = r_id r"
  shows "r' = (if P r then f r else r)"
proof -
  from assms(3) obtain r0 where r0: "r0 \<in> set (db_memories db)" "r' = (if P r0 then f r0 else r0)"
    by (auto simp: update_rows_def)
  then have "r_id r0 = r_id r" using assms(4,5) by (auto split: if_splits)
  then have "r0 = r" using r0 assms(1,2) by (auto simp: db_wf_def distinct_map inj_on_def)
  then show ?thesis using r0 by simp
qed

text \<open>C9: No update is lost: once an update of a memory went through at some expected revision, a second
  update of the memory that expects the same revision fails, whatever it wants to write and in whatever
  scope it is asked for.\<close>

theorem no_lost_update:
  assumes "env_ok E" "db_wf db" "repo_update E sf rec expected op now db = (d, Ok ())" "mr_id rec' = mr_id rec"
  shows "snd (repo_update E sf' rec' expected op' now' d) \<noteq> Ok ()"
proof
  assume "snd (repo_update E sf' rec' expected op' now' d) = Ok ()"
  then have second: "repo_update E sf' rec' expected op' now' d = (fst (repo_update E sf' rec' expected op' now' d), Ok ())"
    by (metis prod.collapse)
  from assms(3) obtain cur d1 where cur: "cur \<in> set (db_memories db)" "r_id cur = mr_id rec"
      "r_revision cur = expected" "expected \<noteq> - 1"
    and d1: "d1 = update_rows (\<lambda>r. r_id r = mr_id rec \<and> r_revision r = expected) (update_row E rec expected) db"
    and d: "op_added (\<lambda>i. op_row_of i (mr_id rec) ''update'' (payload_of E rec) ''pending'' now None) op d1 d"
    by (rule repo_update_Ok) (use find_scan_iff [OF assms(1,2)] in blast)
  have id: "r_id (update_row E rec expected r) = r_id r" for r by (simp add: update_row_def)
  have wf: "db_wf d" using d update_rows_wf [OF assms(2) id]
    unfolding d1 by (auto simp: op_added_def intro: insert_op_wf split: option.splits)
  from second obtain cur' where cur': "cur' \<in> set (db_memories d)" "r_id cur' = mr_id rec'" "r_revision cur' = expected"
    by (rule repo_update_Ok) (use find_scan_iff [OF assms(1) wf] in blast)
  have "cur' = update_row E rec expected cur"
    using update_rows_find [OF assms(2) cur(1) _ id,
        where P = "\<lambda>r. r_id r = mr_id rec \<and> r_revision r = expected" and r' = cur'] cur cur' assms(4) op_added_frame [OF d] d1 by simp
  then have "r_revision cur' = expected + 1" by (simp add: update_row_def)
  then show False using cur'(3) by simp
qed

theorem no_lost_update_witness:
  "\<exists>d. repo_update demo_env no_faults (demo_record ''a'' [f_one]) 1 None 6 demo_crashed = (d, Ok ())
    \<and> snd (repo_update demo_env no_faults (demo_record ''a'' [f_two]) 1 None 7 d) \<noteq> Ok ()"
proof -
  have wf: "db_wf demo_crashed" using kept.steps [OF demo_crashed_reachable empty_db_inv] by (simp add: db_inv_def)
  obtain d where d: "repo_update demo_env no_faults (demo_record ''a'' [f_one]) 1 None 6 demo_crashed = (d, Ok ())"
    by (simp add: repo_update_def transact_def row_of_record_def demo_record_def in_scope_def demo_env_def
        finite_not_nan demo_crashed_def demo_db_def)
  from no_lost_update [OF demo_env_ok wf d, of "demo_record ''a'' [f_two]"] d show ?thesis
    by (simp add: demo_record_def)
qed

section \<open>Full-text search\<close>

lemma ws_words_subset: "t \<in> set (split_whitespace s) \<Longrightarrow> set t \<subseteq> set s"
proof -
  assume "t \<in> set (split_whitespace s)"
  then have t: "set t \<subseteq> (\<Union>c\<in>set (str_chars s). set c)"
    unfolding split_whitespace_def using ws_words_chars by fastforce
  have "(\<Union>c\<in>set cs. set c) \<subseteq> set u" if "utf8_chars u = Some cs" for u cs
    using that
  proof (induction u arbitrary: cs rule: utf8_chars.induct)
    case (1 u)
    show ?case
    proof (cases "u = []")
      case True
      then show ?thesis using 1(2) by (simp add: utf8_chars.simps)
    next
      case False
      then obtain ds where ds: "cp_len u \<noteq> 0" "utf8_chars (drop (cp_len u) u) = Some ds" "cs = take (cp_len u) u # ds"
        using 1(2) by (auto simp: utf8_chars.simps [of u] split: if_splits)
      from 1(1) [OF False ds(1,2)] show ?thesis
        by (auto simp: ds(3) dest: in_set_takeD in_set_dropD)
    qed
  qed
  then have "(\<Union>c\<in>set (str_chars s). set c) \<subseteq> set s"
    by (cases "utf8_chars s") (auto simp: str_chars_def)
  with t show ?thesis by blast
qed

lemma cp_char_quote:
  assumes "utf8_chars u = Some ds" "c \<in> set ds" "CHR 0x22 \<in> set c"
  shows "c = [CHR 0x22]"
  using assms
proof (induction u arbitrary: ds rule: utf8_chars.induct)
  case (1 u)
  show ?case
  proof (cases "u = []")
    case True
    then show ?thesis using 1(2,3) by (simp add: utf8_chars.simps)
  next
    case False
    then obtain es where es: "cp_len u \<noteq> 0" "utf8_chars (drop (cp_len u) u) = Some es" "ds = take (cp_len u) u # es"
      using 1(2) by (auto simp: utf8_chars.simps [of u] split: if_splits)
    show ?thesis
    proof (cases "c \<in> set es")
      case True
      then show ?thesis using 1(1) [OF False es(1,2)] 1(4) by blast
    next
      case False
      then have c: "c = take (cp_len u) u" using 1(3) es(3) by simp
      obtain b r where u: "u = b # r" using \<open>u \<noteq> []\<close> by (cases u) auto
      have q: "\<not> cont (CHR 0x22)" "of_char (CHR 0x22) = (34 :: nat)" by (simp_all add: cont_def)
      show ?thesis
        using 1(4) es(1) q unfolding c u
        by (auto simp: cp_len_def Let_def list_all_iff numeral_2_eq_2 numeral_3_eq_3 take_Suc_conv_app_nth
            split: if_splits)
    qed
  qed
qed

lemma fts_tokens_safe:
  assumes "env_ok E" "t \<in> set (fts_tokens E input)"
  shows "t \<noteq> [] \<and> CHR 0x22 \<notin> set t"
proof
  have "[] \<notin> set (str_chars s)" for s
  proof -
    have "[] \<notin> set cs" if "utf8_chars u = Some cs" for u cs
      using that
      by (induction u arbitrary: cs rule: utf8_chars.induct)
        (subst (asm) (2) utf8_chars.simps, auto split: if_splits)
    then show ?thesis by (cases "utf8_chars s") (auto simp: str_chars_def)
  qed
  then show "t \<noteq> []" using assms(2) unfolding fts_tokens_def split_whitespace_def by (rule ws_words_nonempty [rotated])
  show "CHR 0x22 \<notin> set t"
  proof
    assume "CHR 0x22 \<in> set t"
    then obtain c where c: "c \<in> set (str_chars input)" "CHR 0x22 \<in> set (fts_char E c)"
      using ws_words_subset [OF assms(2) [unfolded fts_tokens_def]] by auto
    then have "CHR 0x22 \<in> set c" "ev_alnum E c" by (auto simp: fts_char_def split: if_splits)
    moreover from this have "c = [CHR 0x22]"
      using c(1) cp_char_quote by (cases "utf8_chars input") (auto simp: str_chars_def)
    ultimately show False using assms(1) by (simp add: env_ok_def)
  qed
qed

text \<open>C28: No text of a caller can break out of the full-text query: the query built from any input is
  either empty or one quoted phrase followed by alternatives that are quoted single terms, and no phrase
  or term contains a quotation mark.\<close>

theorem fts_query_cannot_escape:
  assumes "env_ok E"
  shows "\<exists>ts. sanitize_fts_query E input =
      (if ts = [] then [] else quoted (str_join '' '' ts) @ '' OR '' @ str_join '' OR '' (map quoted ts))
    \<and> CHR 0x22 \<notin> set (str_join '' '' ts) \<and> [] \<notin> set ts \<and> CHR 0x22 \<notin> \<Union> (set ` set ts)"
proof -
  have join: "set (str_join '' '' ts) \<subseteq> insert CHR '' '' (\<Union> (set ` set ts))" for ts
    by (induction "'' ''" ts rule: str_join.induct) auto
  let ?ts = "fts_tokens E input"
  have safe: "t \<noteq> [] \<and> CHR 0x22 \<notin> set t" if "t \<in> set ?ts" for t
    using fts_tokens_safe [OF assms that] .
  then have "[] \<notin> set ?ts" "CHR 0x22 \<notin> \<Union> (set ` set ?ts)" by blast+
  moreover from this(2) have "CHR 0x22 \<notin> set (str_join '' '' ?ts)" using join [of ?ts] by auto
  ultimately show ?thesis by (intro exI [of _ ?ts]) (simp add: sanitize_fts_query_def Let_def)
qed

theorem fts_query_cannot_escape_witness:
  "\<exists>ts. sanitize_fts_query demo_env ''a OR b'' =
      (if ts = [] then [] else quoted (str_join '' '' ts) @ '' OR '' @ str_join '' OR '' (map quoted ts))
    \<and> CHR 0x22 \<notin> \<Union> (set ` set ts)"
  using fts_query_cannot_escape [OF demo_env_ok, of "''a OR b''"] by blast

lemma distinct_sub_mset:
  assumes "mset xs \<subseteq># mset ys" "distinct ys"
  shows "distinct xs \<and> set xs \<subseteq> set ys"
proof
  have c: "count (mset xs) a \<le> 1" for a
  proof -
    have "count (mset ys) a \<le> 1" using assms(2) by (simp add: distinct_count_atmost_1)
    then show ?thesis using mset_subset_eq_count [OF assms(1), of a] by (rule order_trans [rotated])
  qed
  have "count (mset xs) a = (if a \<in> set xs then 1 else 0)" for a
  proof (cases "a \<in> set xs")
    case True
    then have "0 < count (mset xs) a" by (simp only: count_greater_zero_iff set_mset_mset)
    then have "count (mset xs) a = 1" using c [of a] by linarith
    then show ?thesis using True by simp
  qed simp
  then show "distinct xs" by (simp add: distinct_count_atmost_1)
  show "set xs \<subseteq> set ys" using set_mset_mono [OF assms(1)] by simp
qed

lemma set_until_fault: "set (until_fault sf n xs) \<subseteq> set xs \<and> length (until_fault sf n xs) \<le> length xs
    \<and> (distinct xs \<longrightarrow> distinct (until_fault sf n xs))"
  by (induction sf n xs rule: until_fault.induct) auto

text \<open>The memories that a full-text search is for: active, in the tenant and the namespace, matched by the
  query with their current content, and equal to the filter's metadata under every key it names. The
  statement knows no other condition of a filter.\<close>

definition fts_wanted :: "'j store_env \<Rightarrow> memory_scope \<Rightarrow> string \<Rightarrow> 'j memory_filter \<Rightarrow> database \<Rightarrow> memory_row \<Rightarrow> bool" where
  "fts_wanted E sc query fl db r \<longleftrightarrow>
     r_tenant r = sc_tenant sc \<and> r_namespace r = sc_namespace sc \<and> r_status r = ''active''
     \<and> fts_of r \<in> set (ev_match E query (db_fts db))
     \<and> (\<forall>(key, val)\<in>set (case fl_metadata fl of None \<Rightarrow> [] | Some conds \<Rightarrow> conds).
          ev_extract_eq E (r_metadata r) (''$.'' @ key) (fts_param E val))"

lemma fts_rows_facts:
  assumes "env_ok E" "db_wf db"
  shows "distinct (fts_rows E sc query fl db)
    \<and> set (fts_rows E sc query fl db) = r_id ` {r \<in> set (db_memories db). fts_wanted E sc query fl db r}"
proof
  let ?fs = "filter (\<lambda>f. ft_tenant f = sc_tenant sc \<and> ft_namespace f = sc_namespace sc) (ev_match E query (db_fts db))"
  let ?ms = "\<lambda>f. filter (\<lambda>m. r_id m = ft_id f \<and> r_status m = ''active'' \<and> fts_cond E fl m) (db_memories db)"
  have sub: "distinct (ev_match E query (db_fts db)) \<and> set (ev_match E query (db_fts db)) \<subseteq> set (db_fts db)"
    using assms by (intro distinct_sub_mset) (simp_all add: env_ok_def db_wf_def)
  have of: "\<exists>r\<in>set (db_memories db). f = fts_of r" if "f \<in> set ?fs" for f
    using that sub assms(2) by (auto simp: db_wf_def)
  have inj: "r = r'" if "r \<in> set (db_memories db)" "r' \<in> set (db_memories db)" "r_id r = r_id r'" for r r'
    using that assms(2) by (auto simp: db_wf_def distinct_map inj_on_def)
  have cond: "fts_cond E fl m \<longleftrightarrow> (\<forall>(key, val)\<in>set (case fl_metadata fl of None \<Rightarrow> [] | Some conds \<Rightarrow> conds).
      ev_extract_eq E (r_metadata m) (''$.'' @ key) (fts_param E val))" for m
    by (auto simp: fts_cond_def list_all_iff split: option.split)
  show "set (fts_rows E sc query fl db) = r_id ` {r \<in> set (db_memories db). fts_wanted E sc query fl db r}"
  proof (intro equalityI subsetI)
    fix i assume "i \<in> set (fts_rows E sc query fl db)"
    then obtain f m where f: "f \<in> set ?fs" and m: "m \<in> set (?ms f)" and i: "i = ft_id f"
      unfolding fts_rows_def by auto
    from of [OF f] obtain r where r: "r \<in> set (db_memories db)" "f = fts_of r" by blast
    then have "m = r" using m inj by auto
    then show "i \<in> r_id ` {r \<in> set (db_memories db). fts_wanted E sc query fl db r}"
      using f m i r by (auto simp: fts_wanted_def cond fts_of_def)
  next
    fix i assume "i \<in> r_id ` {r \<in> set (db_memories db). fts_wanted E sc query fl db r}"
    then obtain r where r: "r \<in> set (db_memories db)" "fts_wanted E sc query fl db r" "i = ft_id (fts_of r)" by auto
    then have "fts_of r \<in> set ?fs" "r \<in> set (?ms (fts_of r))"
      unfolding fts_wanted_def cond [symmetric] by (auto simp: fts_of_def)
    then show "i \<in> set (fts_rows E sc query fl db)" using r(3) unfolding fts_rows_def by fastforce
  qed
  have len: "length (?ms f) \<le> 1" for f
  proof -
    have "distinct (map r_id (?ms f))" using assms(2) by (simp add: db_wf_def distinct_map_filter)
    moreover have "set (map r_id (?ms f)) \<subseteq> {ft_id f}" by auto
    ultimately show ?thesis using card_mono [of "{ft_id f}" "set (map r_id (?ms f))"] distinct_card by fastforce
  qed
  have "inj_on ft_id (set ?fs)"
    using of inj by (auto simp: inj_on_def) (metis ft_id_fts_of)
  then have d: "distinct (map ft_id ?fs)" using sub by (simp add: distinct_map)
  have one: "map (\<lambda>m. ft_id f) (?ms f) = [] \<or> map (\<lambda>m. ft_id f) (?ms f) = [ft_id f]" for f
    using len [of f] by (cases "?ms f") auto
  have "distinct (concat (map g fs)) \<and> set (concat (map g fs)) \<subseteq> ft_id ` set fs"
    if "distinct (map ft_id fs)" "\<And>f. g f = [] \<or> g f = [ft_id f]" for fs g
    using that(1)
  proof (induction fs)
    case Nil
    then show ?case by simp
  next
    case (Cons f fs)
    then have "ft_id f \<notin> set (concat (map g fs))" by auto
    then show ?case using Cons that(2) [of f] by auto
  qed
  from this [OF d one] show "distinct (fts_rows E sc query fl db)" by (simp add: fts_rows_def)
qed

lemma until_fault_none: "(\<forall>n. sf (SpRow n) = None) \<Longrightarrow> until_fault sf n xs = xs"
  by (induction sf n xs rule: until_fault.induct) auto

text \<open>C27: Full-text search answers exactly its query: whichever step of the statement fails, it returns
  distinct ids, no more than the limit, each of an active memory of the requested tenant and namespace
  that the query matches and whose metadata has the filter's value under every key of its metadata
  condition (the kinds, importance and times of a filter are not part of this statement); and when it
  returns fewer than the limit and no step failed, it returns all of them.\<close>

theorem fts_search_in_scope:
  assumes "env_ok E" "db_wf db" "repo_search_fts E sf sc text fl limit db = Ok ids" "limit < 2 ^ 63"
  shows "distinct ids \<and> length ids \<le> limit
    \<and> set ids \<subseteq> r_id ` {r \<in> set (db_memories db). fts_wanted E sc (sanitize_fts_query E text) fl db r}
    \<and> (sanitize_fts_query E text = [] \<or> limit \<le> length ids \<or> (\<exists>n. sf (SpRow n) \<noteq> None)
       \<or> set ids = r_id ` {r \<in> set (db_memories db). fts_wanted E sc (sanitize_fts_query E text) fl db r})"
proof (cases "sanitize_fts_query E text = []")
  case True
  then show ?thesis using assms(3) by (simp add: repo_search_fts_def Let_def)
next
  case False
  let ?rows = "fts_rows E sc (sanitize_fts_query E text) fl db"
  note rows = fts_rows_facts [OF assms(1,2), of sc "sanitize_fts_query E text" fl]
  have ids: "ids = until_fault sf 0 (take limit ?rows)"
    using assms(3) False by (auto simp: repo_search_fts_def Let_def outcome_iff sql_limit_le [OF assms(4)])
  have "distinct (take limit ?rows)" "set (take limit ?rows) \<subseteq> set ?rows" "length (take limit ?rows) \<le> limit"
    using rows by (auto dest: in_set_takeD)
  then have part: "distinct ids" "set ids \<subseteq> set ?rows" "length ids \<le> limit"
    using set_until_fault [of sf 0 "take limit ?rows"] unfolding ids by (meson le_trans subset_trans)+
  have "set ids = set ?rows" if "\<forall>n. sf (SpRow n) = None" "length ids < limit"
    using that by (simp add: ids until_fault_none)
  then show ?thesis using part rows by (metis not_le)
qed

text \<open>A table for the witnesses: an active memory, a deleted one, and an active one of another tenant.\<close>

definition demo_rows :: "memory_row list" where
  "demo_rows =
     [(row_of_record demo_env (demo_record ''a'' [f_one]))\<lparr> r_status := ''active'' \<rparr>,
      (row_of_record demo_env (demo_record ''b'' [f_one]))\<lparr> r_status := ''deleted'' \<rparr>,
      (row_of_record demo_env (demo_record ''c'' [f_one]))\<lparr> r_status := ''active'', r_tenant := ''rival'' \<rparr>]"

definition demo_table :: database where
  "demo_table = demo_db\<lparr> db_memories := demo_rows, db_fts := map fts_of demo_rows \<rparr>"

lemma demo_table_wf: "db_wf demo_table"
  by (simp add: db_wf_def demo_table_def demo_db_def demo_rows_def row_of_record_def demo_record_def demo_scope_def fts_of_def)

lemma demo_query: "sanitize_fts_query demo_env ''sky'' \<noteq> []"
proof -
  have "map (fts_char demo_env) (str_chars ''sky'') = str_chars ''sky''"
    by (simp add: str_chars_ascii fts_char_def) (simp add: demo_env_def)
  moreover have "''s'' \<notin> set ws_seqs" "''k'' \<notin> set ws_seqs" "''y'' \<notin> set ws_seqs"
    by (rule visible_not_ws; simp)+
  ultimately have "fts_tokens demo_env ''sky'' = [''sky'']"
    by (simp add: fts_tokens_def str_chars_ascii split_whitespace_def)
  then show ?thesis by (simp add: sanitize_fts_query_def quoted_def)
qed

lemma demo_fts: "repo_search_fts demo_env no_faults demo_scope ''sky'' filter_default 3 demo_table = Ok [''a'']"
  using demo_query
  by (simp add: repo_search_fts_def Let_def fts_rows_def demo_table_def demo_rows_def row_of_record_def demo_record_def
      demo_scope_def fts_of_def fts_cond_def filter_default_def sql_limit_def) (simp add: demo_env_def no_faults_def)

theorem fts_search_in_scope_witness:
  "repo_search_fts demo_env no_faults demo_scope ''sky'' filter_default 3 demo_table = Ok [''a'']
    \<and> {''a''} = r_id ` {r \<in> set (db_memories demo_table).
        fts_wanted demo_env demo_scope (sanitize_fts_query demo_env ''sky'') filter_default demo_table r}"
  using demo_fts demo_query fts_search_in_scope [OF demo_env_ok demo_table_wf demo_fts] by (simp add: no_faults_def)

section \<open>Vacuum\<close>

text \<open>C33: Vacuum removes only memories that are deleted or past their expiry, at most as many as the batch
  size and exactly as many as it reports; it keeps every other row as it is, and when it reports fewer
  than the batch size nothing that could be removed is left.\<close>

theorem vacuum_exact:
  assumes "env_ok E" "db_wf db" "repo_vacuum E sf batch now db = (d, Ok n)" "batch < 2 ^ 63"
  shows "\<exists>gone. mset (db_memories db) = mset (db_memories d) + mset gone \<and> length gone = n \<and> n \<le> batch
    \<and> list_all (expendable now) gone
    \<and> (n = batch \<or> list_all (\<lambda>r. \<not> expendable now r) (db_memories d))"
proof -
  let ?cand = "filter (expendable now) (ev_scan E (db_memories db))"
  let ?ids = "take batch (map r_id ?cand)"
  let ?gone = "filter (\<lambda>r. r_id r \<in> set ?ids) (db_memories db)"
  have m: "mset (ev_scan E (db_memories db)) = mset (db_memories db)" using assms(1) by (simp add: env_ok_def)
  then have cset: "set ?cand = {r \<in> set (db_memories db). expendable now r}" using mset_eq_set [OF m] by simp
  have d: "d = delete_rows ?ids db" "n = length ?gone"
    using assms(3) by (auto simp: repo_vacuum_def outcome_iff vacuum_ids_def sql_limit_le [OF assms(4)])
  have mem: "db_memories d = filter (\<lambda>r. r_id r \<notin> set ?ids) (db_memories db)"
    by (simp add: d(1) delete_rows_def)
  have dm: "distinct (map r_id (db_memories db))" using assms(2) by (simp add: db_wf_def)
  then have inj: "inj_on r_id (set (db_memories db))" by (simp add: distinct_map)
  have "mset (map r_id (ev_scan E (db_memories db))) = mset (map r_id (db_memories db))" using m by simp
  then have "distinct (map r_id (ev_scan E (db_memories db)))" using dm mset_eq_imp_distinct_iff by blast
  then have dc: "distinct (map r_id ?cand)" by (rule distinct_map_filter)
  have idsub: "set ?ids \<subseteq> r_id ` {r \<in> set (db_memories db). expendable now r}"
    using cset by (auto dest!: in_set_takeD)
  have exp: "list_all (expendable now) ?gone"
    using idsub inj by (auto simp: list_all_iff inj_on_def dest!: subsetD)
  have "set (map r_id ?gone) = set ?ids" using idsub by (auto simp: image_iff subset_iff)
  moreover have "distinct (map r_id ?gone)" using dm by (rule distinct_map_filter)
  ultimately have "length ?gone = length ?ids" using distinct_take [OF dc] by (metis distinct_card length_map)
  then have len: "n = min (length ?cand) batch" by (simp add: d(2))
  have "n = batch \<or> list_all (\<lambda>r. \<not> expendable now r) (db_memories d)"
  proof (cases "n = batch")
    case False
    then have "?ids = map r_id ?cand" using len by simp
    then have "set ?ids = r_id ` {r \<in> set (db_memories db). expendable now r}" by (simp only: set_map cset)
    then show ?thesis by (auto simp: mem list_all_iff)
  qed simp
  moreover have "mset (db_memories db) = mset (db_memories d) + mset ?gone"
    unfolding mem by (rule mset_filter_split)
  ultimately show ?thesis using exp len d(2) by (intro exI [of _ ?gone]) auto
qed

lemma demo_vacuum:
  "repo_vacuum demo_env no_faults 5 9 demo_table
    = (demo_table\<lparr> db_memories := [demo_rows ! 0, demo_rows ! 2], db_fts := [fts_of (demo_rows ! 0), fts_of (demo_rows ! 2)] \<rparr>, Ok 1)"
  by (simp add: repo_vacuum_def transact_def vacuum_ids_def demo_table_def demo_db_def sql_limit_def demo_env_def delete_rows_def
   demo_rows_def row_of_record_def demo_record_def expendable_def demo_scope_def fts_of_def fts_delete_def)

theorem vacuum_exact_witness:
  "\<exists>gone. mset (db_memories demo_table) = mset [demo_rows ! 0, demo_rows ! 2] + mset gone \<and> length gone = 1
    \<and> list_all (expendable 9) gone"
  using vacuum_exact [OF demo_env_ok demo_table_wf demo_vacuum] by auto

section \<open>Migration\<close>

text \<open>C36: Opening is idempotent: on a database that a migration has completed, a later migration succeeds
  and changes nothing; the first one keeps every memory and, when it is the one that makes the full-text
  table, fills it with exactly the memories that are not deleted, whichever schema version it started
  from.\<close>

theorem migration_idempotent:
  assumes "db_inv db" "repo_migrate E sf now db = (d, Ok ())"
  shows "repo_migrate E no_faults now' d = (d, Ok ())
    \<and> db_memories d = db_memories db \<and> db_indexed d
    \<and> set (db_fts d) = (if db_indexed db then set (db_fts db)
         else fts_of ` {r \<in> set (db_memories db). r_status r \<noteq> ''deleted''})"
proof -
  have inv: "db_inv d" "db_memories d = db_memories db" using repo_migrate_inv [OF assms(2,1)] by simp_all
  have ix: "db_indexed d" using migrate_Ok [OF assms(2,1)] by simp
  with inv(1) obtain vs where "db_versions d = Some vs" "2 \<le> max_version vs"
    by (auto simp: db_inv_def split: option.splits)
  then have "repo_migrate E no_faults now' d = (d, Ok ())" by (simp add: repo_migrate_def transact_def)
  then show ?thesis using migrate_Ok [OF assms(2,1)] inv(2) by simp
qed

lemma demo_migrate:
  "\<exists>d. repo_migrate demo_env no_faults 5 empty_db = (d, Ok ())"
  by (simp add: repo_migrate_def transact_def migrate_v1_def migrate_v2_def record_version_def apply_v1_def
      apply_v2_def backfill_fts_def empty_db_def)

theorem migration_idempotent_witness:
  "\<exists>d. repo_migrate demo_env no_faults 5 empty_db = (d, Ok ()) \<and> repo_migrate demo_env no_faults 6 d = (d, Ok ())"
proof -
  obtain d where d: "repo_migrate demo_env no_faults 5 empty_db = (d, Ok ())" using demo_migrate by blast
  then show ?thesis using migration_idempotent [OF empty_db_inv d, of 6] by blast
qed

end
