(* ===== verification/Journal_Facts.thy ===== *)
theory Journal_Facts
  imports Journal Repository_Safety
begin

text \<open>
  What the coordinator does to the database and to the index: the effect of every step as a function
  on rows, and the facts about recovery that hold for every vector index with the contract of
  \<open>vector_index\<close>.
\<close>

section \<open>Sequenced calls\<close>

lemma and_then_Ok_iff [outcome_iff]:
  "and_then m f = (s', Ok y) \<longleftrightarrow> (\<exists>s x. m = (s, Ok x) \<and> f s x = (s', Ok y))"
  by (cases m; cases "snd m") auto

lemma and_then_cases:
  assumes "and_then m f = (s', res)"
  obtains s x where "m = (s, Ok x)" "f s x = (s', res)"
    | e where "m = (s', Err e)" "res = Err e" | "m = (s', Panic)" "res = Panic"
  using assms by (cases m; cases "snd m") auto

lemma on_db_Ok_iff [outcome_iff]:
  "on_db f st = (st', Ok x) \<longleftrightarrow> (\<exists>d. f (jn_db st) = (d, Ok x) \<and> st' = st\<lparr> jn_db := d \<rparr>)"
  by (auto simp: on_db_def split: prod.splits)

lemma on_index_Ok_iff [outcome_iff]:
  "on_index f st = (st', Ok x) \<longleftrightarrow> (\<exists>ix. f (jn_index st) = (ix, Ok x) \<and> st' = st\<lparr> jn_index := ix \<rparr>)"
  by (auto simp: on_index_def split: prod.splits)

lemma ask_Ok_iff [outcome_iff]: "ask f st = (st', Ok x) \<longleftrightarrow> f (jn_db st) = Ok x \<and> st' = st"
  by (auto simp: ask_def)

lemma on_index_db: "on_index f st = (st', res) \<Longrightarrow> jn_db st' = jn_db st"
  by (auto simp: on_index_def split: prod.splits)

lemma on_db_index: "on_db f st = (st', res) \<Longrightarrow> jn_index st' = jn_index st"
  by (auto simp: on_db_def split: prod.splits)

section \<open>Effects on the tables\<close>

text \<open>Memories whose ids are in \<open>A\<close> become active if they are pending.\<close>

definition activated :: "string set \<Rightarrow> memory_row \<Rightarrow> memory_row" where
  "activated A r = (if r_id r \<in> A \<and> r_status r = ''pending'' then r\<lparr> r_status := ''active'' \<rparr> else r)"

lemma activated_activated: "activated B (activated A r) = activated (A \<union> B) r"
  by (auto simp: activated_def)

lemma activated_id [simp]: "r_id (activated A r) = r_id r"
  by (simp add: activated_def)

lemma activated_none: "r_id r \<notin> A \<Longrightarrow> activated A r = r"
  by (simp add: activated_def)

text \<open>Operations whose ids are in \<open>H\<close> become applied.\<close>

definition op_applied :: "string set \<Rightarrow> op_row \<Rightarrow> op_row \<Rightarrow> bool" where
  "op_applied H o1 o2 \<longleftrightarrow>
     (if o_id o1 \<in> H then o_id o2 = o_id o1 \<and> o_memory o2 = o_memory o1 \<and> o_kind o2 = o_kind o1 \<and> o_state o2 = ''applied''
      else o2 = o1)"

lemma op_applied_trans:
  "list_all2 (op_applied A) xs ys \<Longrightarrow> list_all2 (op_applied B) ys zs \<Longrightarrow> list_all2 (op_applied (A \<union> B)) xs zs"
  by (erule (1) list_all2_trans [rotated]) (auto simp: op_applied_def split: if_splits)

lemma op_applied_refl: "list_all2 (op_applied {}) xs xs"
  by (simp add: list_all2_same op_applied_def)

definition db_effect :: "string set \<Rightarrow> string set \<Rightarrow> database \<Rightarrow> database \<Rightarrow> bool" where
  "db_effect A H db d \<longleftrightarrow> db_memories d = map (activated A) (db_memories db) \<and> list_all2 (op_applied H) (db_ops db) (db_ops d)"

lemma db_effect_refl: "db_effect {} {} db db"
  by (simp add: db_effect_def op_applied_refl map_idI activated_none)

lemma db_effect_trans: "db_effect A H db d \<Longrightarrow> db_effect B K d d' \<Longrightarrow> db_effect (A \<union> B) (H \<union> K) db d'"
  by (auto simp: db_effect_def activated_activated intro: op_applied_trans)

lemma db_effect_ids: "db_effect A H db d \<Longrightarrow> r_id ` set (db_memories d) = r_id ` set (db_memories db)"
  by (simp add: db_effect_def image_image)

lemma mark_effect:
  assumes "repo_mark_applied E sf op now db = (d, Ok u)"
  shows "db_effect {} {op} db d"
proof -
  have d: "d = update_ops (\<lambda>o'. o_id o' = op) (apply_op now) db"
    using assms by (auto simp: repo_mark_applied_def outcome_iff)
  have "list_all2 (op_applied {op}) (db_ops db) (db_ops d)"
    by (simp add: d update_ops_def list_all2_map2 list_all2_same op_applied_def apply_op_def)
  then show ?thesis by (simp add: db_effect_def d update_ops_def map_idI activated_none)
qed

lemma set_active_effect:
  assumes "repo_set_status E sf i StActive db = (d, Ok u)"
    and "\<And>r. r \<in> set (db_memories db) \<Longrightarrow> r_id r = i \<Longrightarrow> r_status r = ''pending''"
  shows "db_effect {i} {} db d"
proof -
  have "d = update_rows (\<lambda>r. r_id r = i) (\<lambda>r. r\<lparr> r_status := ''active'' \<rparr>) db"
    using assms(1) by (auto simp: repo_set_status_def outcome_iff)
  then show ?thesis
    using assms(2) by (auto simp: db_effect_def update_rows_def activated_def op_applied_refl)
qed

section \<open>Rows of a query\<close>

lemma omap_Ok_rel: "omap f xs = Ok ys \<Longrightarrow> list_all2 (\<lambda>x y. f x = Ok y) xs ys"
  by (induction xs arbitrary: ys) (auto simp: outcome_iff)

lemma collect_rows_Ok:
  assumes "collect_rows E sf conv rs = Ok xs"
  shows "list_all2 (\<lambda>r x. conv r = Ok x) rs xs"
proof -
  have "list_all2 (\<lambda>nr x. conv (snd nr) = Ok x) (zip [0..<length rs] rs) xs"
    using omap_Ok_rel [OF assms [unfolded collect_rows_def]]
    by (rule list_all2_mono) (auto simp: outcome_iff)
  then have "list_all2 (\<lambda>r x. conv r = Ok x) (map snd (zip [0..<length rs] rs)) xs"
    by (simp only: list_all2_map1)
  then show ?thesis by (simp only: map_snd_zip length_upt diff_zero)
qed

lemma list_all2_set_map:
  "list_all2 R xs ys \<Longrightarrow> (\<And>x y. x \<in> set xs \<Longrightarrow> R x y \<Longrightarrow> g y = f x) \<Longrightarrow> map g ys = map f xs"
  by (induction rule: list_all2_induct) auto

lemma pending_ops_set:
  assumes "repo_pending_ops E sf db = Ok ps" "env_ok E"
  shows "set ps = (\<lambda>o'. (o_id o', o_memory o', o_kind o')) ` {o' \<in> set (db_ops db). o_state o' = ''pending''}"
proof -
  let ?rows = "sort_key (\<lambda>o'. sint (o_created o')) (filter (\<lambda>o'. o_state o' = ''pending'') (ev_scan_ops E (db_ops db)))"
  have "collect_rows E sf (\<lambda>o'. Ok (o_id o', o_memory o', o_kind o')) ?rows = Ok ps"
    using assms(1) by (auto simp: repo_pending_ops_def outcome_iff)
  from list_all2_set_map [OF collect_rows_Ok [OF this], of id "\<lambda>o'. (o_id o', o_memory o', o_kind o')"]
  have "ps = map (\<lambda>o'. (o_id o', o_memory o', o_kind o')) ?rows" by simp
  moreover have "set (ev_scan_ops E (db_ops db)) = set (db_ops db)"
    using assms(2) by (intro mset_eq_set) (simp add: env_ok_def)
  ultimately show ?thesis by simp
qed

text \<open>The records a rebuild is given: one for every active row.\<close>

lemma active_records_map:
  assumes "repo_active_records E sf db = Ok recs" "env_ok E" "db_inv db"
  shows "map (\<lambda>rec. (mr_id rec, mr_embedding rec)) recs
    = map (\<lambda>r. (r_id r, bytes_to_embedding (r_embedding r))) (filter (\<lambda>r. r_status r = ''active'') (ev_scan E (db_memories db)))"
proof -
  let ?rows = "filter (\<lambda>r. r_status r = ''active'') (ev_scan E (db_memories db))"
  have m: "mset (ev_scan E (db_memories db)) = mset (db_memories db)" using assms(2) by (simp add: env_ok_def)
  have rel: "list_all2 (\<lambda>r rec. record_of_row E StActive r = Ok rec) ?rows recs"
    using assms(1) by (auto simp: repo_active_records_def outcome_iff intro: collect_rows_Ok)
  show ?thesis
  proof (rule list_all2_set_map [OF rel])
    fix r rec assume "r \<in> set ?rows" "record_of_row E StActive r = Ok rec"
    moreover from this have "row_ok r" using mset_eq_set [OF m] assms(3) by (simp add: db_inv_def)
    ultimately show "(mr_id rec, mr_embedding rec) = (r_id r, bytes_to_embedding (r_embedding r))"
      by (auto elim!: record_of_row_ok [of r E StActive])
  qed
qed

lemma active_records_facts:
  assumes "repo_active_records E sf db = Ok recs" "env_ok E" "db_inv db"
  shows "(\<lambda>rec. (mr_id rec, mr_embedding rec)) ` set recs
      = (\<lambda>r. (r_id r, bytes_to_embedding (r_embedding r))) ` {r \<in> set (db_memories db). r_status r = ''active''}"
    and "length recs \<le> length (db_memories db)"
proof -
  have m: "mset (ev_scan E (db_memories db)) = mset (db_memories db)" using assms(2) by (simp add: env_ok_def)
  note e = active_records_map [OF assms]
  from arg_cong [OF e, of set]
  show "(\<lambda>rec. (mr_id rec, mr_embedding rec)) ` set recs
      = (\<lambda>r. (r_id r, bytes_to_embedding (r_embedding r))) ` {r \<in> set (db_memories db). r_status r = ''active''}"
    using mset_eq_set [OF m] by simp
  from arg_cong [OF e, of length] show "length recs \<le> length (db_memories db)"
    using length_filter_le [of "\<lambda>r. r_status r = ''active''" "ev_scan E (db_memories db)"] mset_eq_len [OF m] by simp
qed

lemma internal_record:
  assumes "repo_get_internal E sf i db = Ok found" "env_ok E" "db_inv db"
  shows "case found of None \<Rightarrow> i \<notin> r_id ` set (db_memories db)
    | Some rec \<Rightarrow> \<exists>r\<in>set (db_memories db). r_id r = i \<and> mr_id rec = i \<and> status_str (mr_status rec) = r_status r
        \<and> mr_embedding rec = bytes_to_embedding (r_embedding r)"
proof -
  have wf: "db_wf db" using assms(3) by (simp add: db_inv_def)
  show ?thesis
  proof (cases found)
    case None
    then have "find (\<lambda>r. r_id r = i \<and> True) (ev_scan E (db_memories db)) = None"
      using assms(1) by (auto simp: repo_get_internal_def first_record_def outcome_iff split: option.splits)
    then show ?thesis using None unfolding find_scan_None [OF assms(2) wf] by auto
  next
    case (Some rec)
    then obtain r where "find (\<lambda>r. r_id r = i \<and> True) (ev_scan E (db_memories db)) = Some r"
      and rec: "record_of_row E StPending r = Ok rec"
      using assms(1) by (auto simp: repo_get_internal_def first_record_def outcome_iff split: option.splits)
    then have r: "r \<in> set (db_memories db)" "r_id r = i" unfolding find_scan_iff [OF assms(2) wf] by auto
    then have "row_ok r" using assms(3) by (simp add: db_inv_def)
    then show ?thesis using Some r rec by (auto elim!: record_of_row_ok [of r E StPending])
  qed
qed

section \<open>Replaying the journal\<close>

text \<open>The memories that a pending operation writes, and the operations a replay settles.\<close>

definition write_kinds :: "string set" where
  "write_kinds = {''remember'', ''update''}"

definition journaled :: "(string \<times> string \<times> string) set \<Rightarrow> string set" where
  "journaled ps = {mem. \<exists>op kind. (op, mem, kind) \<in> ps \<and> kind \<in> write_kinds}"

definition settled :: "string set \<Rightarrow> (string \<times> string \<times> string) set \<Rightarrow> string set" where
  "settled mems ps = {op. \<exists>mem kind. (op, mem, kind) \<in> ps \<and> (kind = ''delete'' \<or> kind \<in> write_kinds \<and> mem \<in> mems)}"

lemma journaled_insert: "journaled (insert p ps) = journaled {p} \<union> journaled ps"
  by (auto simp: journaled_def)

lemma settled_insert: "settled M (insert p ps) = settled M {p} \<union> settled M ps"
  by (auto simp: settled_def)

lemma settle_one:
  "journaled {(op, mem, kind)} = (if kind \<in> write_kinds then {mem} else {})"
  "settled M {(op, mem, kind)} = (if kind = ''delete'' \<or> kind \<in> write_kinds \<and> mem \<in> M then {op} else {})"
  by (auto simp: journaled_def settled_def)

lemma db_effect_absent: "i \<notin> r_id ` set (db_memories db) \<Longrightarrow> db_effect {i} {} db db"
  unfolding db_effect_def by (auto intro!: op_applied_refl map_idI [symmetric] simp: activated_def)

lemma recover_record_effect:
  assumes "recover_record E ops jf w rec st = (st', Ok u)" "r \<in> set (db_memories (jn_db st))" "r_id r = mr_id rec"
    and "status_str (mr_status rec) = r_status r" "db_wf (jn_db st)"
  shows "db_effect {mr_id rec} {} (jn_db st) (jn_db st')"
proof -
  have uniq: "r' = r" if "r' \<in> set (db_memories (jn_db st))" "r_id r' = mr_id rec" for r'
    using that assms(2,3,5) by (auto simp: db_wf_def distinct_map inj_on_def)
  show ?thesis
  proof (cases "mr_status rec = StPending")
    case True
    then have p: "r_status r = ''pending''" using assms(4) by simp
    from assms(1) True obtain d where "repo_set_status E (jf 1) (mr_id rec) StActive (jn_db st) = (d, Ok u)" "jn_db st' = d"
      by (auto simp: recover_record_def outcome_iff)
    then show ?thesis using set_active_effect uniq p by blast
  next
    case False
    then have "r_status r \<noteq> ''pending''" using assms(4) status_str_inject [of "mr_status rec" StPending] by simp
    then have "activated {mr_id rec} r' = r'" if "r' \<in> set (db_memories (jn_db st))" for r'
      using uniq [OF that] by (auto simp: activated_def)
    moreover have "jn_db st' = jn_db st"
      using assms(1) False by (auto simp: recover_record_def outcome_iff split: if_splits)
    ultimately show ?thesis by (simp add: db_effect_def op_applied_refl map_idI)
  qed
qed

lemma recover_op_write:
  assumes "recover_op E ops jf w now (op, mem, kind) st = (st', Ok k)" "kind \<in> write_kinds"
  obtains found where "repo_get_internal E (jf 0) mem (jn_db st) = Ok found"
    "(case found of None \<Rightarrow> (st, Ok 0)
      | Some rec \<Rightarrow> and_then (recover_record E ops jf w rec st) (\<lambda>st1 _.
          and_then (on_db (repo_mark_applied E (jf 2) op now) st1) (\<lambda>st2 _. (st2, Ok 1)))) = (st', Ok k)"
proof -
  have "kind = ''remember'' \<or> kind = ''update''" using assms(2) by (auto simp: write_kinds_def)
  then have "and_then (ask (repo_get_internal E (jf 0) mem) st) (\<lambda>st0 found.
            case found of
              None \<Rightarrow> (st0, Ok 0)
            | Some rec \<Rightarrow>
                and_then (recover_record E ops jf w rec st0) (\<lambda>st1 _.
                and_then (on_db (repo_mark_applied E (jf 2) op now) st1) (\<lambda>st2 _. (st2, Ok 1)))) = (st', Ok k)"
    using assms(1) unfolding recover_op_def by (simp only: prod.case if_True)
  then show thesis using that unfolding and_then_Ok_iff ask_Ok_iff by blast
qed

lemma recover_op_effect:
  assumes "recover_op E ops jf w now (op, mem, kind) st = (st', Ok k)" "env_ok E" "db_inv (jn_db st)"
  shows "db_effect (journaled {(op, mem, kind)}) (settled (r_id ` set (db_memories (jn_db st))) {(op, mem, kind)})
    (jn_db st) (jn_db st')"
proof (cases "kind \<in> write_kinds")
  case True
  then have k: "kind \<noteq> ''delete''" by (auto simp: write_kinds_def)
  obtain found where f: "repo_get_internal E (jf 0) mem (jn_db st) = Ok found"
    and rest: "(case found of None \<Rightarrow> (st, Ok 0)
       | Some rec \<Rightarrow> and_then (recover_record E ops jf w rec st) (\<lambda>st1 _.
            and_then (on_db (repo_mark_applied E (jf 2) op now) st1) (\<lambda>st2 _. (st2, Ok 1)))) = (st', Ok k)"
    using assms(1) True by (rule recover_op_write)
  note found = internal_record [OF f assms(2,3)]
  show ?thesis
  proof (cases found)
    case None
    then have "mem \<notin> r_id ` set (db_memories (jn_db st))" "st' = st" using found rest by auto
    then show ?thesis using True k by (simp add: settle_one db_effect_absent)
  next
    case (Some rec)
    then obtain r where r: "r \<in> set (db_memories (jn_db st))" "r_id r = mem" "mr_id rec = mem"
      "status_str (mr_status rec) = r_status r" using found by auto
    from rest Some obtain st1 d where 1: "recover_record E ops jf w rec st = (st1, Ok ())"
      and 2: "repo_mark_applied E (jf 2) op now (jn_db st1) = (d, Ok ())" and d: "jn_db st' = d"
      by (auto simp: outcome_iff)
    have "db_effect {mem} {} (jn_db st) (jn_db st1)"
      using recover_record_effect [OF 1 r(1)] r assms(3) by (simp add: db_inv_def)
    from db_effect_trans [OF this mark_effect [OF 2]] show ?thesis using True k r d
      by (auto simp: settle_one)
  qed
next
  case False
  then have k: "kind \<noteq> ''remember''" "kind \<noteq> ''update''" by (auto simp: write_kinds_def)
  show ?thesis
  proof (cases "kind = ''delete''")
    case True
    then obtain st1 d where "on_index (io_remove ops mem) st = (st1, Ok ())"
      and 2: "repo_mark_applied E (jf 2) op now (jn_db st1) = (d, Ok ())" and d: "jn_db st' = d"
      using assms(1) k by (auto simp: recover_op_def outcome_iff)
    then have "jn_db st1 = jn_db st" by (auto dest: on_index_db)
    then show ?thesis using mark_effect [OF 2] True False d by (simp add: settle_one)
  next
    case False
    then show ?thesis using assms(1) k \<open>kind \<notin> write_kinds\<close> by (auto simp: recover_op_def settle_one db_effect_refl)
  qed
qed

section \<open>What every call keeps\<close>

text \<open>\<open>keeps P m\<close>: the call keeps \<open>P\<close> from every state, whatever its outcome. The rules follow the way
  the calls are composed.\<close>

definition keeps :: "('ix journal \<Rightarrow> bool) \<Rightarrow> ('ix journal \<Rightarrow> 'ix journal \<times> 'a mresult) \<Rightarrow> bool" where
  "keeps P m \<longleftrightarrow> (\<forall>st. P st \<longrightarrow> P (fst (m st)))"

lemma keepsI: "(\<And>st st' res. P st \<Longrightarrow> m st = (st', res) \<Longrightarrow> P st') \<Longrightarrow> keeps P m"
  unfolding keeps_def by (metis prod.collapse)

lemma keepsD: "keeps P m \<Longrightarrow> m st = (st', res) \<Longrightarrow> P st \<Longrightarrow> P st'"
  unfolding keeps_def by (metis fst_conv)

lemma keeps_bind:
  assumes "keeps P m" "\<And>st st' x. P st \<Longrightarrow> m st = (st', Ok x) \<Longrightarrow> keeps P (\<lambda>s. f s x)"
  shows "keeps P (\<lambda>st. and_then (m st) f)"
proof (rule keepsI)
  fix st st' res assume st: "P st" and run: "and_then (m st) f = (st', res)"
  from run show "P st'"
    by (rule and_then_cases) (use st keepsD [OF assms(1)] keepsD [OF assms(2) [OF st]] in blast)+
qed

lemma keeps_then: "keeps P m \<Longrightarrow> (\<And>x. keeps P (\<lambda>s. f s x)) \<Longrightarrow> keeps P (\<lambda>st. and_then (m st) f)"
  by (rule keeps_bind)

lemma keeps_stop: "keeps P (\<lambda>st. (st, res))"
  by (simp add: keeps_def)

lemma keeps_ask: "keeps P (ask f)"
  by (simp add: keeps_def ask_def)

lemma keeps_if: "(c \<Longrightarrow> keeps P f) \<Longrightarrow> (\<not> c \<Longrightarrow> keeps P g) \<Longrightarrow> keeps P (\<lambda>st. if c then f st else g st)"
  by (cases c) simp_all

lemma keeps_opt:
  "keeps P f \<Longrightarrow> (\<And>x. keeps P (g x)) \<Longrightarrow> keeps P (\<lambda>st. case v of None \<Rightarrow> f st | Some x \<Rightarrow> g x st)"
  by (cases v) simp_all

lemmas keeps_rules = keeps_then keeps_stop keeps_ask keeps_if keeps_opt

abbreviation keeps_db_inv :: "('ix journal \<Rightarrow> 'ix journal \<times> 'a mresult) \<Rightarrow> bool" where
  "keeps_db_inv \<equiv> keeps (\<lambda>st. db_inv (jn_db st))"

lemma keeps_inv_index: "keeps_db_inv (on_index f)"
  by (simp add: keeps_def on_index_def split: prod.split)

lemma keeps_inv_db: "(\<And>db d res. f db = (d, res) \<Longrightarrow> db_step E db d) \<Longrightarrow> keeps_db_inv (on_db f)"
  using db_step_inv by (fastforce simp: keeps_def on_db_def split: prod.splits)

lemma keeps_inv_steps:
  "keeps_db_inv (on_db (repo_set_status E sf i s))" "keeps_db_inv (on_db (repo_mark_applied E sf op now))"
  "keeps_db_inv (on_db (repo_update E sf rec expected oid now))" "keeps_db_inv (on_db (repo_delete E sf sc i oid now))"
  "scope_wf (mr_scope rec) \<Longrightarrow> keeps_db_inv (on_db (repo_insert_pending E sf rec oid now))"
  by (rule keeps_inv_db, erule db_step.intros, assumption?)+

lemma keeps_inv_recover_record: "keeps_db_inv (recover_record E ops jf w rec)"
  unfolding recover_record_def by (intro keeps_rules keeps_inv_index keeps_inv_steps)

lemma keeps_inv_recover_op: "keeps_db_inv (recover_op E ops jf w now p)"
proof -
  obtain op mem kind where "p = (op, mem, kind)" by (cases p) auto
  then show ?thesis unfolding recover_op_def
    by (simp only: prod.case) (intro keeps_rules keeps_inv_recover_record keeps_inv_index keeps_inv_steps)
qed

lemma keeps_recover_ops:
  assumes "\<And>jf w now p. p \<in> set ps \<Longrightarrow> keeps P (recover_op E ops jf w now p)"
  shows "keeps P (recover_ops E ops jfs ws nows ps n)"
  using assms
proof (induction ps arbitrary: jfs ws nows n)
  case Nil
  show ?case by (simp add: keeps_def)
next
  case (Cons p ps)
  show ?case unfolding recover_ops.simps by (intro keeps_then Cons) simp_all
qed

lemmas recover_op_inv = keepsD [OF keeps_inv_recover_op]

lemma keeps_inv_remember:
  assumes "scope_wf (mr_scope rec)"
  shows "keeps_db_inv (coordinate_remember E ops jf w now rec op)"
  unfolding coordinate_remember_def finish_remember_def
  by (intro keeps_rules keeps_inv_index keeps_inv_steps assms)

lemma recover_ops_effect:
  assumes "recover_ops E ops jfs ws nows ps n st = (st', Ok k)" "env_ok E" "db_inv (jn_db st)"
  shows "db_inv (jn_db st')
    \<and> db_effect (journaled (set ps)) (settled (r_id ` set (db_memories (jn_db st))) (set ps)) (jn_db st) (jn_db st')"
  using assms(1,3)
proof (induction ps arbitrary: jfs ws nows n st)
  case Nil
  then show ?case by (simp add: journaled_def settled_def db_effect_refl)
next
  case (Cons p ps)
  from Cons.prems(1) obtain st1 m where 1: "recover_op E ops (jfs 0) (ws 0) (nows 0) p st = (st1, Ok m)"
    and 2: "recover_ops E ops (\<lambda>x. jfs (Suc x)) (\<lambda>x. ws (Suc x)) (\<lambda>x. nows (Suc x)) ps (n + m) st1 = (st', Ok k)"
    unfolding recover_ops.simps and_then_Ok_iff by blast
  have inv1: "db_inv (jn_db st1)" by (rule recover_op_inv [OF 1 Cons.prems(2)])
  have e1: "db_effect (journaled {p}) (settled (r_id ` set (db_memories (jn_db st))) {p}) (jn_db st) (jn_db st1)"
    using recover_op_effect [OF _ assms(2) Cons.prems(2)] 1 by (cases p) blast
  from Cons.IH [OF 2 inv1] have inv: "db_inv (jn_db st')"
    and e2: "db_effect (journaled (set ps)) (settled (r_id ` set (db_memories (jn_db st))) (set ps)) (jn_db st1) (jn_db st')"
    unfolding db_effect_ids [OF e1] by simp_all
  show ?case unfolding list.set(2) journaled_insert [of p "set ps"] settled_insert [of _ p "set ps"]
    using inv db_effect_trans [OF e1 e2] by blast
qed

lemma recover_startup_Ok:
  assumes "recover_startup E ops rp st = (st', Ok n)"
  obtains pend st1 recs ix where "repo_pending_ops E (rp_pending rp) (jn_db st) = Ok pend"
    "recover_ops E ops (rp_ops rp) (rp_op_worlds rp) (rp_clock rp) pend 0 st = (st1, Ok n)"
    "repo_active_records E (rp_active rp) (jn_db st1) = Ok recs"
    "io_rebuild ops (rp_worlds rp) recs (jn_index st1) = (ix, Ok ())" "st' = st1\<lparr> jn_index := ix \<rparr>"
  using assms unfolding recover_startup_def rebuild_active_def by (auto simp: outcome_iff)

lemma coordinate_forget_Ok:
  assumes "coordinate_forget E ops sf now sc i op st = (st', Ok ())"
  obtains d ix where "repo_delete E sf sc i op now (jn_db st) = (d, Ok ())"
    "io_remove ops i (jn_index st) = (ix, Ok ())" "st' = st\<lparr> jn_db := d, jn_index := ix \<rparr>"
proof -
  obtain st1 where 1: "on_db (repo_delete E sf sc i op now) st = (st1, Ok ())" and 2: "on_index (io_remove ops i) st1 = (st', Ok ())"
    using assms unfolding coordinate_forget_def and_then_Ok_iff by auto
  from 1 obtain d where d: "repo_delete E sf sc i op now (jn_db st) = (d, Ok ())" "st1 = st\<lparr> jn_db := d \<rparr>"
    unfolding on_db_Ok_iff by blast
  from 2 d(2) obtain ix where "io_remove ops i (jn_index st) = (ix, Ok ())" "st' = st1\<lparr> jn_index := ix \<rparr>"
    unfolding on_index_Ok_iff by auto
  then show thesis using that d by simp
qed

end
