(* ===== verification/Adapter_Search.thy ===== *)
theory Adapter_Search
  imports Index_Adapter Vivy_Entries
begin

text \<open>
  The Vivy-backed index after a rebuild: it holds exactly the records it was given, under fresh
  numbers, in memory only; while there are few of them its search is the brute-force search. The locale
  \<open>exact_index\<close> states this for any index, and both indexes of the code keep it.
\<close>

section \<open>Nearest lists\<close>

lemma nearest_less:
  assumes "nearest n hs xs" "k \<le> n"
  shows "nearest k hs (take k xs)"
proof -
  obtain rest where s: "sorted (map (\<lambda>hit. of_key (snd hit)) xs)" "length xs = min n (length hs)"
    and r: "mset (xs @ rest) = mset hs" "\<forall>a\<in>set xs. \<forall>b\<in>set rest. of_key (snd a) \<le> of_key (snd b)"
    using assms(1) by (auto simp: nearest_def)
  have "mset (take k xs @ (drop k xs @ rest)) = mset hs" using r(1) by (metis append_assoc append_take_drop_id)
  moreover have "of_key (snd a) \<le> of_key (snd b)" if a: "a \<in> set (take k xs)" and b: "b \<in> set (drop k xs @ rest)" for a b
    using b unfolding set_append
  proof
    assume "b \<in> set (drop k xs)"
    then show ?thesis by (rule sorted_take_le_drop [OF s(1) a])
  qed (use r(2) in_set_takeD [OF a] in blast)
  moreover have "sorted (map (\<lambda>hit. of_key (snd hit)) (take k xs))" by (rule take_sorted_key) fact
  moreover have "length (take k xs) = min k (length hs)" using s(2) assms(2) by simp
  ultimately show ?thesis unfolding nearest_def by blast
qed

lemma nearest_map:
  assumes "nearest k hs xs"
  shows "nearest k (map (\<lambda>(n, d). (f n, d)) hs) (map (\<lambda>(n, d). (f n, d)) xs)"
proof -
  obtain rest where s: "sorted (map (\<lambda>hit. of_key (snd hit)) xs)" "length xs = min k (length hs)"
    and r: "mset (xs @ rest) = mset hs" "\<forall>a\<in>set xs. \<forall>b\<in>set rest. of_key (snd a) \<le> of_key (snd b)"
    using assms by (auto simp: nearest_def)
  let ?f = "map (\<lambda>(n, d). (f n, d :: f32))"
  have "mset (?f (xs @ rest)) = mset (?f hs)" using r(1) by (simp only: mset_map)
  then have "mset (?f xs @ ?f rest) = mset (?f hs)" by simp
  moreover have "\<forall>a\<in>set (?f xs). \<forall>b\<in>set (?f rest). of_key (snd a) \<le> of_key (snd b)"
    using r(2) by (auto simp: case_prod_unfold)
  moreover have "sorted (map (\<lambda>hit. of_key (snd hit)) (?f xs))" using s(1) by (simp add: o_def case_prod_unfold)
  ultimately show ?thesis using s(2) unfolding nearest_def by (intro conjI exI [of _ "?f rest"]) simp_all
qed

lemma nearest_mset: "nearest k hs xs \<Longrightarrow> mset hs' = mset hs \<Longrightarrow> nearest k hs' xs"
  using mset_eq_len [of hs' hs] by (simp add: nearest_def)

section \<open>Inserting without a log\<close>

lemma vivy_insert_unlogged:
  assumes "order_ok R" "vivy_wf R m ix" "vx_wal ix = None"
    and "vivy_insert_with_id R r lf n v ix = (ix', Ok ())"
  shows "vivy_wf R m ix' \<and> vx_wal ix' = None \<and> vx_dir ix' = vx_dir ix \<and> vx_sealed ix' = vx_sealed ix
    \<and> vx_dims ix' = vx_dims ix \<and> length v = vx_dims ix
    \<and> mset (delta_entries ix') = add_mset (n, v) (mset (delta_entries ix))"
proof -
  let ?ix = "ix\<lparr> vx_next_id := max (vx_next_id ix) (saturating_succ n) \<rparr>"
  have v: "length v = vx_dims ix" and ins: "shard_insert R r n v ?ix = (ix', Ok ())"
    using assms(3,4) by (auto simp: vivy_insert_with_id_def vivy_log_def split: if_splits)
  have "vivy_wf R m ?ix" using assms(2) by (simp add: vivy_wf_def)
  then have "shard_inserted R m ?ix n v ix'"
    using shard_insert_spec [OF assms(1), where m = m and ix = ?ix and v = v and r = r and i = n] v ins by simp
  then show ?thesis using v assms(3) by (auto simp: shard_inserted_def delta_entries_def)
qed

lemma vivy_insert_unlogged_total:
  assumes "order_ok R" "vivy_wf R m ix" "vx_wal ix = None" "length v = vx_dims ix"
    and "vivy_dists_ok m ix [v]" "level_ok R (vx_dims ix) m r"
  shows "\<exists>ix'. vivy_insert_with_id R r lf n v ix = (ix', Ok ())"
proof -
  let ?ix = "ix\<lparr> vx_next_id := max (vx_next_id ix) (saturating_succ n) \<rparr>"
  have "vivy_wf R m ?ix" "vivy_dists_ok m ?ix [v]"
    using assms(2,5) by (simp_all add: vivy_wf_def vivy_dists_ok_def delta_entries_def)
  then have "\<exists>ix'. shard_insert R r n v ?ix = (ix', Ok ())"
    using shard_insert_spec [OF assms(1), where m = m and ix = ?ix and v = v and r = r and i = n] assms(4,6)
    by (auto split: prod.splits outcome.splits)
  then show ?thesis using assms(3,4) by (simp add: vivy_insert_with_id_def vivy_log_def)
qed

lemma vivy_new_memory:
  "vivy_new R rnd io stop dims m None None =
    Ok \<lparr> vx_dims = dims, vx_shards = map (\<lambda>_. hnsw_new R dims m) [0..<num_shards], vx_sealed = [],
         vx_filter = filter_new, vx_wal = None, vx_next_id = 1, vx_dir = None \<rparr>"
  by (simp add: vivy_new_def)

section \<open>The rebuilt index\<close>

text \<open>The index holds the records \<open>es\<close>, each under a number of its own below the next, and nothing else.\<close>

definition holds :: "'b runtime \<Rightarrow> 'b vivy_vector_index \<Rightarrow> (string \<times> f32 list) list \<Rightarrow> bool" where
  "holds R vv es \<longleftrightarrow>
     vivy_wf R (vv_metric vv) (vv_index vv) \<and> vx_dims (vv_index vv) = vv_dims vv \<and> vx_wal (vv_index vv) = None
     \<and> vx_dir (vv_index vv) = None \<and> vx_sealed (vv_index vv) = [] \<and> vv_tombs vv = (\<lambda>_. None)
     \<and> (\<forall>(n, v)\<in>set (delta_entries (vv_index vv)). unat n < unat (vv_next vv))
     \<and> unat (vv_next vv) = Suc (length es)
     \<and> mset (map (\<lambda>(n, v). (vv_names vv n, v)) (delta_entries (vv_index vv))) = mset (map (\<lambda>(i, v). (Some i, v)) es)"

lemma holds_new:
  "holds R \<lparr> vv_dims = dims, vv_metric = m,
     vv_index = \<lparr> vx_dims = dims, vx_shards = map (\<lambda>_. hnsw_new R dims m) [0..<num_shards], vx_sealed = [],
         vx_filter = filter_new, vx_wal = None, vx_next_id = 1, vx_dir = None \<rparr>,
     vv_ids = (\<lambda>_. None), vv_names = (\<lambda>_. None), vv_tombs = (\<lambda>_. None), vv_next = 1 \<rparr> []"
  using shard_ok_new [of R dims m]
  by (simp add: holds_def vivy_wf_def delta_entries_def hnsw_entries_def hnsw_new_def)

lemma holds_insert:
  assumes R: "order_ok (ae_runtime A)" and h: "holds (ae_runtime A) vv es" and room: "Suc (Suc (length es)) < 2 ^ 64"
    and ins: "vv_insert A what w (vv_next vv) v vv = (vv1, Ok ())"
  shows "holds (ae_runtime A)
    (vv1\<lparr> vv_ids := (vv_ids vv1)(i \<mapsto> vv_next vv), vv_names := (vv_names vv1)(vv_next vv \<mapsto> i), vv_next := vv_next vv + 1 \<rparr>)
    (es @ [(i, v)])"
proof -
  let ?R = "ae_runtime A" let ?n = "vv_next vv" let ?ix = "vv_index vv"
  obtain ix' where ix': "vivy_insert_with_id ?R (iw_random w) (iw_log w) ?n v ?ix = (ix', Ok ())"
    and vv1: "vv1 = vv\<lparr> vv_index := ix' \<rparr>"
    using ins by (auto simp: vv_insert_def outcome_iff split: prod.splits)
  have facts: "vivy_wf ?R (vv_metric vv) ix' \<and> vx_wal ix' = None \<and> vx_dir ix' = vx_dir ?ix \<and> vx_sealed ix' = vx_sealed ?ix
      \<and> vx_dims ix' = vx_dims ?ix \<and> length v = vx_dims ?ix
      \<and> mset (delta_entries ix') = add_mset (?n, v) (mset (delta_entries ?ix))"
    by (rule vivy_insert_unlogged [OF R _ _ ix']) (use h in \<open>simp_all add: holds_def\<close>)
  have S: "unat (?n + 1) = Suc (unat ?n)"
    using h room by (intro vv_next_Suc) (simp add: holds_def vv_room_def)
  have old: "\<forall>(n, v)\<in>set (delta_entries ?ix). unat n < unat ?n" using h unfolding holds_def by blast
  have "set (delta_entries ix') = insert (?n, v) (set (delta_entries ?ix))"
    using facts by (metis set_mset_add_mset_insert set_mset_mset)
  then have less: "\<forall>(n, v)\<in>set (delta_entries ix'). unat n < Suc (unat ?n)" using old by auto
  have "mset (map (\<lambda>(n, v). (((vv_names vv)(?n \<mapsto> i)) n, v)) (delta_entries ix'))
      = add_mset (Some i, v) (mset (map (\<lambda>(n, v). (((vv_names vv)(?n \<mapsto> i)) n, v)) (delta_entries ?ix)))"
    using facts by simp
  also have "map (\<lambda>(n, v). (((vv_names vv)(?n \<mapsto> i)) n, v)) (delta_entries ?ix)
      = map (\<lambda>(n, v). (vv_names vv n, v)) (delta_entries ?ix)"
    using old by (intro map_cong) auto
  finally have names: "mset (map (\<lambda>(n, v). (((vv_names vv)(?n \<mapsto> i)) n, v)) (delta_entries ix'))
      = add_mset (Some i, v) (mset (map (\<lambda>(n, v). (vv_names vv n, v)) (delta_entries ?ix)))" .
  have count: "unat ?n = Suc (length es)"
    and all: "mset (map (\<lambda>(n, v). (vv_names vv n, v)) (delta_entries ?ix)) = mset (map (\<lambda>(i, v). (Some i, v)) es)"
    using h by (simp_all only: holds_def)
  let ?vv' = "vv1\<lparr> vv_ids := (vv_ids vv1)(i \<mapsto> ?n), vv_names := (vv_names vv1)(?n \<mapsto> i), vv_next := ?n + 1 \<rparr>"
  have "\<forall>(n, v)\<in>set (delta_entries (vv_index ?vv')). unat n < unat (vv_next ?vv')" using less by (simp add: vv1 S)
  moreover have "mset (map (\<lambda>(n, v). (vv_names ?vv' n, v)) (delta_entries (vv_index ?vv')))
      = mset (map (\<lambda>(i, v). (Some i, v)) (es @ [(i, v)]))"
    using names all by (simp add: vv1 del: mset_map)
  moreover have "unat (vv_next ?vv') = Suc (length (es @ [(i, v)]))" by (simp add: S count)
  ultimately show ?thesis using h facts unfolding holds_def by (simp add: vv1 del: mset_map)
qed

definition fitting :: "nat \<Rightarrow> 'j memory_record list \<Rightarrow> (string \<times> f32 list) list" where
  "fitting n recs = map (\<lambda>r. (mr_id r, mr_embedding r)) (filter (\<lambda>r. length (mr_embedding r) = n) recs)"

lemma fitting_append: "fitting n (xs @ ys) = fitting n xs @ fitting n ys"
  by (simp add: fitting_def)

lemma fitting_length: "length (fitting n recs) \<le> length recs"
  by (simp add: fitting_def)

lemma holds_steps:
  assumes R: "order_ok (ae_runtime A)"
  shows "ofold (vv_rebuild_step A ws) vv krs = Ok vv' \<Longrightarrow> holds (ae_runtime A) vv es \<Longrightarrow>
    length es + length krs + 1 < 2 ^ 64 \<Longrightarrow>
    holds (ae_runtime A) vv' (es @ fitting (vv_dims vv) (map snd krs)) \<and> vv_dims vv' = vv_dims vv \<and> vv_metric vv' = vv_metric vv"
proof (induction krs arbitrary: vv es)
  case Nil
  then show ?case by (simp add: fitting_def)
next
  case (Cons kr krs)
  obtain k rec where kr: "kr = (k, rec)" by fastforce
  from Cons.prems(1) obtain vv1 where s: "vv_rebuild_step A ws vv (k, rec) = Ok vv1"
    and r: "ofold (vv_rebuild_step A ws) vv1 krs = Ok vv'" by (auto simp: kr outcome_iff)
  show ?case
  proof (cases "length (mr_embedding rec) = vv_dims vv")
    case False
    then have "vv1 = vv" using s by (simp add: vv_rebuild_step_def)
    then show ?thesis using Cons.IH [of vv es] r Cons.prems(2,3) False by (simp add: kr fitting_def)
  next
    case True
    obtain vv0 where i: "vv_insert A ''Failed to insert during rebuild: '' (ws k) (vv_next vv) (mr_embedding rec) vv = (vv0, Ok ())"
      and vv1: "vv1 = vv0\<lparr> vv_ids := (vv_ids vv0)(mr_id rec \<mapsto> vv_next vv),
        vv_names := (vv_names vv0)(vv_next vv \<mapsto> mr_id rec), vv_next := vv_next vv + 1 \<rparr>"
      using s True by (auto simp: vv_rebuild_step_def Let_def outcome_iff split: prod.splits)
    have "holds (ae_runtime A) vv1 (es @ [(mr_id rec, mr_embedding rec)])"
      unfolding vv1 using R Cons.prems(2) _ i by (rule holds_insert) (use Cons.prems(3) in simp)
    moreover have "vv_dims vv1 = vv_dims vv" "vv_metric vv1 = vv_metric vv"
      using i by (auto simp: vv1 vv_insert_def split: prod.splits)
    ultimately show ?thesis using Cons.IH [of vv1 "es @ [(mr_id rec, mr_embedding rec)]"] r Cons.prems(3) True
      by (simp add: kr fitting_def)
  qed
qed

lemma vv_rebuild_holds:
  assumes "order_ok (ae_runtime A)" "vv_rebuild A ws recs vv = (vv', Ok ())" "length recs + 1 < 2 ^ 64"
  shows "holds (ae_runtime A) vv' (fitting (vv_dims vv) recs) \<and> vv_dims vv' = vv_dims vv \<and> vv_metric vv' = vv_metric vv"
proof -
  let ?v0 = "\<lparr> vv_dims = vv_dims vv, vv_metric = vv_metric vv,
     vv_index = \<lparr> vx_dims = vv_dims vv, vx_shards = map (\<lambda>_. hnsw_new (ae_runtime A) (vv_dims vv) (vv_metric vv)) [0..<num_shards],
         vx_sealed = [], vx_filter = filter_new, vx_wal = None, vx_next_id = 1, vx_dir = None \<rparr>,
     vv_ids = (\<lambda>_. None), vv_names = (\<lambda>_. None), vv_tombs = (\<lambda>_. None), vv_next = 1 \<rparr>"
  have "ofold (vv_rebuild_step A ws) ?v0 (zip [0..<length recs] recs) = Ok vv'"
    using assms(2) by (auto simp: vv_rebuild_def vivy_new_memory split: outcome.splits)
  from holds_steps [OF assms(1) this holds_new] show ?thesis using assms(3) by (simp add: map_snd_zip)
qed

section \<open>Search after a rebuild\<close>

text \<open>Without removed ids, and when the hits have distinct names, the filter keeps the first ones.\<close>

lemma vv_filter_all:
  assumes "\<And>n d. (n, d) \<in> set raw \<Longrightarrow> names n = Some (f n)" "distinct (seen @ map (f \<circ> fst) raw)"
    and "length final < limit"
  shows "vv_filter_hits names (\<lambda>_. None) limit seen final raw = take limit (final @ map (\<lambda>(n, d). (f n, d)) raw)"
  using assms
proof (induction raw arbitrary: seen final)
  case Nil
  then show ?case by simp
next
  case (Cons hit raw)
  obtain n d where hit: "hit = (n, d)" by fastforce
  have n: "names n = Some (f n)" using Cons.prems(1) [of n d] hit by simp
  have new: "f n \<notin> set seen" using Cons.prems(2) by (simp add: hit)
  show ?case
  proof (cases "Suc (length final) = limit")
    case True
    then show ?thesis using n new True [symmetric] by (simp add: hit Let_def)
  next
    case False
    then have "vv_filter_hits names (\<lambda>_. None) limit (f n # seen) (final @ [(f n, d)]) raw
        = take limit ((final @ [(f n, d)]) @ map (\<lambda>(n, d). (f n, d)) raw)"
      using Cons.prems by (intro Cons.IH) (auto simp: hit)
    then show ?thesis using n new False by (simp add: hit Let_def)
  qed
qed

lemma holdsD:
  assumes "holds R vv es"
  shows "vivy_wf R (vv_metric vv) (vv_index vv)" "vx_dims (vv_index vv) = vv_dims vv" "vv_tombs vv = (\<lambda>_. None)"
    "mset (map (\<lambda>(n, v). (vv_names vv n, v)) (delta_entries (vv_index vv))) = mset (map (\<lambda>(i, v). (Some i, v)) es)"
    "vivy_entries (vv_index vv) = delta_entries (vv_index vv)"
proof -
  have s: "vx_sealed (vv_index vv) = []" using assms by (simp only: holds_def)
  show "vivy_entries (vv_index vv) = delta_entries (vv_index vv)" by (simp add: vivy_entries_def sealed_entries_def s)
qed (use assms in \<open>simp_all only: holds_def\<close>)

text \<open>A rebuilt index with at most 33 entries is searched exactly.\<close>

lemma holds_small:
  assumes "holds R vv es" "length es \<le> 33"
  shows "small_shards (vv_index vv)"
  unfolding small_shards_def
proof
  fix h assume h: "h \<in> set (vx_shards (vv_index vv))"
  have len: "length (delta_entries (vv_index vv)) = length es"
    using mset_eq_len [OF holdsD(4) [OF assms(1)]] by (simp only: length_map)
  have "length (hnsw_entries h) \<le> length (delta_entries (vv_index vv))"
    using member_le_sum_list [of "length (hnsw_entries h)" "map (\<lambda>h. length (hnsw_entries h)) (vx_shards (vv_index vv))"] h
    by (simp add: delta_entries_def length_concat o_def)
  then show "hnsw_len h \<le> 33" using assms(2) len by (simp add: hnsw_len_def hnsw_entries_length)
qed

lemma holds_search_exact:
  assumes R: "order_ok (ae_runtime A)" and h: "holds (ae_runtime A) vv es" and d: "distinct (map fst es)"
    and n: "length es \<le> 33" and q: "length q = vv_dims vv" and k: "0 < k" "k * 32 < 2 ^ 63"
    and nan: "\<forall>(i, v)\<in>set es. \<not> is_nan (compute (vv_metric vv) q v)"
  shows "\<exists>hits. vv_search A q k vv = Ok hits \<and> nearest k (map (\<lambda>(i, v). (i, compute (vv_metric vv) q v)) es) hits"
proof -
  let ?R = "ae_runtime A" let ?m = "vv_metric vv" let ?ix = "vv_index vv" let ?f = "\<lambda>n. the (vv_names vv n)"
  note wf = holdsD(1) [OF h] and dims = holdsD(2) [OF h] and tombs = holdsD(3) [OF h] and names = holdsD(4) [OF h]
    and en = holdsD(5) [OF h]
  have named: "\<exists>i. vv_names vv n = Some i \<and> (i, v) \<in> set es" if "(n, v) \<in> set (delta_entries ?ix)" for n v
  proof -
    have "(\<lambda>(n, v). (vv_names vv n, v)) (n, v) \<in> set (map (\<lambda>(n, v). (vv_names vv n, v)) (delta_entries ?ix))"
      unfolding set_map using that by (rule imageI)
    then have "(vv_names vv n, v) \<in> set (map (\<lambda>(i, v). (Some i, v)) es)" using mset_eq_set [OF names] by simp
    then show ?thesis by auto
  qed
  let ?hits = "entry_hits ?R ?m q None (vivy_entries ?ix)"
  have "\<forall>(i, v)\<in>set (vivy_entries ?ix). \<not> is_nan (compute ?m q v)"
    using named nan unfolding en by blast
  from vivy_collect_exact [OF R wf holds_small [OF h n] this, of "k * 3 + 10" None]
  obtain raw where raw: "vivy_collect ?R q (k * 3 + 10) None ?ix = Ok raw" and near: "nearest (k * 3 + 10) ?hits raw" by blast
  let ?es = "map (\<lambda>(i, v). (i, compute ?m q v)) es"
  have hits: "?hits = map (\<lambda>(n, v). (n, compute ?m q v)) (delta_entries ?ix)"
    by (simp add: entry_hits_def keep_hits_def en)
  have "mset (map (\<lambda>(o', v). (the o', compute ?m q v)) (map (\<lambda>(n, v). (vv_names vv n, v)) (delta_entries ?ix)))
      = mset (map (\<lambda>(o', v). (the o', compute ?m q v)) (map (\<lambda>(i, v). (Some i, v)) es))"
    using names by (simp only: mset_map)
  then have all: "mset (map (\<lambda>(n, d). (?f n, d)) ?hits) = mset ?es"
    unfolding hits map_map by (simp only: o_def case_prod_unfold fst_conv snd_conv option.sel)
  have sub: "\<exists>rest. mset (raw @ rest) = mset ?hits" using near by (auto simp: nearest_def)
  then obtain rest where rest: "mset (raw @ rest) = mset ?hits" by blast
  have "mset (map (?f \<circ> fst) (raw @ rest)) = mset (map fst (map (\<lambda>(n, d). (?f n, d)) ?hits))"
    using rest unfolding map_map by (simp only: mset_map o_def case_prod_unfold fst_conv)
  also have "\<dots> = mset (map fst ?es)" using all by (simp only: mset_map)
  also have "map fst ?es = map fst es" by (simp add: o_def case_prod_unfold)
  finally have e: "mset (map (?f \<circ> fst) (raw @ rest)) = mset (map fst es)" .
  have "distinct (map (?f \<circ> fst) (raw @ rest))" unfolding mset_eq_imp_distinct_iff [OF e] by (rule d)
  then have dist: "distinct ([] @ map (?f \<circ> fst) raw)" by simp
  have some: "vv_names vv n = Some (?f n)" if "(n, dst) \<in> set raw" for n dst
  proof -
    have "(n, dst) \<in> set ?hits" using that mset_eq_set [OF rest] by auto
    then obtain v where "(n, v) \<in> set (delta_entries ?ix)" by (auto simp: hits)
    then show ?thesis using named by fastforce
  qed
  have "vv_filter_hits (vv_names vv) (vv_tombs vv) k [] [] raw = take k (map (\<lambda>(n, d). (?f n, d)) raw)"
    unfolding tombs using vv_filter_all [OF some dist, where final = "[]" and limit = k] k(1) by simp
  moreover have "nearest k ?es (take k (map (\<lambda>(n, d). (?f n, d)) raw))"
    by (rule nearest_mset [OF nearest_less [OF nearest_map [OF near]] all [symmetric]]) simp
  moreover have "k * 3 + 10 < 2 ^ 64" using k(2) by simp
  ultimately show ?thesis using raw q k(2)
    by (simp add: vv_search_def vivy_search_def dims)
qed

section \<open>A rebuild that succeeds\<close>

text \<open>Vectors of the right length at comparable distances, and random numbers that give a level.\<close>

definition buildable :: "'b adapter_env \<Rightarrow> (nat \<Rightarrow> index_world) \<Rightarrow> nat \<Rightarrow> metric \<Rightarrow> f32 list list \<Rightarrow> bool" where
  "buildable A ws n m vs \<longleftrightarrow> dists_ok m vs \<and> (\<forall>k. level_ok (ae_runtime A) n m (iw_random (ws k)))"

lemma holds_insert_total:
  assumes "order_ok (ae_runtime A)" "holds (ae_runtime A) vv es" "length v = vv_dims vv"
    and "dists_ok (vv_metric vv) (map snd es @ [v])" "level_ok (ae_runtime A) (vv_dims vv) (vv_metric vv) (iw_random w)"
  shows "\<exists>vv'. vv_insert A what w n v vv = (vv', Ok ())"
proof -
  have "mset (map snd (map (\<lambda>(n, v). (vv_names vv n, v)) (delta_entries (vv_index vv)))) = mset (map snd (map (\<lambda>(i, v). (Some i, v)) es))"
    using holdsD(4) [OF assms(2)] by (simp only: mset_map)
  then have m: "mset (map snd (delta_entries (vv_index vv))) = mset (map snd es)"
    unfolding map_map by (simp only: o_def case_prod_unfold snd_conv)
  have "set (map snd (delta_entries (vv_index vv)) @ [v]) \<subseteq> set (map snd es @ [v])"
    unfolding set_append mset_eq_set [OF m] by (rule order_refl)
  then have "vivy_dists_ok (vv_metric vv) (vv_index vv) [v]"
    unfolding vivy_dists_ok_def by (intro dists_ok_subset [OF assms(4)])
  moreover have "vx_wal (vv_index vv) = None" using assms(2) by (simp only: holds_def)
  ultimately obtain ix' where "vivy_insert_with_id (ae_runtime A) (iw_random w) (iw_log w) n v (vv_index vv) = (ix', Ok ())"
    using vivy_insert_unlogged_total [OF assms(1) holdsD(1) [OF assms(2)]] assms(3,5) holdsD(2) [OF assms(2)] by metis
  then show ?thesis by (simp add: vv_insert_def)
qed

lemma holds_steps_total:
  assumes R: "order_ok (ae_runtime A)"
  shows "holds (ae_runtime A) vv es \<Longrightarrow> buildable A ws (vv_dims vv) (vv_metric vv) (map snd (es @ fitting (vv_dims vv) (map snd krs)))
    \<Longrightarrow> length es + length krs + 1 < 2 ^ 64 \<Longrightarrow> \<exists>vv'. ofold (vv_rebuild_step A ws) vv krs = Ok vv'"
proof (induction krs arbitrary: vv es)
  case Nil
  then show ?case by simp
next
  case (Cons kr krs)
  obtain k rec where kr: "kr = (k, rec)" by fastforce
  show ?case
  proof (cases "length (mr_embedding rec) = vv_dims vv")
    case False
    then have "vv_rebuild_step A ws vv kr = Ok vv" by (simp add: kr vv_rebuild_step_def)
    then show ?thesis using Cons.IH [of vv es] Cons.prems False by (simp add: kr fitting_def)
  next
    case True
    let ?i = "mr_id rec" let ?v = "mr_embedding rec"
    have b: "dists_ok (vv_metric vv) (map snd es @ [?v])" "level_ok (ae_runtime A) (vv_dims vv) (vv_metric vv) (iw_random (ws k))"
      using Cons.prems(2) True by (auto simp: buildable_def fitting_def kr elim!: dists_ok_subset)
    obtain vv0 where i: "vv_insert A ''Failed to insert during rebuild: '' (ws k) (vv_next vv) ?v vv = (vv0, Ok ())"
      using holds_insert_total [OF R Cons.prems(1) True b] by blast
    let ?vv1 = "vv0\<lparr> vv_ids := (vv_ids vv0)(?i \<mapsto> vv_next vv), vv_names := (vv_names vv0)(vv_next vv \<mapsto> ?i), vv_next := vv_next vv + 1 \<rparr>"
    have "holds (ae_runtime A) ?vv1 (es @ [(?i, ?v)])"
      using R Cons.prems(1) _ i by (rule holds_insert) (use Cons.prems(3) in simp)
    moreover have "vv_dims ?vv1 = vv_dims vv" "vv_metric ?vv1 = vv_metric vv"
      using i by (auto simp: vv_insert_def split: prod.splits)
    moreover have "vv_rebuild_step A ws vv kr = Ok ?vv1" using True i by (simp add: kr vv_rebuild_step_def Let_def)
    ultimately show ?thesis using Cons.IH [of ?vv1 "es @ [(?i, ?v)]"] Cons.prems(2,3) True
      by (simp add: kr fitting_def)
  qed
qed

lemma vv_rebuild_total:
  assumes "order_ok (ae_runtime A)" "length recs + 1 < 2 ^ 64"
    and "buildable A ws (vv_dims vv) (vv_metric vv) (map snd (fitting (vv_dims vv) recs))"
  shows "\<exists>vv'. vv_rebuild A ws recs vv = (vv', Ok ())"
proof -
  let ?v0 = "\<lparr> vv_dims = vv_dims vv, vv_metric = vv_metric vv,
     vv_index = \<lparr> vx_dims = vv_dims vv, vx_shards = map (\<lambda>_. hnsw_new (ae_runtime A) (vv_dims vv) (vv_metric vv)) [0..<num_shards],
         vx_sealed = [], vx_filter = filter_new, vx_wal = None, vx_next_id = 1, vx_dir = None \<rparr>,
     vv_ids = (\<lambda>_. None), vv_names = (\<lambda>_. None), vv_tombs = (\<lambda>_. None), vv_next = 1 \<rparr>"
  have "\<exists>vv'. ofold (vv_rebuild_step A ws) ?v0 (zip [0..<length recs] recs) = Ok vv'"
    by (rule holds_steps_total [OF assms(1) holds_new]) (use assms(2,3) in \<open>simp_all add: map_snd_zip\<close>)
  then show ?thesis by (auto simp: vv_rebuild_def vivy_new_memory)
qed

section \<open>Indexes that search exactly\<close>

text \<open>
  The contract of an index whose searches are exact while it holds few vectors. \<open>content ix es\<close>: the
  index holds the entries \<open>es\<close>; \<open>dist\<close> is its distance, \<open>few\<close> how many entries are few, and \<open>lawful\<close> what is
  relied on of the libraries below it.
\<close>

locale exact_index = vector_index ops inv ids dims room
  for ops :: "('ix, 'j) index_ops" and inv ids dims room +
  fixes content :: "'ix \<Rightarrow> (string \<times> f32 list) list \<Rightarrow> bool" and dist :: "'ix \<Rightarrow> f32 list \<Rightarrow> f32 list \<Rightarrow> f32"
    and few :: nat and lawful :: bool
  assumes rebuild_content: "io_rebuild ops ws recs ix = (ix', Ok ()) \<Longrightarrow> lawful \<Longrightarrow> length recs < 2 ^ 64 - 1 \<Longrightarrow>
      distinct (map fst (fitting (dims ix') recs)) \<Longrightarrow> content ix' (fitting (dims ix') recs)"
    and search_content: "content ix es \<Longrightarrow> lawful \<Longrightarrow> distinct (map fst es) \<Longrightarrow> length es \<le> few \<Longrightarrow> length q = dims ix \<Longrightarrow>
      0 < k \<Longrightarrow> k * 32 < 2 ^ 63 \<Longrightarrow> \<forall>(i, v)\<in>set es. \<not> is_nan (dist ix q v) \<Longrightarrow>
      \<exists>hits. io_search ops q k ix = Ok hits \<and> nearest k (map (\<lambda>(i, v). (i, dist ix q v)) es) hits"

interpretation ev: exact_index "vivy_ops A :: ('b vivy_vector_index, 'j) index_ops" vv_inv vv_live vv_dims vv_room
    "holds (ae_runtime A)" "\<lambda>vv. compute (vv_metric vv)" 33 "order_ok (ae_runtime A)"
  for A :: "'b adapter_env"
proof (unfold_locales, goal_cases)
  case (1 ws recs ix ix')
  then show ?case using vv_rebuild_holds [of A ws recs ix ix'] by (simp add: vivy_ops_def)
next
  case (2 ix es q k)
  then show ?case using holds_search_exact [of A ix es q k] by (simp add: vivy_ops_def)
qed

text \<open>The test double sorts all it holds, so that no number of entries is too large for it.\<close>

definition ti_content :: "test_index \<Rightarrow> (string \<times> f32 list) list \<Rightarrow> bool" where
  "ti_content ti es \<longleftrightarrow> mset (ti_vectors ti) = mset es"

lemma ti_rebuild_content:
  "distinct (map fst m @ map mr_id recs) \<Longrightarrow>
    foldl (\<lambda>m r. AList.update (mr_id r) (mr_embedding r) m) m recs = m @ map (\<lambda>r. (mr_id r, mr_embedding r)) recs"
proof (induction recs arbitrary: m)
  case (Cons r recs)
  then have "AList.update (mr_id r) (mr_embedding r) m = m @ [(mr_id r, mr_embedding r)]"
    by (intro update_fresh) auto
  then show ?case using Cons.IH [of "m @ [(mr_id r, mr_embedding r)]"] Cons.prems by auto
qed simp

lemma sort_key_ok: "sort_ok (sort_key (\<lambda>h. f_key (snd h)))"
  by (simp add: sort_ok_def)

lemma ti_search_exact:
  assumes "ti_content ti es" "length q = ti_dims ti" "\<forall>(i, v)\<in>set es. \<not> is_nan (cosine q v)"
  shows "\<exists>hits. ti_search id q k ti = Ok hits \<and> nearest k (map (\<lambda>(i, v). (i, cosine q v)) es) hits"
proof -
  let ?f = "\<lambda>(i, v). (i, cosine q v)" let ?srt = "sort_key (\<lambda>h. f_key (snd h))"
  have s: "sort_by_dist ?srt (map ?f (ti_vectors ti)) = (Ok (?srt (map ?f (ti_vectors ti))) :: (memory_error, _) outcome)"
    using assms(3) mset_eq_set [OF assms(1) [unfolded ti_content_def]] by (auto simp: sort_by_dist_def list_ex_iff)
  have "nearest k (map ?f (ti_vectors ti)) (take k (?srt (map ?f (ti_vectors ti))))"
    by (rule nearest_take [OF sort_by_dist_Ok(1) [OF sort_key_ok s] of_key_sorted [OF sort_key_ok s]])
  then have "nearest k (map ?f es) (take k (?srt (map ?f (ti_vectors ti))))"
    by (rule nearest_mset) (use assms(1) in \<open>simp add: ti_content_def\<close>)
  then show ?thesis using s assms(2) by (simp add: ti_search_def)
qed

interpretation et: exact_index "test_ops id :: (test_index, 'j) index_ops" ti_inv ti_live ti_dims ti_room
    ti_content "\<lambda>_. cosine" n True
  for n :: nat
proof (unfold_locales, goal_cases)
  case (1 ws recs ix ix')
  then show ?case using ti_rebuild_content [of "[]" "filter (\<lambda>r. length (mr_embedding r) = ti_dims ix) recs"]
    by (auto simp: test_ops_def ti_rebuild_def ti_content_def fitting_def o_def)
next
  case (2 ix es q k)
  then show ?case using ti_search_exact [of ix es q k] by (simp add: test_ops_def)
qed

end
