(* ===== verification/Journal_Recovery.thy ===== *)
theory Journal_Recovery
  imports Journal_Facts Adapter_Search
begin

text \<open>
  Startup recovery: whatever the crash left, the database is settled and the index agrees with it.
  The lemmas hold for every index with the contract of \<open>vector_index\<close>; the properties are stated for
  the Vivy-backed index.
\<close>

section \<open>What recovery restores\<close>

text \<open>The journal rows that are pending, the memories they write, and the ids of the active memories
  whose embedding fits the index.\<close>

definition pending :: "database \<Rightarrow> (string \<times> string \<times> string) set" where
  "pending db = (\<lambda>o'. (o_id o', o_memory o', o_kind o')) ` {o' \<in> set (db_ops db). o_state o' = ''pending''}"

definition pending_writes :: "database \<Rightarrow> string set" where
  "pending_writes db = {o_memory o' | o'. o' \<in> set (db_ops db) \<and> o_state o' = ''pending'' \<and> o_kind o' \<in> write_kinds}"

definition searchable :: "nat \<Rightarrow> database \<Rightarrow> string set" where
  "searchable n db = r_id ` {r \<in> set (db_memories db). r_status r = ''active'' \<and> length (bytes_to_embedding (r_embedding r)) = n}"

text \<open>A pending operation that a replay cannot settle: of an unknown kind, or the write of a memory
  that is gone.\<close>

definition unsettled :: "database \<Rightarrow> op_row \<Rightarrow> bool" where
  "unsettled db o' \<longleftrightarrow> o_kind o' \<noteq> ''delete'' \<and> (o_kind o' \<in> write_kinds \<longrightarrow> o_memory o' \<notin> r_id ` set (db_memories db))"

lemma journaled_pending: "journaled (pending db) = pending_writes db"
  by (force simp: journaled_def pending_def pending_writes_def)

lemma db_effect_pending:
  assumes "db_effect A (settled (r_id ` set (db_memories db)) (pending db)) db d"
    and "o' \<in> set (db_ops d)" "o_state o' = ''pending''"
  shows "o' \<in> set (db_ops db) \<and> unsettled db o'"
proof -
  let ?H = "settled (r_id ` set (db_memories db)) (pending db)"
  have "list_all2 (op_applied ?H) (db_ops db) (db_ops d)" using assms(1) by (simp add: db_effect_def)
  then obtain o1 where o1: "o1 \<in> set (db_ops db)" "op_applied ?H o1 o'"
    using assms(2) unfolding list_all2_conv_all_nth by (metis in_set_conv_nth)
  then have same: "o' = o1" "o_id o1 \<notin> ?H" using assms(3) by (auto simp: op_applied_def split: if_splits)
  have "(o_id o', o_memory o', o_kind o') \<in> pending db" using o1(1) same(1) assms(3) by (auto simp: pending_def)
  then have "unsettled db o'" using same by (auto simp: unsettled_def settled_def)
  then show ?thesis using o1(1) same(1) by simp
qed

lemma keeps_index_db: "keeps (\<lambda>st. P (jn_index st)) (on_db f)"
  by (simp add: keeps_def on_db_def split: prod.split)

lemma keeps_index_op: "(\<And>ix ix' res. P ix \<Longrightarrow> f ix = (ix', res) \<Longrightarrow> P ix') \<Longrightarrow> keeps (\<lambda>st. P (jn_index st)) (on_index f)"
  by (rule keepsI) (auto simp: on_index_def split: prod.splits)

context vector_index
begin

lemma keeps_dims_recover_op: "keeps (\<lambda>st. dims (jn_index st) = k) (recover_op E ops jf w now p)"
proof -
  have i: "keeps (\<lambda>st. dims (jn_index st) = k) (on_index (io_upsert ops w' i v))"
    "keeps (\<lambda>st. dims (jn_index st) = k) (on_index (io_remove ops i))" for w' i v
    by (rule keeps_index_op, use upsert_only remove in blast)+
  note d = keeps_index_db [of "\<lambda>ix. dims ix = k"]
  have r: "keeps (\<lambda>st. dims (jn_index st) = k) (recover_record E ops jf w rec)" for rec
    unfolding recover_record_def by (intro keeps_rules i d)
  obtain op mem kind where "p = (op, mem, kind)" by (cases p) auto
  then show ?thesis unfolding recover_op_def by (simp only: prod.case) (intro keeps_rules i d r)
qed

lemma recovery:
  assumes run: "recover_startup E ops rp st = (st', Ok n)" and E: "env_ok E" and inv0: "db_inv (jn_db st)"
    and len: "length (db_memories (jn_db st)) < 2 ^ 64 - 1"
  shows "db_inv (jn_db st')" "inv (jn_index st')" "dims (jn_index st') = dims (jn_index st)"
    "db_effect (pending_writes (jn_db st)) (settled (r_id ` set (db_memories (jn_db st))) (pending (jn_db st))) (jn_db st) (jn_db st')"
    "ids (jn_index st') = searchable (dims (jn_index st)) (jn_db st')"
proof -
  obtain pend st1 recs ix where p: "repo_pending_ops E (rp_pending rp) (jn_db st) = Ok pend"
    and r: "recover_ops E ops (rp_ops rp) (rp_op_worlds rp) (rp_clock rp) pend 0 st = (st1, Ok n)"
    and a: "repo_active_records E (rp_active rp) (jn_db st1) = Ok recs"
    and b: "io_rebuild ops (rp_worlds rp) recs (jn_index st1) = (ix, Ok ())" and st': "st' = st1\<lparr> jn_index := ix \<rparr>"
    using run by (rule recover_startup_Ok)
  have set_pend: "set pend = pending (jn_db st)" unfolding pending_def by (rule pending_ops_set [OF p E])
  from recover_ops_effect [OF r E inv0] have inv1: "db_inv (jn_db st1)"
    and e1: "db_effect (pending_writes (jn_db st)) (settled (r_id ` set (db_memories (jn_db st))) (pending (jn_db st))) (jn_db st) (jn_db st1)"
    by (simp_all only: set_pend journaled_pending)
  then show "db_inv (jn_db st')"
    "db_effect (pending_writes (jn_db st)) (settled (r_id ` set (db_memories (jn_db st))) (pending (jn_db st))) (jn_db st) (jn_db st')"
    by (simp_all add: st')
  have d1: "dims (jn_index st1) = dims (jn_index st)"
    by (rule keepsD [OF keeps_recover_ops [OF keeps_dims_recover_op] r refl])
  have "length (db_memories (jn_db st1)) = length (db_memories (jn_db st))" using e1 by (simp add: db_effect_def)
  then have "length recs < 2 ^ 64 - 1" using active_records_facts(2) [OF a E inv1] len by (simp only: le_less_trans)
  from rebuild_Ok [OF b this] have i: "inv ix" "ids ix = mr_id ` {r \<in> set recs. length (mr_embedding r) = dims (jn_index st1)}"
    "dims ix = dims (jn_index st1)" by simp_all
  then show "inv (jn_index st')" "dims (jn_index st') = dims (jn_index st)" by (simp_all add: st' d1)
  have "mr_id ` {r \<in> set recs. length (mr_embedding r) = k}
      = fst ` {x \<in> (\<lambda>rec. (mr_id rec, mr_embedding rec)) ` set recs. length (snd x) = k}" for k by force
  also have "\<dots> k = searchable k (jn_db st1)" for k
    unfolding active_records_facts(1) [OF a E inv1] searchable_def by force
  finally show "ids (jn_index st') = searchable (dims (jn_index st)) (jn_db st')" using i(2) by (simp add: st' d1)
qed

end

section \<open>A remember that is cut short\<close>

text \<open>The statements after the insertion activate the memory and then settle the operation.\<close>

lemma finish_remember_effect:
  assumes run: "finish_remember E ops jf w now rec (Some op) st = (st', res)"
    and pend: "\<And>r. r \<in> set (db_memories (jn_db st)) \<Longrightarrow> r_id r = mr_id rec \<Longrightarrow> r_status r = ''pending''"
  shows "\<exists>A H. A \<subseteq> {mr_id rec} \<and> H \<subseteq> {op} \<and> (H = {} \<or> A = {mr_id rec}) \<and> db_effect A H (jn_db st) (jn_db st')"
proof -
  let ?goal = "\<lambda>d. \<exists>A H. A \<subseteq> {mr_id rec} \<and> H \<subseteq> {op} \<and> (H = {} \<or> A = {mr_id rec}) \<and> db_effect A H (jn_db st) d"
  have zero: "?goal (jn_db st)" using db_effect_refl by blast
  have one: "?goal d" if "db_effect {mr_id rec} {} (jn_db st) d" for d using that by blast
  have two: "?goal d" if "db_effect {mr_id rec} {op} (jn_db st) d" for d using that by blast
  let ?index = "on_index (io_upsert ops w (mr_id rec) (mr_embedding rec))"
  let ?set = "on_db (repo_set_status E (jf 2) (mr_id rec) StActive)"
  let ?mark = "on_db (repo_mark_applied E (jf 3) op now)"
  obtain st2 r2 where 2: "?index st = (st2, r2)" by fastforce
  note db2 = on_index_db [OF 2]
  obtain st3 r3 where 3: "?set st2 = (st3, r3)" by fastforce
  obtain st4 r4 where 4: "?mark st3 = (st4, r4)" by fastforce
  have db3: "if r3 = Ok () then db_effect {mr_id rec} {} (jn_db st) (jn_db st3) else jn_db st3 = jn_db st"
    using 3 set_active_effect [of E "jf 2" "mr_id rec" "jn_db st" "jn_db st3" "()"] pend repo_failed(4) [of r3 E "jf 2" "mr_id rec" StActive "jn_db st"]
    by (cases r3) (auto simp: on_db_def db2 split: prod.splits)
  have db4: "if r4 = Ok () then db_effect {} {op} (jn_db st3) (jn_db st4) else jn_db st4 = jn_db st3"
    using 4 mark_effect [of E "jf 3" op now "jn_db st3" "jn_db st4" "()"] repo_failed(5) [of r4 E "jf 3" op now "jn_db st3"]
    by (cases r4) (auto simp: on_db_def split: prod.splits)
  have st': "st' = (if r2 \<noteq> Ok () then st2 else if r3 \<noteq> Ok () then st3 else st4)"
    using run 2 3 4 by (cases r2; cases r3; cases r4) (simp_all add: finish_remember_def)
  show ?thesis
  proof (cases "r2 = Ok () \<and> r3 = Ok ()")
    case False
    then show ?thesis using st' db2 db3 zero by auto
  next
    case True
    then have e3: "db_effect {mr_id rec} {} (jn_db st) (jn_db st3)" using db3 by simp
    show ?thesis
    proof (cases "r4 = Ok ()")
      case True
      then have "db_effect {mr_id rec} {op} (jn_db st) (jn_db st4)" using db_effect_trans [OF e3] db4 by force
      then show ?thesis using st' \<open>r2 = Ok () \<and> r3 = Ok ()\<close> two by simp
    next
      case False
      then show ?thesis using st' \<open>r2 = Ok () \<and> r3 = Ok ()\<close> db4 e3 one by simp
    qed
  qed
qed

text \<open>A remember with a fresh operation id either leaves the database as it was or has put the row and
  the operation in it, and the statements after that did some of their work.\<close>

lemma remember_cases:
  assumes run: "coordinate_remember E ops jf w now rec (Some op) st = (st', res)"
    and fresh: "op \<notin> o_id ` set (db_ops (jn_db st))" "mr_status rec = StPending"
  obtains "jn_db st' = jn_db st" "\<And>x. res \<noteq> Ok x"
  | d A H where "db_memories d = db_memories (jn_db st) @ [row_of_record E rec]"
      "db_ops d = db_ops (jn_db st) @ [op_row_of op (mr_id rec) ''remember'' (payload_of E rec) ''pending'' now None]"
      "mr_id rec \<notin> r_id ` set (db_memories (jn_db st))"
      "A \<subseteq> {mr_id rec}" "H \<subseteq> {op}" "H = {} \<or> A = {mr_id rec}" "db_effect A H d (jn_db st')"
proof -
  have none: "find (\<lambda>o'. o_id o' = op) (db_ops (jn_db st)) = None" using fresh(1) by (auto simp: find_None_iff)
  consider e where "repo_memory_of_op E (jf 0) op (jn_db st) = Err e" | "repo_memory_of_op E (jf 0) op (jn_db st) = Ok None"
    by (cases "repo_memory_of_op E (jf 0) op (jn_db st)") (auto simp: repo_memory_of_op_def none sql_def split: option.splits)
  then show thesis
  proof cases
    case 1
    then show thesis using run that(1) by (auto simp: coordinate_remember_def ask_def)
  next
    case 2
    obtain d r where ins: "repo_insert_pending E (jf 1) rec (Some op) now (jn_db st) = (d, r)" by fastforce
    show thesis
    proof (cases r rule: no_Ok_cases)
      case (1 u)
      from ins 1 have "repo_insert_pending E (jf 1) rec (Some op) now (jn_db st) = (d, Ok u)" by simp
      then obtain d1 where d1: "insert_row (row_of_record E rec) (jn_db st) = Some d1"
        and d: "op_added (\<lambda>i. op_row_of i (mr_id rec) ''remember'' (payload_of E rec) ''pending'' now None) (Some op) d1 d"
        by (rule repo_insert_Ok)
      have rows: "db_memories d = db_memories (jn_db st) @ [row_of_record E rec]"
        and new: "mr_id rec \<notin> r_id ` set (db_memories (jn_db st))"
        and ops: "db_ops d = db_ops (jn_db st) @ [op_row_of op (mr_id rec) ''remember'' (payload_of E rec) ''pending'' now None]"
        using d1 op_added_frame [OF d] by (auto simp: insert_row_def row_of_record_def split: if_splits)
      have fin: "finish_remember E ops jf w now rec (Some op) (st\<lparr> jn_db := d \<rparr>) = (st', res)"
        using run 2 ins 1 by (simp add: coordinate_remember_def ask_def on_db_def)
      have "\<And>r. r \<in> set (db_memories (jn_db (st\<lparr> jn_db := d \<rparr>))) \<Longrightarrow> r_id r = mr_id rec \<Longrightarrow> r_status r = ''pending''"
        using new fresh(2) by (force simp: rows row_of_record_def)
      from finish_remember_effect [OF fin this] show thesis using that(2) [OF rows ops new] by auto
    next
      case 2
      then have "d = jn_db st" using repo_failed(1) [OF _ ins] by blast
      then show thesis using run \<open>repo_memory_of_op E (jf 0) op (jn_db st) = Ok None\<close> ins 2 that(1)
        by (cases r) (auto simp: coordinate_remember_def ask_def on_db_def)
    qed
  qed
qed

text \<open>The row of a memory that is active, and an operation that is applied, stay so in a replay.\<close>

lemma db_effect_row:
  "db_effect A H db d \<Longrightarrow> r \<in> set (db_memories db) \<Longrightarrow> activated A r \<in> set (db_memories d)"
  by (simp add: db_effect_def)

lemma db_effect_op:
  assumes "db_effect A H db d" "o1 \<in> set (db_ops db)"
  obtains o2 where "o2 \<in> set (db_ops d)" "op_applied H o1 o2"
  using assms unfolding db_effect_def list_all2_conv_all_nth by (metis in_set_conv_nth)

definition made_active :: "'j store_env \<Rightarrow> 'j memory_record \<Rightarrow> memory_row" where
  "made_active E rec = (row_of_record E rec)\<lparr> r_status := ''active'' \<rparr>"

lemma remember_recovered:
  assumes "db_effect A H d db1" "A \<subseteq> {mr_id rec}" "H \<subseteq> {op}" "H = {} \<or> A = {mr_id rec}" "mr_status rec = StPending"
    and rows: "row_of_record E rec \<in> set (db_memories d)"
    and ops: "op_row_of op (mr_id rec) ''remember'' p ''pending'' now None \<in> set (db_ops d)"
    and rec: "db_effect (pending_writes db1) (settled (r_id ` set (db_memories db1)) (pending db1)) db1 db2"
  shows "made_active E rec \<in> set (db_memories db2)
    \<and> (\<exists>o'\<in>set (db_ops db2). o_id o' = op \<and> o_memory o' = mr_id rec \<and> o_state o' = ''applied'')"
proof -
  let ?r = "row_of_record E rec"
  have id: "r_id ?r = mr_id rec" "r_status ?r = ''pending''" using assms(5) by (simp_all add: row_of_record_def)
  have r1: "activated A ?r \<in> set (db_memories db1)" by (rule db_effect_row [OF assms(1) rows])
  then have i1: "mr_id rec \<in> r_id ` set (db_memories db1)" using id by force
  obtain o1 where o1: "o1 \<in> set (db_ops db1)"
    and a1: "op_applied H (op_row_of op (mr_id rec) ''remember'' p ''pending'' now None) o1"
    by (rule db_effect_op [OF assms(1) ops])
  have r2: "activated (pending_writes db1) (activated A ?r) \<in> set (db_memories db2)" by (rule db_effect_row [OF rec r1])
  obtain o2 where o2: "o2 \<in> set (db_ops db2)" and a2: "op_applied (settled (r_id ` set (db_memories db1)) (pending db1)) o1 o2"
    by (rule db_effect_op [OF rec o1])
  have o1': "o_id o1 = op" "o_memory o1 = mr_id rec" "o_kind o1 = ''remember''"
    "o_state o1 = (if H = {} then ''pending'' else ''applied'')"
    using a1 assms(3) by (auto simp: op_applied_def op_row_of_def split: if_splits)
  show ?thesis
  proof (cases "H = {}")
    case True
    then have p: "(op, mr_id rec, ''remember'') \<in> pending db1" using o1 o1' by (force simp: pending_def)
    then have "mr_id rec \<in> pending_writes db1" "op \<in> settled (r_id ` set (db_memories db1)) (pending db1)"
      using i1 unfolding journaled_pending [symmetric] by (auto simp: journaled_def settled_def write_kinds_def)
    then have "activated (pending_writes db1) (activated A ?r) = made_active E rec" "o_state o2 = ''applied''"
      "o_id o2 = op" "o_memory o2 = mr_id rec"
      using a2 o1' id by (auto simp: op_applied_def made_active_def activated_def)
    then show ?thesis using r2 o2 by auto
  next
    case False
    then have "activated (pending_writes db1) (activated A ?r) = made_active E rec"
      using assms(4) id by (auto simp: made_active_def activated_def)
    moreover have "o_state o2 = ''applied''" "o_id o2 = op" "o_memory o2 = mr_id rec"
      using a2 o1' False by (auto simp: op_applied_def split: if_splits)
    ultimately show ?thesis using r2 o2 by auto
  qed
qed

lemma searchable_made_active:
  "made_active E rec \<in> set (db_memories db) \<Longrightarrow> length (mr_embedding rec) = n \<Longrightarrow> mr_id rec \<in> searchable n db"
  unfolding searchable_def
  by (rule image_eqI [of _ _ "made_active E rec"])
    (simp_all add: made_active_def row_of_record_def bytes_to_embedding_def)

context vector_index
begin

lemma remember_crash:
  assumes run: "coordinate_remember E ops jf w now rec (Some op) st = (st1, res)"
    and fresh: "op \<notin> o_id ` set (db_ops (jn_db st))" "mr_status rec = StPending" "scope_wf (mr_scope rec)"
    and E: "env_ok E" and inv0: "db_inv (jn_db st)" and len: "length (db_memories (jn_db st)) < 2 ^ 64 - 2"
    and rec: "recover_startup E ops rp \<lparr> jn_db = jn_db st1, jn_index = ix \<rparr> = (st2, Ok n)"
  shows "jn_db st1 = jn_db st \<and> (\<forall>x. res \<noteq> Ok x)
    \<or> made_active E rec \<in> set (db_memories (jn_db st2))
      \<and> (\<exists>o'\<in>set (db_ops (jn_db st2)). o_id o' = op \<and> o_memory o' = mr_id rec \<and> o_state o' = ''applied'')
      \<and> (length (mr_embedding rec) = dims ix \<longrightarrow> mr_id rec \<in> ids (jn_index st2))"
  using run fresh(1,2)
proof (cases rule: remember_cases)
  case 1
  then show ?thesis by simp
next
  case (2 d A H)
  have inv1: "db_inv (jn_db st1)" by (rule keepsD [OF keeps_inv_remember [OF fresh(3)] run inv0])
  have "length (db_memories (jn_db st1)) = Suc (length (db_memories (jn_db st)))"
    using 2(1,7) by (simp add: db_effect_def)
  then have "length (db_memories (jn_db st1)) < 2 ^ 64 - 1" using len by simp
  note r = recovery [OF rec E, simplified, OF inv1 this [simplified]]
  have act: "made_active E rec \<in> set (db_memories (jn_db st2))
    \<and> (\<exists>o'\<in>set (db_ops (jn_db st2)). o_id o' = op \<and> o_memory o' = mr_id rec \<and> o_state o' = ''applied'')"
    by (rule remember_recovered [where p = "payload_of E rec" and now = now, OF 2(7,4-6) fresh(2) _ _ r(4)]) (simp_all add: 2)
  then show ?thesis using searchable_made_active r(5) by blast
qed

end

section \<open>A concrete store\<close>

definition demo_adapter :: "u64 set adapter_env" where
  "demo_adapter = \<lparr> ae_runtime = demo_runtime, ae_vivy_text = (\<lambda>_. ''index error''), ae_wal_text = (\<lambda>_. ''log error'') \<rparr>"

definition demo_world :: index_world where
  "demo_world = \<lparr> iw_random = f_one, iw_log = \<lparr> lf_append = (\<lambda>_ _. (None, None)), lf_commit = (None, None) \<rparr>,
     iw_compaction = no_compaction_faults, iw_clock = 0, iw_mkdir = None, iw_copy = (\<lambda>_. None) \<rparr>"

definition demo_vectors :: "u64 set vivy_vector_index" where
  "demo_vectors = \<lparr> vv_dims = 1, vv_metric = L2,
     vv_index = \<lparr> vx_dims = 1, vx_shards = map (\<lambda>_. hnsw_new demo_runtime 1 L2) [0..<num_shards], vx_sealed = [],
         vx_filter = filter_new, vx_wal = None, vx_next_id = 1, vx_dir = None \<rparr>,
     vv_ids = (\<lambda>_. None), vv_names = (\<lambda>_. None), vv_tombs = (\<lambda>_. None), vv_next = 1 \<rparr>"

lemma demo_vectors_new: "vv_new demo_adapter rnd 1 L2 = Ok demo_vectors"
  by (simp add: vv_new_def vv_new_with_dir_def vivy_new_memory demo_vectors_def demo_adapter_def)

lemma demo_runtime_adapter [simp]: "ae_runtime demo_adapter = demo_runtime"
  by (simp add: demo_adapter_def)

lemma demo_buildable: "set vs \<subseteq> {[f_one], [f_two], [f_zero]} \<Longrightarrow> buildable demo_adapter (\<lambda>_. demo_world) 1 L2 vs"
  using dists_ok_subset [OF demo_dists, of vs] demo_level [of 1 L2]
  by (simp add: buildable_def level_ok_def demo_world_def)

lemma demo_upsert:
  assumes "v = [f_one] \<or> v = [f_two]"
  shows "\<exists>vv'. vv_upsert demo_adapter demo_world i v demo_vectors = (vv', Ok ()) \<and> vv_dims vv' = 1 \<and> vv_metric vv' = L2"
proof -
  let ?ix = "vv_index demo_vectors"
  have wf: "vivy_wf demo_runtime L2 ?ix" using shard_ok_new [of demo_runtime 1 L2] by (simp add: vivy_wf_def demo_vectors_def)
  have "delta_entries ?ix = []"
    by (simp add: demo_vectors_def delta_entries_def hnsw_entries_def hnsw_new_def o_def)
  then have dists: "vivy_dists_ok L2 ?ix [v]"
    using assms dists_ok_subset [OF demo_dists, of "[v]"] by (auto simp: vivy_dists_ok_def)
  have level: "level_ok demo_runtime 1 L2 f_one" using demo_level [of 1 L2] by (simp add: level_ok_def)
  have "\<exists>ix'. vivy_insert_with_id demo_runtime f_one (iw_log demo_world) 1 v ?ix = (ix', Ok ())"
    by (rule vivy_insert_unlogged_total [OF demo_order_ok wf _ _ dists])
      (use assms level in \<open>auto simp: demo_vectors_def\<close>)
  then obtain ix' where "vivy_insert_with_id demo_runtime f_one (iw_log demo_world) 1 v ?ix = (ix', Ok ())" by blast
  then show ?thesis
    using assms by (auto simp: vv_upsert_def vv_number_def vv_insert_def vv_clear_tomb_def demo_vectors_def demo_world_def Let_def)
qed

end
