(* ===== verification/Journal_Safety.thy ===== *)
theory Journal_Safety
  imports Journal_Recovery
begin

text \<open>
  Properties of the coordinator: recovery after a crash, retries, deletions that stay, exact search
  after startup, and an isolation failure of deletion.
\<close>

section \<open>A crash and its recovery, run on the model\<close>

text \<open>The crash: every statement of the third database call fails.\<close>

definition demo_cut :: call_faults where
  "demo_cut = (\<lambda>n. if n = 2 then (\<lambda>_. Some ''disk I/O error'') else no_faults)"

definition demo_plan :: recovery_plan where
  "demo_plan = \<lparr> rp_pending = no_faults, rp_ops = (\<lambda>_ _. no_faults), rp_op_worlds = (\<lambda>_. demo_world),
     rp_clock = (\<lambda>_. 9), rp_active = no_faults, rp_worlds = (\<lambda>_. demo_world) \<rparr>"

abbreviation demo_ops :: "(u64 set vivy_vector_index, string) index_ops" where
  "demo_ops \<equiv> vivy_ops demo_adapter"

abbreviation demo_rec :: "string memory_record" where
  "demo_rec \<equiv> demo_record ''a'' [f_one]"

lemma demo_not_nan: "\<not> is_nan f_one"
  by (simp add: finite_not_nan)

lemma demo_crash:
  "\<exists>st1 e. coordinate_remember demo_env demo_ops demo_cut demo_world 5 demo_rec (Some ''op'')
     \<lparr> jn_db = demo_db, jn_index = demo_vectors \<rparr> = (st1, Err e) \<and> jn_db st1 = demo_crashed"
proof -
  obtain vv' where "vv_upsert demo_adapter demo_world ''a'' [f_one] demo_vectors = (vv', Ok ())"
    using demo_upsert [of "[f_one]" "''a''"] by blast
  then show ?thesis
    by (simp add: coordinate_remember_def finish_remember_def ask_def on_db_def on_index_def vivy_ops_def demo_cut_def
        repo_memory_of_op_def repo_insert_pending_def repo_set_status_def transact_def sql_def no_faults_def
        insert_row_def insert_op_def demo_db_def demo_crashed_def fts_insert_def row_of_record_def demo_record_def payload_of_def
        json_or_empty_def demo_env_def demo_not_nan)
qed

lemma demo_read: "record_of_row demo_env d (row_of_record demo_env (demo_rec\<lparr> mr_status := s \<rparr>)) = Ok (demo_rec\<lparr> mr_status := s \<rparr>)"
proof -
  have "record_ok (demo_rec\<lparr> mr_status := s \<rparr>)"
    using demo_record_ok [of "[f_one]" "''a''"] by (simp add: record_ok_def)
  from record_roundtrip [OF this] have "record_of_row demo_env d (row_of_record demo_env (demo_rec\<lparr> mr_status := s \<rparr>))
      = Ok (reread demo_env (demo_rec\<lparr> mr_status := s \<rparr>))" .
  moreover have "reread demo_env (demo_rec\<lparr> mr_status := s \<rparr>) = demo_rec\<lparr> mr_status := s \<rparr>"
    by (rule demo_reread) (simp_all add: demo_record_def)
  ultimately show ?thesis by (simp only:)
qed

lemma row_status_record: "row_of_record E (rec\<lparr> mr_status := s \<rparr>) = (row_of_record E rec)\<lparr> r_status := status_str s \<rparr>"
  by (simp add: row_of_record_def)

lemma fts_of_status [simp]: "fts_of (r\<lparr> r_status := s \<rparr>) = fts_of r"
  by (simp add: fts_of_def)

lemma demo_status: "demo_rec\<lparr> mr_status := StPending \<rparr> = demo_rec"
  by (simp add: demo_record_def)

lemma demo_fields: "mr_id demo_rec = ''a''" "mr_embedding demo_rec = [f_one]" "mr_status demo_rec = StPending"
  "r_id (row_of_record demo_env demo_rec) = ''a''" "r_status (row_of_record demo_env demo_rec) = ''pending''"
  by (simp_all add: demo_record_def row_of_record_def)

lemma demo_scan: "ev_scan demo_env rs = rs" "ev_scan_ops demo_env os = os"
  by (simp_all add: demo_env_def)

lemma demo_rebuild:
  assumes "vv_dims vv = 1" "vv_metric vv = L2"
  shows "\<exists>vv'. vv_rebuild demo_adapter (\<lambda>_. demo_world) [demo_rec\<lparr> mr_status := StActive \<rparr>] vv = (vv', Ok ())
    \<and> vv_dims vv' = 1 \<and> vv_metric vv' = L2"
proof -
  let ?recs = "[demo_rec\<lparr> mr_status := StActive \<rparr>]"
  have "order_ok (ae_runtime demo_adapter)" by (simp add: demo_order_ok)
  moreover from this obtain vv' where "vv_rebuild demo_adapter (\<lambda>_. demo_world) ?recs vv = (vv', Ok ())"
    using vv_rebuild_total [of demo_adapter ?recs "\<lambda>_. demo_world" vv] demo_buildable [of "[[f_one]]"] assms
    by (auto simp: fitting_def demo_record_def)
  ultimately show ?thesis using vv_rebuild_holds [of demo_adapter "\<lambda>_. demo_world" ?recs vv vv'] assms by simp
qed

lemma demo_replay:
  "\<exists>st1. recover_op demo_env demo_ops (\<lambda>_. no_faults) demo_world 9 (''op'', ''a'', ''remember'')
      \<lparr> jn_db = demo_crashed, jn_index = demo_vectors \<rparr> = (st1, Ok 1)
    \<and> jn_db st1 = demo_db\<lparr> db_memories := [row_of_record demo_env (demo_rec\<lparr> mr_status := StActive \<rparr>)],
        db_fts := [fts_of demo_row], db_ops := [op_row_of ''op'' ''a'' ''remember'' ''{}'' ''applied'' 5 (Some 9)] \<rparr>
    \<and> vv_dims (jn_index st1) = 1 \<and> vv_metric (jn_index st1) = L2"
proof -
  obtain vv' where up: "vv_upsert demo_adapter demo_world ''a'' [f_one] demo_vectors = (vv', Ok ())" "vv_dims vv' = 1" "vv_metric vv' = L2"
    using demo_upsert [of "[f_one]" "''a''"] by blast
  have rd: "record_of_row demo_env StPending (row_of_record demo_env demo_rec) = Ok demo_rec"
    using demo_read [of StPending StPending] by (simp only: demo_status)
  have g: "repo_get_internal demo_env no_faults ''a'' demo_crashed = Ok (Some demo_rec)"
    by (simp add: repo_get_internal_def first_record_def demo_scan demo_crashed_def rd demo_fields)
  have u: "io_upsert demo_ops = vv_upsert demo_adapter" by (simp add: vivy_ops_def)
  show ?thesis
    by (simp add: recover_op_def recover_record_def ask_def g u up on_index_def on_db_def demo_fields)
      (simp add: repo_set_status_def repo_mark_applied_def transact_def update_rows_def update_ops_def apply_op_def
        demo_crashed_def op_row_of_def row_status_record demo_db_def demo_fields up fts_update_def fts_insert_def fts_delete_def fts_of_status)
qed

lemma demo_recovery:
  "\<exists>st2. recover_startup demo_env demo_ops demo_plan \<lparr> jn_db = demo_crashed, jn_index = demo_vectors \<rparr> = (st2, Ok 1)
    \<and> jn_db st2 = demo_db\<lparr> db_memories := [row_of_record demo_env (demo_rec\<lparr> mr_status := StActive \<rparr>)],
        db_fts := [fts_of demo_row], db_ops := [op_row_of ''op'' ''a'' ''remember'' ''{}'' ''applied'' 5 (Some 9)] \<rparr>
    \<and> vv_dims (jn_index st2) = 1 \<and> vv_metric (jn_index st2) = L2"
proof -
  obtain st1 where r: "recover_op demo_env demo_ops (\<lambda>_. no_faults) demo_world 9 (''op'', ''a'', ''remember'')
      \<lparr> jn_db = demo_crashed, jn_index = demo_vectors \<rparr> = (st1, Ok 1)"
    and db: "jn_db st1 = demo_db\<lparr> db_memories := [row_of_record demo_env (demo_rec\<lparr> mr_status := StActive \<rparr>)],
        db_fts := [fts_of demo_row], db_ops := [op_row_of ''op'' ''a'' ''remember'' ''{}'' ''applied'' 5 (Some 9)] \<rparr>"
    and vv: "vv_dims (jn_index st1) = 1" "vv_metric (jn_index st1) = L2"
    using demo_replay by blast
  have p: "repo_pending_ops demo_env no_faults demo_crashed = Ok [(''op'', ''a'', ''remember'')]"
    by (simp add: repo_pending_ops_def demo_scan demo_crashed_def op_row_of_def collect_rows_def)
  have a: "repo_active_records demo_env no_faults (jn_db st1) = Ok [demo_rec\<lparr> mr_status := StActive \<rparr>]"
    using demo_read [of StActive StActive]
    by (simp add: repo_active_records_def demo_scan db collect_rows_def row_status_record)
  obtain vv' where b: "vv_rebuild demo_adapter (\<lambda>_. demo_world) [demo_rec\<lparr> mr_status := StActive \<rparr>] (jn_index st1) = (vv', Ok ())"
    "vv_dims vv' = 1" "vv_metric vv' = L2"
    using demo_rebuild [OF vv] by blast
  have u: "io_rebuild demo_ops = vv_rebuild demo_adapter" by (simp add: vivy_ops_def)
  show ?thesis using r
    by (simp add: recover_startup_def rebuild_active_def ask_def p demo_plan_def a on_index_def u b) (simp add: db)
qed

section \<open>Crash safety\<close>

text \<open>C2: A remember with an operation id is atomic across a crash. Wherever the call stops (a failed
  statement, a failed index write, a crash between two steps, or not at all): either the database is
  as it was and the call did not succeed, or the next startup recovery makes the memory active with
  the row that was asked for, marks its operation applied, and makes the memory searchable.\<close>

theorem remember_survives_crash:
  assumes "coordinate_remember E (vivy_ops A) jf w now rec (Some op) st = (st1, res)"
    and "recover_startup E (vivy_ops A) rp \<lparr> jn_db = jn_db st1, jn_index = ix \<rparr> = (st2, Ok n)"
    and "env_ok E" "(db_step E)\<^sup>*\<^sup>* empty_db (jn_db st)" "length (db_memories (jn_db st)) < 2 ^ 64 - 2"
    and "scope_wf (mr_scope rec)" "mr_status rec = StPending" "op \<notin> o_id ` set (db_ops (jn_db st))"
  shows "jn_db st1 = jn_db st \<and> (\<forall>x. res \<noteq> Ok x)
    \<or> made_active E rec \<in> set (db_memories (jn_db st2))
      \<and> (\<exists>o'\<in>set (db_ops (jn_db st2)). o_id o' = op \<and> o_memory o' = mr_id rec \<and> o_state o' = ''applied'')
      \<and> (length (mr_embedding rec) = vv_dims ix \<longrightarrow> mr_id rec \<in> vv_live (jn_index st2))"
  by (rule vv.remember_crash [OF assms(1,8,7,6,3) reachable_inv [OF assms(4) empty_db_inv] assms(5,2)])

theorem remember_survives_crash_witness:
  "\<exists>st1 st2 e. coordinate_remember demo_env demo_ops demo_cut demo_world 5 demo_rec (Some ''op'')
        \<lparr> jn_db = demo_db, jn_index = demo_vectors \<rparr> = (st1, Err e)
    \<and> recover_startup demo_env demo_ops demo_plan \<lparr> jn_db = jn_db st1, jn_index = demo_vectors \<rparr> = (st2, Ok 1)
    \<and> made_active demo_env demo_rec \<in> set (db_memories (jn_db st2)) \<and> ''a'' \<in> vv_live (jn_index st2)"
proof -
  obtain st1 e where 1: "coordinate_remember demo_env demo_ops demo_cut demo_world 5 demo_rec (Some ''op'')
        \<lparr> jn_db = demo_db, jn_index = demo_vectors \<rparr> = (st1, Err e)" and db: "jn_db st1 = demo_crashed"
    using demo_crash by blast
  obtain st2 where 2: "recover_startup demo_env demo_ops demo_plan \<lparr> jn_db = jn_db st1, jn_index = demo_vectors \<rparr> = (st2, Ok 1)"
    unfolding db using demo_recovery by blast
  have "jn_db st1 \<noteq> demo_db" by (simp add: db demo_crashed_def demo_db_def)
  moreover have "jn_db st1 = demo_db \<and> (\<forall>x. Err e \<noteq> (Ok x :: string mresult))
    \<or> made_active demo_env demo_rec \<in> set (db_memories (jn_db st2))
      \<and> (\<exists>o'\<in>set (db_ops (jn_db st2)). o_id o' = ''op'' \<and> o_memory o' = mr_id demo_rec \<and> o_state o' = ''applied'')
      \<and> (length (mr_embedding demo_rec) = vv_dims demo_vectors \<longrightarrow> mr_id demo_rec \<in> vv_live (jn_index st2))"
    using remember_survives_crash [OF 1 2 demo_env_ok] demo_scope_wf
    by (simp add: demo_db_reachable demo_record_def)
  ultimately show ?thesis using 1 2 by (simp add: demo_fields demo_vectors_def)
qed

text \<open>C3: Startup recovery restores agreement. From every reachable database and whatever the index
  held: recovery activates exactly the pending memories that the journal names and changes no other
  row, leaves no operation pending that a replay can settle, and the searchable ids are exactly the
  ids of the active memories whose embedding fits the index.\<close>

theorem recovery_restores_store:
  assumes "recover_startup E (vivy_ops A) rp st = (st', Ok n)" "env_ok E"
    and "(db_step E)\<^sup>*\<^sup>* empty_db (jn_db st)" "length (db_memories (jn_db st)) < 2 ^ 64 - 1"
  shows "db_memories (jn_db st') = map (activated (pending_writes (jn_db st))) (db_memories (jn_db st))
    \<and> (\<forall>o'\<in>set (db_ops (jn_db st')). o_state o' = ''pending'' \<longrightarrow> o' \<in> set (db_ops (jn_db st)) \<and> unsettled (jn_db st) o')
    \<and> vv_live (jn_index st') = searchable (vv_dims (jn_index st)) (jn_db st')"
proof -
  note r = vv.recovery [OF assms(1,2) reachable_inv [OF assms(3) empty_db_inv] assms(4)]
  then show ?thesis using db_effect_pending [OF r(4)] by (simp add: db_effect_def)
qed

theorem recovery_restores_store_witness:
  "\<exists>d st2. repo_insert_pending demo_env no_faults demo_rec (Some ''op'') 5 demo_db = (d, Ok ())
    \<and> recover_startup demo_env demo_ops demo_plan \<lparr> jn_db = d, jn_index = demo_vectors \<rparr> = (st2, Ok 1)
    \<and> vv_live (jn_index st2) = searchable 1 (jn_db st2)"
proof -
  note ins = demo_inserted
  obtain st2 where 2: "recover_startup demo_env demo_ops demo_plan \<lparr> jn_db = demo_crashed, jn_index = demo_vectors \<rparr> = (st2, Ok 1)"
    using demo_recovery by blast
  have reach: "(db_step demo_env)\<^sup>*\<^sup>* empty_db (jn_db \<lparr> jn_db = demo_crashed, jn_index = demo_vectors \<rparr>)"
    by (simp add: demo_crashed_reachable)
  have "vv_live (jn_index st2) = searchable 1 (jn_db st2)"
    using recovery_restores_store [OF 2 demo_env_ok reach] by (simp add: demo_vectors_def demo_crashed_def)
  then show ?thesis using ins 2 by blast
qed

section \<open>Retries\<close>

lemma find_op_memory:
  "list_all2 (op_applied H) xs ys \<Longrightarrow>
    map_option o_memory (find (\<lambda>o'. o_id o' = op) ys) = map_option o_memory (find (\<lambda>o'. o_id o' = op) xs)"
  by (induction rule: list_all2_induct) (auto simp: op_applied_def split: if_splits)

lemma retry_recorded:
  assumes run: "coordinate_remember E ops jf w now rec (Some op) st = (st1, res)"
    and fresh: "op \<notin> o_id ` set (db_ops (jn_db st))" "mr_status rec = StPending"
    and committed: "jn_db st1 \<noteq> jn_db st" and clean: "jf' 0 = no_faults"
  shows "coordinate_remember E ops jf' w' now' rec' (Some op) st1 = (st1, Ok (mr_id rec))"
  using run fresh
proof (cases rule: remember_cases)
  case 1
  then show ?thesis using committed by simp
next
  case (2 d A H)
  have old: "find (\<lambda>o'. o_id o' = op) (db_ops (jn_db st)) = None" using fresh(1) by (auto simp: find_None_iff)
  have "list_all2 (op_applied H) (db_ops d) (db_ops (jn_db st1))" using 2(7) by (simp add: db_effect_def)
  from find_op_memory [OF this, of op]
  have "map_option o_memory (find (\<lambda>o'. o_id o' = op) (db_ops (jn_db st1))) = Some (mr_id rec)"
    by (simp add: 2(2) find_append_option old op_row_of_def)
  then obtain o1 where "find (\<lambda>o'. o_id o' = op) (db_ops (jn_db st1)) = Some o1" "o_memory o1 = mr_id rec" by blast
  then show ?thesis by (simp add: coordinate_remember_def ask_def repo_memory_of_op_def clean)
qed

text \<open>C30: A retry is idempotent: once a remember with a fresh operation id has changed the database,
  however it ended, every later remember with that operation id, whatever record it carries, returns the
  id of the first memory and changes nothing, so an operation id never makes two memories.\<close>

theorem retry_is_idempotent:
  assumes "coordinate_remember E ops jf w now rec (Some op) st = (st1, res)"
    and "op \<notin> o_id ` set (db_ops (jn_db st))" "mr_status rec = StPending"
    and "jn_db st1 \<noteq> jn_db st" "jf' 0 = no_faults"
  shows "coordinate_remember E ops jf' w' now' rec' (Some op) st1 = (st1, Ok (mr_id rec))"
  using assms by (rule retry_recorded)

text \<open>The witness also shows what a retry does not do: it reports success while the memory is pending.\<close>

theorem retry_is_idempotent_witness:
  "\<exists>st1 e. coordinate_remember demo_env demo_ops demo_cut demo_world 5 demo_rec (Some ''op'')
        \<lparr> jn_db = demo_db, jn_index = demo_vectors \<rparr> = (st1, Err e)
    \<and> coordinate_remember demo_env demo_ops no_call_faults demo_world 6 (demo_record ''b'' [f_two]) (Some ''op'') st1 = (st1, Ok ''a'')
    \<and> map r_status (db_memories (jn_db st1)) = [''pending'']"
proof -
  obtain st1 e where 1: "coordinate_remember demo_env demo_ops demo_cut demo_world 5 demo_rec (Some ''op'')
        \<lparr> jn_db = demo_db, jn_index = demo_vectors \<rparr> = (st1, Err e)" and db: "jn_db st1 = demo_crashed"
    using demo_crash by blast
  have "jn_db st1 \<noteq> jn_db \<lparr> jn_db = demo_db, jn_index = demo_vectors \<rparr>" by (simp add: db demo_crashed_def demo_db_def)
  from retry_is_idempotent [OF 1 _ _ this, of no_call_faults demo_world 6 "demo_record ''b'' [f_two]"]
  show ?thesis using 1 by (simp add: db demo_db_def demo_fields no_call_faults_def demo_crashed_def)
qed

section \<open>Exact search after startup\<close>

text \<open>The active memories whose embedding fits the index, with their embeddings.\<close>

definition active_vectors :: "nat \<Rightarrow> database \<Rightarrow> (string \<times> f32 list) list" where
  "active_vectors n db = map (\<lambda>r. (r_id r, bytes_to_embedding (r_embedding r)))
     (filter (\<lambda>r. r_status r = ''active'' \<and> length (bytes_to_embedding (r_embedding r)) = n) (db_memories db))"

lemma fitting_active:
  assumes "repo_active_records E sf db = Ok recs" "env_ok E" "db_inv db"
  shows "mset (fitting n recs) = mset (active_vectors n db)"
proof -
  have m: "mset (ev_scan E (db_memories db)) = mset (db_memories db)" using assms(2) by (simp add: env_ok_def)
  have "fitting n recs = filter (\<lambda>(i, v). length v = n) (map (\<lambda>rec. (mr_id rec, mr_embedding rec)) recs)"
    by (simp add: fitting_def filter_map o_def)
  also have "\<dots> = map (\<lambda>r. (r_id r, bytes_to_embedding (r_embedding r)))
      (filter (\<lambda>r. r_status r = ''active'' \<and> length (bytes_to_embedding (r_embedding r)) = n) (ev_scan E (db_memories db)))"
    unfolding active_records_map [OF assms] by (simp add: filter_map o_def conj_commute)
  finally show ?thesis by (simp add: active_vectors_def m)
qed

context exact_index
begin

lemma recovered_search:
  assumes run: "recover_startup E ops rp st = (st', Ok n)" and E: "env_ok E" and inv0: "db_inv (jn_db st)"
    and len: "length (db_memories (jn_db st)) < 2 ^ 64 - 1" and lawful: lawful
    and small: "length (active_vectors (dims (jn_index st')) (jn_db st')) \<le> few"
    and q: "length q = dims (jn_index st')" and k: "0 < k" "k * 32 < 2 ^ 63"
    and nan: "\<forall>(i, v)\<in>set (active_vectors (dims (jn_index st')) (jn_db st')). \<not> is_nan (dist (jn_index st') q v)"
  shows "\<exists>hits. io_search ops q k (jn_index st') = Ok hits
    \<and> nearest k (map (\<lambda>(i, v). (i, dist (jn_index st') q v)) (active_vectors (dims (jn_index st')) (jn_db st'))) hits"
proof -
  obtain pend st1 recs ix where a: "repo_active_records E (rp_active rp) (jn_db st1) = Ok recs"
    and b: "io_rebuild ops (rp_worlds rp) recs (jn_index st1) = (ix, Ok ())" and st': "st' = st1\<lparr> jn_index := ix \<rparr>"
    using run by (rule recover_startup_Ok)
  have db: "jn_db st1 = jn_db st'" and ix: "jn_index st' = ix" by (simp_all add: st')
  note r = recovery [OF run E inv0 len]
  have inv1: "db_inv (jn_db st1)" using r(1) by (simp add: db)
  have "length (db_memories (jn_db st')) = length (db_memories (jn_db st))" using r(4) by (simp add: db_effect_def)
  then have l: "length recs < 2 ^ 64 - 1" using active_records_facts(2) [OF a E inv1] len by (simp add: db)
  let ?es = "fitting (dims ix) recs" let ?av = "active_vectors (dims ix) (jn_db st')"
  have m: "mset ?es = mset ?av" using fitting_active [OF a E inv1] by (simp add: db)
  have "distinct (map r_id (db_memories (jn_db st')))" using r(1) by (simp add: db_inv_def db_wf_def)
  then have "distinct (map fst ?av)" by (simp add: active_vectors_def o_def distinct_map_filter)
  then have d: "distinct (map fst ?es)" using m by (metis mset_eq_imp_distinct_iff mset_map)
  have "\<exists>hits. io_search ops q k ix = Ok hits \<and> nearest k (map (\<lambda>(i, v). (i, dist ix q v)) ?es) hits"
    by (rule search_content [OF rebuild_content [OF b lawful l d] lawful d])
      (use small q k nan mset_eq_len [OF m] mset_eq_set [OF m] ix in simp_all)
  moreover have "mset (map (\<lambda>(i, v). (i, dist ix q v)) ?av) = mset (map (\<lambda>(i, v). (i, dist ix q v)) ?es)"
    by (simp only: mset_map m)
  ultimately show ?thesis unfolding ix using nearest_mset by blast
qed

end

text \<open>C14: Search after startup is exact: after a recovery that succeeds, on a store of at most 33 active
  memories that fit the index, a search returns (without a panic, when no distance is a NaN) the nearest
  \<open>k\<close> of exactly the active memories of the database, by brute force over their stored embeddings,
  sorted, each with its distance.\<close>

theorem startup_search_exact:
  assumes "recover_startup E (vivy_ops A) rp st = (st', Ok n)" "env_ok E" "order_ok (ae_runtime A)"
    and "(db_step E)\<^sup>*\<^sup>* empty_db (jn_db st)" "length (db_memories (jn_db st)) < 2 ^ 64 - 1"
    and "length (active_vectors (vv_dims (jn_index st')) (jn_db st')) \<le> 33"
    and "length q = vv_dims (jn_index st')" "0 < k" "k * 32 < 2 ^ 63"
    and "\<forall>(i, v)\<in>set (active_vectors (vv_dims (jn_index st')) (jn_db st')). \<not> is_nan (compute (vv_metric (jn_index st')) q v)"
  shows "\<exists>hits. vv_search A q k (jn_index st') = Ok hits
    \<and> nearest k (map (\<lambda>(i, v). (i, compute (vv_metric (jn_index st')) q v))
        (active_vectors (vv_dims (jn_index st')) (jn_db st'))) hits"
  using ev.recovered_search [OF assms(1,2) reachable_inv [OF assms(4) empty_db_inv] assms(5,3,6-10)]
  by (simp only: vivy_ops_def index_ops.simps)

theorem startup_search_exact_witness:
  "\<exists>st2. recover_startup demo_env demo_ops demo_plan \<lparr> jn_db = demo_crashed, jn_index = demo_vectors \<rparr> = (st2, Ok 1)
    \<and> vv_search demo_adapter [f_two] 3 (jn_index st2) = Ok [(''a'', compute L2 [f_two] [f_one])]"
proof -
  obtain st2 where 2: "recover_startup demo_env demo_ops demo_plan \<lparr> jn_db = demo_crashed, jn_index = demo_vectors \<rparr> = (st2, Ok 1)"
    and db: "jn_db st2 = demo_db\<lparr> db_memories := [row_of_record demo_env (demo_rec\<lparr> mr_status := StActive \<rparr>)],
        db_fts := [fts_of demo_row], db_ops := [op_row_of ''op'' ''a'' ''remember'' ''{}'' ''applied'' 5 (Some 9)] \<rparr>"
    and vv: "vv_dims (jn_index st2) = 1" "vv_metric (jn_index st2) = L2"
    using demo_recovery by blast
  have av: "active_vectors 1 (jn_db st2) = [(''a'', [f_one])]"
    by (simp add: active_vectors_def db row_of_record_def demo_record_def bytes_to_embedding_def)
  have "\<exists>hits. vv_search demo_adapter [f_two] 3 (jn_index st2) = Ok hits
    \<and> nearest 3 (map (\<lambda>(i, v). (i, compute (vv_metric (jn_index st2)) [f_two] v))
        (active_vectors (vv_dims (jn_index st2)) (jn_db st2))) hits"
    by (rule startup_search_exact [OF 2 demo_env_ok])
      (use demo_crashed_reachable in \<open>simp_all add: vv av [simplified] demo_order_ok demo_crashed_def compute_def l2_squared_not_nan\<close>)
  then obtain hits where h: "vv_search demo_adapter [f_two] 3 (jn_index st2) = Ok hits"
    and n: "nearest 3 [(''a'', compute L2 [f_two] [f_one])] hits" by (auto simp: vv av [simplified])
  then obtain rest where "length hits = 1" "mset (hits @ rest) = mset [(''a'', compute L2 [f_two] [f_one])]"
    by (auto simp: nearest_def)
  then have "hits = [(''a'', compute L2 [f_two] [f_one])]" by (cases hits) auto
  then show ?thesis using 2 h by blast
qed

end
