(* ===== verification/Journal_Deletion.thy ===== *)
theory Journal_Deletion
  imports Journal_Safety
begin

text \<open>
  Deletion through the coordinator: the steps of a store as an inductive relation, and the proof that a
  memory that was forgotten comes back neither in the database nor in a search, whatever happens next.
\<close>

section \<open>The steps of a store\<close>

text \<open>Every operation of the coordinator, with every argument, fault and outcome, and vacuum; new
  memories get ids other than \<open>i\<close>, as the generated ids of the code do.\<close>

inductive coordinator_step ::
  "'j store_env \<Rightarrow> ('ix, 'j) index_ops \<Rightarrow> string \<Rightarrow> 'ix journal \<Rightarrow> 'ix journal \<Rightarrow> bool" for E ops i where
  remember: "coordinate_remember E ops jf w now rec op st = (st', res) \<Longrightarrow> mr_id rec \<noteq> i \<Longrightarrow> coordinator_step E ops i st st'"
| remember_batch: "coordinate_remember_batch E ops jf ws now recs oids st = (st', res') \<Longrightarrow> i \<notin> mr_id ` set recs
    \<Longrightarrow> coordinator_step E ops i st st'"
| update: "coordinate_update E ops jf w now rec expected op st = (st', res'') \<Longrightarrow> coordinator_step E ops i st st'"
| forget: "coordinate_forget E ops sf now sc j op st = (st', res'') \<Longrightarrow> coordinator_step E ops i st st'"
| forget_batch: "coordinate_forget_batch E ops sf now sc js oids st = (st', res'') \<Longrightarrow> coordinator_step E ops i st st'"
| recover: "recover_startup E ops rp st = (st', n) \<Longrightarrow> coordinator_step E ops i st st'"
| vacuum: "on_db (repo_vacuum E sf batch now) st = (st', n) \<Longrightarrow> coordinator_step E ops i st st'"

section \<open>Rows that are gone\<close>

definition gone_row :: "string \<Rightarrow> database \<Rightarrow> bool" where
  "gone_row i db \<longleftrightarrow> (\<forall>r\<in>set (db_memories db). r_id r = i \<longrightarrow> r_status r = ''deleted'')"

lemma gone_update_rows:
  "gone_row i db \<Longrightarrow> (\<And>r. r_id (f r) = r_id r) \<Longrightarrow> (\<And>r. P r \<Longrightarrow> r_id r = i \<Longrightarrow> r_status r = ''deleted'' \<Longrightarrow> r_status (f r) = ''deleted'')
    \<Longrightarrow> gone_row i (update_rows P f db)"
  by (auto simp: gone_row_def update_rows_def)

lemma gone_update_ops: "gone_row i (update_ops P f db) = gone_row i db"
  by (simp add: gone_row_def update_ops_def)

lemma gone_op_added: "op_added mk op d d' \<Longrightarrow> gone_row i d' = gone_row i d"
  by (simp add: gone_row_def op_added_frame)

lemma gone_insert_row: "insert_row r db = Some d \<Longrightarrow> r_id r \<noteq> i \<Longrightarrow> gone_row i d = gone_row i db"
  by (auto simp: insert_row_def gone_row_def split: if_splits)

lemma gone_tombstone: "gone_row i db \<Longrightarrow> gone_row i (tombstone sc j now db)"
  unfolding tombstone_def by (rule gone_update_rows) simp_all

lemma gone_transact:
  assumes "transact db m = (d, res)" "gone_row i db" "\<And>d x. m = Ok (d, x) \<Longrightarrow> gone_row i d"
  shows "gone_row i d"
  using assms(1) by (rule transact_cases) (use assms(2,3) in auto)

lemma gone_set_rows: "gone_row i db \<Longrightarrow> j \<noteq> i \<Longrightarrow> gone_row i (update_rows (\<lambda>r. r_id r = j) (\<lambda>r. r\<lparr> r_status := s \<rparr>) db)"
  by (rule gone_update_rows) simp_all

text \<open>The methods of the repository keep a deleted row deleted.\<close>

lemma gone_insert_pending:
  assumes "repo_insert_pending E sf rec op now db = (d, res)" "gone_row i db" "mr_id rec \<noteq> i"
  shows "gone_row i d"
proof (cases res rule: no_Ok_cases)
  case (1 u)
  with assms(1) have "repo_insert_pending E sf rec op now db = (d, Ok u)" by simp
  then show ?thesis
    by (rule repo_insert_Ok) (use assms(2,3) in \<open>auto simp: gone_op_added gone_insert_row row_of_record_def\<close>)
next
  case 2
  then show ?thesis using repo_failed(1) [OF 2 assms(1)] assms(2) by simp
qed

lemma gone_insert_batch:
  assumes "repo_insert_pending_batch E sf recs ops now db = (d, res)" "gone_row i db" "i \<notin> mr_id ` set recs"
  shows "gone_row i d"
proof -
  have step: "gone_row i d'" if "insert_batch_step E sf ops now d0 (n, rec) = Ok d'" "gone_row i d0" "mr_id rec \<noteq> i" for d0 n rec d'
    using that(1) by (rule insert_batch_step_Ok)
      (use that(2,3) in \<open>auto simp: gone_op_added gone_insert_row row_of_record_def\<close>)
  have "gone_row i d'" if "ofold (insert_batch_step E sf ops now) db (zip [0..<length recs] recs) = Ok d'" for d'
    using that assms(2)
  proof (rule ofold_invariant)
    fix nr d0 d1 assume nr: "nr \<in> set (zip [0..<length recs] recs)" and d0: "gone_row i d0" "insert_batch_step E sf ops now d0 nr = Ok d1"
    obtain n rec where "nr = (n, rec)" by fastforce
    moreover from this nr have "rec \<in> set recs" by (auto dest: set_zip_rightD)
    then have "mr_id rec \<noteq> i" using assms(3) by auto
    ultimately show "gone_row i d1" using step d0 by simp
  qed
  then show ?thesis using assms(1,2)
    by (auto simp: repo_insert_pending_batch_def outcome_iff split: if_splits elim!: gone_transact)
qed

lemma gone_status:
  "repo_set_status E sf j st db = (d, res) \<Longrightarrow> gone_row i db \<Longrightarrow> j \<noteq> i \<Longrightarrow> gone_row i d"
  by (auto simp: repo_set_status_def outcome_iff gone_set_rows elim!: gone_transact)

lemma gone_status_batch:
  assumes "repo_set_status_batch E sf js st db = (d, res)" "gone_row i db" "i \<notin> set js"
  shows "gone_row i d"
proof -
  have "gone_row i d'" if "ofold (\<lambda>d (n, i). sql E sf (SpExec n) ''Failed to update status in batch: ''
      (Some (update_rows (\<lambda>r. r_id r = i) (\<lambda>r. r\<lparr> r_status := status_str st \<rparr>) d)))
      db (zip [0..<length js] js) = Ok d'" for d'
    using that assms(2) by (rule ofold_invariant)
      (use assms(3) in \<open>auto simp: outcome_iff dest!: set_zip_rightD intro!: gone_set_rows\<close>)
  then show ?thesis using assms
    by (auto simp: repo_set_status_batch_def outcome_iff split: if_splits elim!: gone_transact)
qed

lemma gone_mark: "repo_mark_applied E sf op now db = (d, res) \<Longrightarrow> gone_row i db \<Longrightarrow> gone_row i d"
  by (auto simp: repo_mark_applied_def outcome_iff gone_update_ops elim!: gone_transact)

lemma gone_mark_batch:
  assumes "repo_mark_applied_batch E sf ops now db = (d, res)" "gone_row i db"
  shows "gone_row i d"
proof -
  have "gone_row i d'" if "ofold (\<lambda>d (n, op). sql E sf (SpExec n) ''Failed to mark operation applied in batch: ''
      (Some (update_ops (\<lambda>o'. o_id o' = op) (apply_op now) d))) db (zip [0..<length ops] ops) = Ok d'" for d'
    using that assms(2) by (rule ofold_invariant) (auto simp: outcome_iff gone_update_ops)
  then show ?thesis using assms
    by (auto simp: repo_mark_applied_batch_def outcome_iff split: if_splits elim!: gone_transact)
qed

text \<open>An update that succeeds is an update of another memory: a deleted one is not found.\<close>

lemma gone_update_other:
  assumes "repo_update E sf rec expected op now db = (d, Ok u)" "gone_row i db" "env_ok E"
  shows "mr_id rec \<noteq> i \<and> gone_row i d"
  using assms(1)
proof (rule repo_update_Ok)
  fix cur d1
  assume f: "find (\<lambda>r. r_id r = mr_id rec \<and> in_scope (mr_scope rec) r) (ev_scan E (db_memories db)) = Some cur"
    and live: "r_status cur \<noteq> ''deleted''"
    and d1: "d1 = update_rows (\<lambda>r. r_id r = mr_id rec \<and> r_revision r = expected) (update_row E rec expected) db"
    and d: "op_added (\<lambda>i. op_row_of i (mr_id rec) ''update'' (payload_of E rec) ''pending'' now None) op d1 d"
  have "set (ev_scan E (db_memories db)) = set (db_memories db)"
    using assms(3) by (intro mset_eq_set) (simp add: env_ok_def)
  then have "cur \<in> set (db_memories db)" "r_id cur = mr_id rec" using find_Some_set [OF f] by auto
  then have other: "mr_id rec \<noteq> i" using assms(2) live by (auto simp: gone_row_def)
  then have "gone_row i d1" unfolding d1 by (intro gone_update_rows [OF assms(2)]) (auto simp: update_row_def)
  then show ?thesis using other gone_op_added [OF d] by simp
qed

lemma gone_update:
  assumes "repo_update E sf rec expected op now db = (d, res)" "gone_row i db" "env_ok E"
  shows "gone_row i d"
proof (cases res rule: no_Ok_cases)
  case (1 u)
  then show ?thesis using gone_update_other [of E sf rec expected op now db d u i] assms by simp
next
  case 2
  then show ?thesis using repo_failed(2) [OF 2 assms(1)] assms(2) by simp
qed

lemma gone_delete:
  assumes "repo_delete E sf sc j op now db = (d, res)" "gone_row i db"
  shows "gone_row i d"
proof (cases res rule: no_Ok_cases)
  case (1 u)
  then show ?thesis using repo_delete_Ok [of E sf sc j op now db d u] assms gone_tombstone by (simp add: gone_op_added)
next
  case 2
  then show ?thesis using repo_failed(3) [OF 2 assms(1)] assms(2) by simp
qed

lemma gone_delete_batch:
  assumes "repo_delete_batch E sf sc js ops now db = (d, res)" "gone_row i db"
  shows "gone_row i d"
proof -
  have "gone_row i d'" if "ofold (delete_batch_step E sf sc ops now) db (zip [0..<length js] js) = Ok d'" for d'
    using that assms(2)
    by (rule ofold_invariant) (auto dest!: delete_batch_step_Ok simp: gone_op_added gone_tombstone)
  then show ?thesis using assms
    by (auto simp: repo_delete_batch_def outcome_iff split: if_splits elim!: gone_transact)
qed

lemma gone_vacuum: "repo_vacuum E sf batch now db = (d, n) \<Longrightarrow> gone_row i db \<Longrightarrow> gone_row i d"
  by (auto simp: repo_vacuum_def outcome_iff gone_row_def delete_rows_def elim!: transact_cases)

section \<open>Steps of the coordinator\<close>

context vector_index
begin

definition gone :: "string \<Rightarrow> 'ix journal \<Rightarrow> bool" where
  "gone i st \<longleftrightarrow> gone_row i (jn_db st) \<and> i \<notin> ids (jn_index st)"

lemma gone_db: "(\<And>db d res. f db = (d, res) \<Longrightarrow> gone_row i db \<Longrightarrow> gone_row i d) \<Longrightarrow> keeps (gone i) (on_db f)"
  by (rule keepsI) (auto simp: gone_def on_db_def split: prod.splits)

lemma gone_index: "(\<And>ix ix' res. f ix = (ix', res) \<Longrightarrow> i \<notin> ids ix \<Longrightarrow> i \<notin> ids ix') \<Longrightarrow> keeps (gone i) (on_index f)"
  by (rule keepsI) (auto simp: gone_def on_index_def split: prod.splits)

lemma gone_upsert: "j \<noteq> i \<Longrightarrow> keeps (gone i) (on_index (io_upsert ops w j v))"
  by (rule gone_index) (use upsert_only in blast)

lemma gone_remove: "keeps (gone i) (on_index (io_remove ops j))"
  by (rule gone_index) (use remove in blast)

lemma gone_upsert_batch: "i \<notin> fst ` set items \<Longrightarrow> keeps (gone i) (on_index (io_upsert_batch ops ws items))"
  by (rule gone_index) (use upsert_batch_only in blast)

lemma gone_remove_batch: "keeps (gone i) (on_index (io_remove_batch ops js))"
  by (rule gone_index) (use remove_batch in blast)

lemma gone_set_status: "j \<noteq> i \<Longrightarrow> keeps (gone i) (on_db (repo_set_status E sf j st))"
  by (rule gone_db) (rule gone_status)

lemma gone_mark_applied: "keeps (gone i) (on_db (repo_mark_applied E sf op now))"
  by (rule gone_db) (rule gone_mark)

lemmas gone_rules = keeps_stop keeps_ask keeps_opt gone_upsert gone_remove gone_set_status gone_mark_applied

lemma gone_remember:
  assumes "mr_id rec \<noteq> i"
  shows "keeps (gone i) (coordinate_remember E ops jf w now rec op)"
proof -
  have ins: "keeps (gone i) (on_db (repo_insert_pending E sf rec op' now))" for sf op'
    by (rule gone_db) (use gone_insert_pending assms in blast)
  show ?thesis unfolding coordinate_remember_def finish_remember_def
    by (intro keeps_then gone_rules assms ins)
qed

lemma gone_remember_batch:
  assumes "i \<notin> mr_id ` set recs"
  shows "keeps (gone i) (coordinate_remember_batch E ops jf ws now recs oids)"
proof -
  have a: "keeps (gone i) (on_db (repo_insert_pending_batch E sf recs oids now))" for sf
    by (rule gone_db) (use gone_insert_batch assms in blast)
  have b: "keeps (gone i) (on_index (io_upsert_batch ops ws (map (\<lambda>r. (mr_id r, mr_embedding r)) recs)))"
    by (rule gone_upsert_batch) (use assms in \<open>simp add: image_image\<close>)
  have c: "keeps (gone i) (on_db (repo_set_status_batch E sf (map mr_id recs) StActive))" for sf
    by (rule gone_db) (use gone_status_batch assms in \<open>fastforce\<close>)
  have d: "keeps (gone i) (on_db (repo_mark_applied_batch E sf js now))" for sf js
    by (rule gone_db) (use gone_mark_batch in blast)
  show ?thesis unfolding coordinate_remember_batch_def Let_def
    by (intro keeps_if keeps_then keeps_stop a b c d)
qed

lemma gone_coordinate_update:
  assumes "env_ok E"
  shows "keeps (gone i) (coordinate_update E ops jf w now rec expected op)"
proof -
  have up: "keeps (gone i) (on_db (repo_update E sf rec expected op' now))" for sf op'
    by (rule gone_db) (use gone_update assms in blast)
  have rest: "keeps (gone i) (\<lambda>st0. and_then (on_db (repo_update E (jf 1) rec expected op now) st0) (\<lambda>st1 _.
      and_then (on_index (io_upsert ops w (mr_id rec) (mr_embedding rec)) st1) (\<lambda>st2 _.
      case op of None \<Rightarrow> (st2, Ok ()) | Some op_id \<Rightarrow> on_db (repo_mark_applied E (jf 2) op_id now) st2)))"
  proof (rule keeps_bind [OF up])
    fix st st' x
    assume g: "gone i st" and r: "on_db (repo_update E (jf 1) rec expected op now) st = (st', Ok x)"
    from r obtain d where "repo_update E (jf 1) rec expected op now (jn_db st) = (d, Ok x)" by (auto simp: outcome_iff)
    from gone_update_other [OF this _ assms] g have "mr_id rec \<noteq> i" by (simp add: gone_def)
    then show "keeps (gone i) (\<lambda>st1. and_then (on_index (io_upsert ops w (mr_id rec) (mr_embedding rec)) st1) (\<lambda>st2 _.
        case op of None \<Rightarrow> (st2, Ok ()) | Some op_id \<Rightarrow> on_db (repo_mark_applied E (jf 2) op_id now) st2))"
      by (intro keeps_then gone_rules)
  qed
  show ?thesis unfolding coordinate_update_def by (intro keeps_if keeps_then gone_rules rest)
qed

lemma gone_forget: "keeps (gone i) (coordinate_forget E ops sf now sc j op)"
  unfolding coordinate_forget_def by (intro keeps_then gone_rules gone_db) (use gone_delete in blast)

lemma gone_forget_batch: "keeps (gone i) (coordinate_forget_batch E ops sf now sc js oids)"
  unfolding coordinate_forget_batch_def
  by (intro keeps_if keeps_then keeps_stop gone_remove_batch gone_db) (use gone_delete_batch in blast)

text \<open>Recovery finds the deleted memory but does nothing with it.\<close>

lemma gone_recover_op:
  assumes E: "env_ok E"
  shows "keeps (gone i) (recover_op E ops jf w now p)"
proof -
  have rr: "keeps (gone i) (recover_record E ops jf w rec)" if "mr_id rec = i \<Longrightarrow> mr_status rec = StDeleted" for rec
    unfolding recover_record_def by (cases "mr_id rec = i") (use that in \<open>simp add: keeps_stop\<close>, intro keeps_if keeps_then gone_rules)
  have ro: "keeps (gone i) (\<lambda>st. and_then (ask (repo_get_internal E (jf 0) mem) st) (\<lambda>st0 found. case found of None \<Rightarrow> (st0, Ok 0)
      | Some rec \<Rightarrow> and_then (recover_record E ops jf w rec st0) (\<lambda>st1 _.
           and_then (on_db (repo_mark_applied E (jf 2) op now) st1) (\<lambda>st2 _. (st2, Ok 1)))))" for mem op
  proof (rule keeps_bind [OF keeps_ask])
    fix st st' :: "'ix journal" and found
    assume g: "gone i st" and r: "ask (repo_get_internal E (jf 0) mem) st = (st', Ok found)"
    show "keeps (gone i) (\<lambda>st0. case found of None \<Rightarrow> (st0, Ok 0)
      | Some rec \<Rightarrow> and_then (recover_record E ops jf w rec st0) (\<lambda>st1 _.
           and_then (on_db (repo_mark_applied E (jf 2) op now) st1) (\<lambda>st2 _. (st2, Ok 1))))"
    proof (cases found)
      case None
      then show ?thesis by (simp add: keeps_stop)
    next
      case (Some rec)
      then obtain row where f: "find (\<lambda>r. r_id r = mem) (ev_scan E (db_memories (jn_db st))) = Some row"
        and rec: "record_of_row E StPending row = Ok rec"
        using r by (auto simp: ask_def repo_get_internal_def first_record_def outcome_iff split: option.splits)
      have "set (ev_scan E (db_memories (jn_db st))) = set (db_memories (jn_db st))"
        using E by (intro mset_eq_set) (simp add: env_ok_def)
      then have "row \<in> set (db_memories (jn_db st))" using find_Some_set [OF f] by simp
      then have "mr_id rec = i \<Longrightarrow> mr_status rec = StDeleted"
        using rec g by (auto simp: record_of_row_def outcome_iff gone_def gone_row_def status_parse_def)
      from rr [OF this] show ?thesis unfolding Some option.case by (intro keeps_then gone_rules)
    qed
  qed
  obtain op mem kind where "p = (op, mem, kind)" by (cases p) auto
  then show ?thesis unfolding recover_op_def
    by (simp only: prod.case) (intro keeps_if ro keeps_then gone_rules)
qed

lemma gone_rebuild:
  assumes E: "env_ok E"
  shows "keeps (gone i) (rebuild_active E ops sf ws)"
  unfolding rebuild_active_def
proof (rule keeps_bind [OF keeps_ask])
  fix st st' :: "'ix journal" and recs
  assume g: "gone i st" and r: "ask (repo_active_records E sf) st = (st', Ok recs)"
  let ?rows = "filter (\<lambda>r. r_status r = ''active'') (ev_scan E (db_memories (jn_db st)))"
  have "list_all2 (\<lambda>r rec. record_of_row E StActive r = Ok rec) ?rows recs"
    using r by (auto simp: ask_def repo_active_records_def outcome_iff intro: collect_rows_Ok)
  then have "map mr_id recs = map r_id ?rows"
    by (rule list_all2_set_map) (auto simp: record_of_row_def outcome_iff)
  then have "mr_id ` set recs = r_id ` set ?rows" by (metis set_map)
  also have "set ?rows = {r \<in> set (db_memories (jn_db st)). r_status r = ''active''}"
    using E mset_eq_set [of "ev_scan E (db_memories (jn_db st))" "db_memories (jn_db st)"] by (simp add: env_ok_def)
  finally have i: "i \<notin> mr_id ` set recs" using g by (auto simp: gone_def gone_row_def)
  show "keeps (gone i) (\<lambda>st1. on_index (io_rebuild ops ws recs) st1)"
  proof (rule gone_index)
    fix ix ix' res assume b: "io_rebuild ops ws recs ix = (ix', res)" and out: "i \<notin> ids ix"
    show "i \<notin> ids ix'"
    proof (cases "res = Ok ()")
      case True
      then show ?thesis using rebuild_only b i by blast
    next
      case False
      then show ?thesis using rebuild_failed [OF b] out by simp
    qed
  qed
qed

lemma gone_recover: "env_ok E \<Longrightarrow> keeps (gone i) (recover_startup E ops rp)"
  unfolding recover_startup_def
  by (intro keeps_then keeps_ask keeps_stop keeps_recover_ops gone_recover_op gone_rebuild)

lemma gone_step:
  assumes "coordinator_step E ops i st st'" "env_ok E" "gone i st"
  shows "gone i st'"
  using assms(1)
proof (cases rule: coordinator_step.cases)
  case (remember jf w now rec op res)
  then show ?thesis using keepsD [OF gone_remember _ assms(3)] by blast
next
  case (remember_batch jf ws now recs oids res')
  then show ?thesis using keepsD [OF gone_remember_batch _ assms(3)] by blast
next
  case (update jf w now rec expected op res'')
  then show ?thesis using keepsD [OF gone_coordinate_update [OF assms(2)] _ assms(3)] by blast
next
  case (forget sf now sc j op res'')
  then show ?thesis using keepsD [OF gone_forget _ assms(3)] by blast
next
  case (forget_batch sf now sc js oids res'')
  then show ?thesis using keepsD [OF gone_forget_batch _ assms(3)] by blast
next
  case (recover rp n)
  then show ?thesis using keepsD [OF gone_recover [OF assms(2)] _ assms(3)] by blast
next
  case (vacuum sf batch now n)
  have "keeps (gone i) (on_db (repo_vacuum E sf batch now))" by (rule gone_db) (rule gone_vacuum)
  from keepsD [OF this vacuum assms(3)] show ?thesis .
qed

lemma gone_steps:
  assumes "(coordinator_step E ops i)\<^sup>*\<^sup>* st st'" "env_ok E" "gone i st"
  shows "gone i st'"
  using assms(1) by (induction rule: rtranclp_induct) (use assms(2,3) gone_step in blast)+

text \<open>A deletion in the scope of the memory makes it gone.\<close>

lemma forget_gone:
  assumes "coordinate_forget E ops sf now sc i op st = (st', Ok ())"
    and "\<forall>r\<in>set (db_memories (jn_db st)). r_id r = i \<longrightarrow> in_scope sc r"
  shows "gone i st'"
proof -
  obtain d ix where d: "repo_delete E sf sc i op now (jn_db st) = (d, Ok ())"
    and ix: "io_remove ops i (jn_index st) = (ix, Ok ())" and st': "st' = st\<lparr> jn_db := d, jn_index := ix \<rparr>"
    using assms(1) by (rule coordinate_forget_Ok)
  have "gone_row i (tombstone sc i now (jn_db st))"
    using assms(2) by (simp add: gone_row_def tombstone_def update_rows_def del: if_image_distrib)
  then have "gone_row i d" by (simp only: gone_op_added [OF repo_delete_Ok [OF d]])
  moreover have "i \<notin> ids ix" using remove [OF ix] by blast
  ultimately show ?thesis by (simp add: gone_def st')
qed

lemma forgotten:
  assumes "coordinate_forget E ops sf now sc i op st = (st1, Ok ())" "env_ok E"
    and "\<forall>r\<in>set (db_memories (jn_db st)). r_id r = i \<longrightarrow> in_scope sc r" "(coordinator_step E ops i)\<^sup>*\<^sup>* st1 st2"
  shows "(\<forall>r\<in>set (db_memories (jn_db st2)). r_id r = i \<longrightarrow> r_status r = ''deleted'')
    \<and> (\<forall>q k hits. io_search ops q k (jn_index st2) = Ok hits \<longrightarrow> i \<notin> fst ` set hits)"
proof -
  have g: "gone i st2" by (rule gone_steps [OF assms(4,2) forget_gone [OF assms(1,3)]])
  then have "i \<notin> fst ` set hits" if "io_search ops q k (jn_index st2) = Ok hits" for q k hits
    using search_only [OF that] unfolding gone_def set_map by blast
  then show ?thesis using g unfolding gone_def gone_row_def by blast
qed

end

section \<open>Properties\<close>

text \<open>C10: A forgotten memory stays forgotten. After a \<open>forget\<close> in the scope of a memory succeeds, no
  sequence of later operations (remembers of other ids, updates and further deletions of any memory,
  recovery with any journal and any faults, rebuilds, vacuum) makes its row anything but deleted or
  makes any search return its id.\<close>

theorem forgotten_stays_forgotten:
  assumes "coordinate_forget E (vivy_ops A) sf now sc i op st = (st1, Ok ())" "env_ok E"
    and "\<forall>r\<in>set (db_memories (jn_db st)). r_id r = i \<longrightarrow> in_scope sc r"
    and "(coordinator_step E (vivy_ops A) i)\<^sup>*\<^sup>* st1 st2"
  shows "(\<forall>r\<in>set (db_memories (jn_db st2)). r_id r = i \<longrightarrow> r_status r = ''deleted'')
    \<and> (\<forall>q k hits. vv_search A q k (jn_index st2) = Ok hits \<longrightarrow> i \<notin> fst ` set hits)"
  using vv.forgotten [OF assms] by (simp add: vivy_ops_def)

lemma demo_forget:
  "coordinate_forget demo_env (vivy_ops A) no_faults 8 demo_scope ''a'' None \<lparr> jn_db = demo_crashed, jn_index = vv \<rparr>
    = (\<lparr> jn_db = tombstone demo_scope ''a'' 8 demo_crashed, jn_index = fst (vv_remove ''a'' vv) \<rparr>, Ok ())"
  by (simp add: coordinate_forget_def on_db_def on_index_def repo_delete_def transact_def vivy_ops_def vv_remove_def)

lemma demo_scoped: "\<forall>r\<in>set (db_memories demo_crashed). r_id r = ''a'' \<longrightarrow> in_scope demo_scope r"
  by (simp add: demo_crashed_def row_of_record_def demo_record_def in_scope_def)

text \<open>The witness: the memory whose remember was cut short is forgotten; the replay of its journal entry
  does not bring it back.\<close>

theorem forgotten_stays_forgotten_witness:
  "filter (\<lambda>r. r_id r = ''a'' \<and> r_status r \<noteq> ''deleted'')
    (db_memories (jn_db (fst (recover_startup demo_env demo_ops demo_plan
      \<lparr> jn_db = tombstone demo_scope ''a'' 8 demo_crashed, jn_index = fst (vv_remove ''a'' demo_vectors) \<rparr>)))) = []"
proof -
  let ?st = "\<lparr> jn_db = tombstone demo_scope ''a'' 8 demo_crashed, jn_index = fst (vv_remove ''a'' demo_vectors) \<rparr>"
  have "coordinator_step demo_env demo_ops ''a'' ?st (fst (recover_startup demo_env demo_ops demo_plan ?st))"
    by (rule recover) (rule prod.collapse [symmetric])
  then have "(coordinator_step demo_env demo_ops ''a'')\<^sup>*\<^sup>* ?st (fst (recover_startup demo_env demo_ops demo_plan ?st))"
    by (rule r_into_rtranclp)
  from forgotten_stays_forgotten [OF demo_forget demo_env_ok _ this]
  show ?thesis using demo_scoped by (simp add: filter_empty_conv)
qed

text \<open>C32: The isolation of deletion has a hole in the index: a \<open>forget\<close> from a scope that does not own
  the memory, with no fault anywhere, answers success and leaves the database as it was, but removes the
  memory's id from the vector index, so the owner's vector search no longer finds a memory that is still
  active.\<close>

theorem foreign_forget_hides:
  fixes E :: "'j store_env"
  assumes "\<forall>r\<in>set (db_memories (jn_db st)). r_id r = i \<longrightarrow> \<not> in_scope sc r"
  shows "\<exists>st'. coordinate_forget E (vivy_ops A) no_faults now sc i None st = (st', Ok ())
    \<and> jn_db st' = jn_db st \<and> vv_live (jn_index st') = vv_live (jn_index st) - {i}"
proof -
  have none: "filter (\<lambda>r. r_id r = i \<and> in_scope sc r) (db_memories (jn_db st)) = []"
    using assms by (simp add: filter_empty_conv)
  have "map (\<lambda>r. if r_id r = i \<and> in_scope sc r then r\<lparr> r_status := ''deleted'', r_updated := now \<rparr> else r)
      (db_memories (jn_db st)) = db_memories (jn_db st)"
    using assms by (intro map_idI) auto
  then have "tombstone sc i now (jn_db st) = jn_db st" using none by (simp add: tombstone_def update_rows_def)
  then have d: "repo_delete E no_faults sc i None now (jn_db st) = (jn_db st, Ok ())"
    by (simp add: repo_delete_def transact_def)
  obtain ix res where r: "io_remove (vivy_ops A :: (_, 'j) index_ops) i (jn_index st) = (ix, res)" by fastforce
  note ix = vv.remove [OF r]
  have "coordinate_forget E (vivy_ops A) no_faults now sc i None st = (st\<lparr> jn_index := ix \<rparr>, Ok ())"
    using ix r by (simp add: coordinate_forget_def on_db_def d on_index_def)
  then show ?thesis using ix by simp
qed

definition other_scope :: memory_scope where
  "other_scope = \<lparr> sc_tenant = ''rival'', sc_namespace = ''support'', sc_agent = None, sc_user = None \<rparr>"

theorem foreign_forget_hides_witness:
  "\<exists>st'. coordinate_forget demo_env demo_ops no_faults 8 other_scope ''a'' None
      \<lparr> jn_db = demo_crashed, jn_index = demo_vectors\<lparr> vv_names := [1 \<mapsto> ''a''] \<rparr> \<rparr> = (st', Ok ())
    \<and> jn_db st' = demo_crashed \<and> vv_live (demo_vectors\<lparr> vv_names := [1 \<mapsto> ''a''] \<rparr>) = {''a''} \<and> vv_live (jn_index st') = {}"
proof -
  let ?st = "\<lparr> jn_db = demo_crashed, jn_index = demo_vectors\<lparr> vv_names := [1 \<mapsto> ''a''] \<rparr> \<rparr>"
  have "\<forall>r\<in>set (db_memories (jn_db ?st)). r_id r = ''a'' \<longrightarrow> \<not> in_scope other_scope r"
    by (simp add: demo_crashed_def row_of_record_def demo_record_def in_scope_def demo_scope_def other_scope_def)
  from foreign_forget_hides [OF this, of demo_env demo_adapter 8] show ?thesis
    by (simp add: vv_live_def demo_vectors_def)
qed

end
