(* ===== verification/Memory_Store.thy ===== *)
theory Memory_Store
  imports Journal
begin

text \<open>
  The memory store (\<open>ltm/src/lib.rs\<close>): opening, remembering, reading, recall with its scoring and
  its two ways of choosing the result, update, forget, vacuum, context formatting and backup.
  The clock, the fresh UUIDs and every fault are arguments.
\<close>

section \<open>State\<close>

record 'ix memory_store =
  ms_config :: memory_config
  ms_journal :: "'ix journal"

definition on_journal ::
  "('ix journal \<Rightarrow> 'ix journal \<times> 'a mresult) \<Rightarrow> 'ix memory_store \<Rightarrow> 'ix memory_store \<times> 'a mresult" where
  "on_journal f ms = (case f (ms_journal ms) of (st, res) \<Rightarrow> (ms\<lparr> ms_journal := st \<rparr>, res))"

definition ms_db :: "'ix memory_store \<Rightarrow> database" where
  "ms_db ms = jn_db (ms_journal ms)"

definition io_failure :: "string \<Rightarrow> string \<Rightarrow> memory_error" where
  "io_failure what e = MeIoError EcIoError (what @ e)"

text \<open>What opening takes from outside: the failure to make the directory, the plans of the database
  calls with the answer of the integrity check, and of the vector index.\<close>

record open_plan =
  on_mkdir :: "string option"
  on_open :: sql_faults
  on_migrate :: sql_faults
  on_check :: sql_faults
  on_answer :: string
  on_now :: i64
  on_random :: "nat \<Rightarrow> f32"
  on_wal :: "io_error option"
  on_manifest :: "save_stop option"
  on_recovery :: recovery_plan

text \<open>The database is returned even when opening fails: it stays on disk.\<close>

definition ms_open ::
  "'j store_env \<Rightarrow> 'b adapter_env \<Rightarrow> open_plan \<Rightarrow> memory_config \<Rightarrow> database \<Rightarrow> bytes option \<Rightarrow> data_dir
    \<Rightarrow> database \<times> 'b vivy_vector_index memory_store mresult" where
  "ms_open E A pl cfg db wal dir =
     (case on_mkdir pl of
        Some e \<Rightarrow> (db, Err (io_failure ''Failed to create directory '' e))
      | None \<Rightarrow>
          and_then (repo_open E (on_open pl) (on_migrate pl) (on_check pl) (on_answer pl) (on_now pl) db) (\<lambda>db1 _.
          and_then (db1, vv_new_with_dir A (on_random pl) (on_wal pl) (on_manifest pl) (cg_dims cfg) Cosine (Some (wal, dir))) (\<lambda>db2 vv.
          (case recover_startup E (vivy_ops A) (on_recovery pl) \<lparr> jn_db = db2, jn_index = vv \<rparr> of
             (st, res) \<Rightarrow> (jn_db st, obind res (\<lambda>_. Ok \<lparr> ms_config = cfg, ms_journal = st \<rparr>))))))"

section \<open>Remember and read\<close>

definition new_record ::
  "'j store_env \<Rightarrow> memory_config \<Rightarrow> string \<Rightarrow> i64 \<Rightarrow> 'j remember_request \<Rightarrow> 'j memory_record" where
  "new_record E cfg uuid now rq =
     \<lparr> mr_id = uuid, mr_scope = rq_scope rq, mr_kind = rq_kind rq, mr_content = rq_content rq,
       mr_hash = u64_bytes (ev_hash_str E (rq_content rq)), mr_embedding = rq_embedding rq,
       mr_model = cg_model cfg, mr_dims = cg_dims cfg, mr_importance = rq_importance rq,
       mr_created = now, mr_updated = now, mr_accessed = None, mr_count = 0, mr_expires = rq_expires rq,
       mr_status = StPending, mr_revision = 1, mr_metadata = rq_metadata rq, mr_source = rq_source rq \<rparr>"

definition ms_remember ::
  "'j store_env \<Rightarrow> ('ix, 'j) index_ops \<Rightarrow> call_faults \<Rightarrow> index_world \<Rightarrow> string \<Rightarrow> i64 \<Rightarrow> i64 \<Rightarrow> 'j remember_request
    \<Rightarrow> 'ix memory_store \<Rightarrow> 'ix memory_store \<times> string mresult" where
  "ms_remember E ops jf w uuid now now2 rq ms =
     and_then (ms, remember_validate rq (cg_dims (ms_config ms))) (\<lambda>ms _.
     on_journal (coordinate_remember E ops jf w now2 (new_record E (ms_config ms) uuid now rq) (rq_operation rq)) ms)"

definition validate_all :: "'j remember_request list \<Rightarrow> nat \<Rightarrow> unit mresult" where
  "validate_all rqs dims = ofold (\<lambda>_ rq. remember_validate rq dims) () rqs"

definition ms_remember_batch ::
  "'j store_env \<Rightarrow> ('ix, 'j) index_ops \<Rightarrow> call_faults \<Rightarrow> (nat \<Rightarrow> index_world) \<Rightarrow> (nat \<Rightarrow> string) \<Rightarrow> i64 \<Rightarrow> i64
    \<Rightarrow> 'j remember_request list \<Rightarrow> 'ix memory_store \<Rightarrow> 'ix memory_store \<times> string list mresult" where
  "ms_remember_batch E ops jf ws uuids now now2 rqs ms =
     (if rqs = [] then (ms, Ok [])
      else and_then (ms, validate_all rqs (cg_dims (ms_config ms))) (\<lambda>ms _.
           on_journal (coordinate_remember_batch E ops jf ws now2
             (map (\<lambda>(n, rq). new_record E (ms_config ms) (uuids n) now rq) (zip [0..<length rqs] rqs))
             (map rq_operation rqs)) ms))"

definition ms_get ::
  "'j store_env \<Rightarrow> sql_faults \<Rightarrow> memory_scope \<Rightarrow> string \<Rightarrow> 'ix memory_store \<Rightarrow> 'j memory_record option mresult" where
  "ms_get E sf sc i ms = repo_get E sf sc i (ms_db ms)"

section \<open>Recall\<close>

text \<open>A literal \<open>n / d\<close> of the source, rounded as the compiler rounds it.\<close>

definition f_lit :: "nat \<Rightarrow> nat \<Rightarrow> f32" where
  "f_lit n d = f_make False (round_mag (n * 2 ^ 149) d)"

text \<open>Reciprocal rank fusion: a map from candidates to scores, in the order of their first entry.\<close>

definition rrf_term :: "nat \<Rightarrow> f32" where
  "rrf_term rank = f_div f_one (f_add (f_of_nat 60) (f_of_nat (rank + 1)))"

definition rrf_add :: "(string \<times> f32) list \<Rightarrow> nat \<times> string \<Rightarrow> (string \<times> f32) list" where
  "rrf_add scores ri =
     (case ri of (rank, i) \<Rightarrow>
       AList.update i (f_add (case map_of scores i of None \<Rightarrow> f_zero | Some s \<Rightarrow> s) (rrf_term rank)) scores)"

definition rrf_scores :: "string list \<Rightarrow> string list \<Rightarrow> (string \<times> f32) list" where
  "rrf_scores vec fts =
     foldl rrf_add (foldl rrf_add [] (zip [0..<length vec] vec)) (zip [0..<length fts] fts)"

text \<open>\<open>sort\_by(|a, b| key(b).partial\_cmp(key(a)).unwrap())\<close>: stable, descending, and a panic when a
  key is a NaN and there is something to compare it with.\<close>

definition sort_desc :: "('a \<Rightarrow> f32) \<Rightarrow> 'a list \<Rightarrow> 'a list mresult" where
  "sort_desc key xs =
     (if 2 \<le> length xs \<and> list_ex (\<lambda>x. is_nan (key x)) xs then Panic
      else Ok (sort_key (\<lambda>x. - f_key (key x)) xs))"

definition score_of :: "(string \<times> f32) list \<Rightarrow> string \<Rightarrow> f32" where
  "score_of scores i = (case map_of scores i of None \<Rightarrow> f_zero | Some s \<Rightarrow> s)"

definition candidate_ids :: "'j store_env \<Rightarrow> string list \<Rightarrow> string list \<Rightarrow> string list mresult" where
  "candidate_ids E vec fts =
     (let scores = rrf_scores vec fts in sort_desc (score_of scores) (ev_keys E (map fst scores)))"

text \<open>The conditions a candidate must meet.\<close>

definition unexpired :: "i64 \<Rightarrow> 'j memory_record \<Rightarrow> bool" where
  "unexpired now rec = (case mr_expires rec of None \<Rightarrow> True | Some t \<Rightarrow> \<not> sint t \<le> sint now)"

definition filter_keeps :: "'j memory_filter \<Rightarrow> 'j memory_record \<Rightarrow> bool" where
  "filter_keeps fl rec \<longleftrightarrow>
     (case fl_kinds fl of None \<Rightarrow> True | Some kinds \<Rightarrow> mr_kind rec \<in> set kinds)
     \<and> (case fl_importance fl of None \<Rightarrow> True | Some x \<Rightarrow> \<not> f_lt (mr_importance rec) x)
     \<and> (case fl_metadata fl of None \<Rightarrow> True
        | Some conds \<Rightarrow> list_all (\<lambda>(k, expected). mr_metadata rec k = Some expected) conds)"

definition recall_keeps :: "i64 \<Rightarrow> 'j memory_filter \<Rightarrow> 'j memory_record \<Rightarrow> bool" where
  "recall_keeps now fl rec \<longleftrightarrow> mr_status rec = StActive \<and> unexpired now rec \<and> filter_keeps fl rec"

text \<open>The score of a candidate; \<open>now - created\<close> may overflow.\<close>

definition similarity_score :: "f32 list \<Rightarrow> 'j memory_record \<Rightarrow> f32" where
  "similarity_score q rec = f_clamp (f_sub f_one (f_div (cosine q (mr_embedding rec)) f_two)) f_zero f_one"

definition recency_score :: "'j store_env \<Rightarrow> int \<Rightarrow> f32" where
  "recency_score E age =
     ev_exp E (f_div (f_neg (f_of_int (max age 0))) (f_mul (f_of_nat 7) (f_of_nat 86400000)))"

definition recall_explain ::
  "'j store_env \<Rightarrow> f32 list \<Rightarrow> string list \<Rightarrow> string list \<Rightarrow> int \<Rightarrow> 'j memory_record \<Rightarrow> recall_explanation" where
  "recall_explain E q vec fts age rec =
     (let similarity = similarity_score q rec;
          importance = f_clamp (mr_importance rec) f_zero f_one;
          recency = recency_score E age;
          reinforcement = f_clamp (f_div (f_of_nat (unat (mr_count rec))) (f_of_nat 10)) f_zero f_one;
          total = f_add (f_add (f_add (f_mul (f_lit 70 100) similarity) (f_mul (f_lit 15 100) importance))
                    (f_mul (f_lit 10 100) recency)) (f_mul (f_lit 5 100) reinforcement)
      in \<lparr> ex_total = total, ex_similarity = similarity, ex_importance = importance, ex_recency = recency,
           ex_reinforcement = reinforcement,
           ex_notes = [''default_v1_scoring'']
             @ (if mr_id rec \<in> set fts then [''fts5_lexical_candidate''] else [])
             @ (if mr_id rec \<in> set vec \<and> mr_id rec \<in> set fts then [''reciprocal_rank_fusion''] else []) \<rparr>)"

definition scored_item ::
  "'j store_env \<Rightarrow> 'j recall_request \<Rightarrow> string list \<Rightarrow> string list \<Rightarrow> i64 \<Rightarrow> 'j memory_record \<Rightarrow> 'j recall_item mresult" where
  "scored_item E rc vec fts now rec =
     (let age = sint now - sint (mr_created rec) in
      if age < - (2 ^ 63) \<or> 2 ^ 63 \<le> age then Panic
      else (let ex = recall_explain E (rc_query rc) vec fts age rec in
        Ok \<lparr> ri_memory = rec, ri_score = ex_total ex, ri_explanation = (if rc_explain rc then Some ex else None) \<rparr>))"

definition recall_step ::
  "'j store_env \<Rightarrow> sql_faults \<Rightarrow> 'j recall_request \<Rightarrow> string list \<Rightarrow> string list \<Rightarrow> i64 \<Rightarrow> database
    \<Rightarrow> 'j recall_item list \<Rightarrow> string \<Rightarrow> 'j recall_item list mresult" where
  "recall_step E sf rc vec fts now db items i =
     obind (repo_get E sf (rc_scope rc) i db) (\<lambda>found.
     case found of
       None \<Rightarrow> Ok items
     | Some rec \<Rightarrow>
         if recall_keeps now (rc_filters rc) rec
         then obind (scored_item E rc vec fts now rec) (\<lambda>it. Ok (items @ [it]))
         else Ok items)"

section \<open>Choosing the result\<close>

text \<open>Maximal marginal relevance.\<close>

definition redundancy :: "'j recall_item \<Rightarrow> 'j recall_item list \<Rightarrow> f32" where
  "redundancy cand selected =
     foldl (\<lambda>max_sim sel.
        let sim = f_clamp (f_sub f_one (cosine (mr_embedding (ri_memory cand)) (mr_embedding (ri_memory sel)))) f_zero f_one
        in if f_lt max_sim sim then sim else max_sim) f_zero selected"

definition mmr_score :: "f32 \<Rightarrow> 'j recall_item list \<Rightarrow> 'j recall_item \<Rightarrow> f32" where
  "mmr_score lambda selected cand =
     f_sub (f_mul lambda (ri_score cand)) (f_mul (f_sub f_one lambda) (redundancy cand selected))"

definition mmr_better ::
  "f32 \<Rightarrow> 'j recall_item list \<Rightarrow> nat \<times> f32 \<Rightarrow> nat \<times> 'j recall_item \<Rightarrow> nat \<times> f32" where
  "mmr_better lambda selected best ic =
     (let s = mmr_score lambda selected (snd ic) in if f_lt (snd best) s then (fst ic, s) else best)"

definition mmr_best :: "f32 \<Rightarrow> 'j recall_item list \<Rightarrow> 'j recall_item list \<Rightarrow> nat" where
  "mmr_best lambda selected remaining =
     fst (foldl (mmr_better lambda selected) (0, f_neg_inf) (zip [0..<length remaining] remaining))"

lemma mmr_best_lt: "remaining \<noteq> [] \<Longrightarrow> mmr_best lambda selected remaining < length remaining"
proof -
  assume ne: "remaining \<noteq> []"
  have "fst (foldl (mmr_better lambda selected) b ics) < n"
    if "fst b < n" "\<forall>ic\<in>set ics. fst ic < n" for b ics and n :: nat
    using that by (induction ics arbitrary: b) (auto simp: mmr_better_def Let_def)
  moreover have "\<forall>ic\<in>set (zip [0..<length remaining] remaining). fst ic < length remaining"
    by (auto dest: set_zip_leftD)
  ultimately show ?thesis using ne by (simp add: mmr_best_def)
qed

function mmr_select :: "f32 \<Rightarrow> nat \<Rightarrow> 'j recall_item list \<Rightarrow> 'j recall_item list \<Rightarrow> 'j recall_item list" where
  "mmr_select lambda limit selected remaining =
     (if remaining \<noteq> [] \<and> length selected < limit
      then (let b = mmr_best lambda selected remaining in
            mmr_select lambda limit (selected @ [remaining ! b]) (take b remaining @ drop (Suc b) remaining))
      else selected)"
  by pat_completeness auto
termination
  by (relation "measure (\<lambda>(lambda, limit, selected, remaining). length remaining)")
    (auto simp: min_def not_le dest: mmr_best_lt)

declare mmr_select.simps [simp del]

definition choose_items :: "'j recall_request \<Rightarrow> 'j recall_item list \<Rightarrow> 'j recall_item list mresult" where
  "choose_items rc items =
     (case rc_lambda rc of
        Some lambda \<Rightarrow> Ok (mmr_select lambda (rc_limit rc) [] items)
      | None \<Rightarrow> obind (sort_desc ri_score items) (\<lambda>sorted. Ok (take (rc_limit rc) sorted)))"

text \<open>Faults of the queries of a recall: the full-text search, then one query a candidate.\<close>

definition ms_recall ::
  "'j store_env \<Rightarrow> ('ix, 'j) index_ops \<Rightarrow> sql_faults \<Rightarrow> sql_faults \<Rightarrow> i64 \<Rightarrow> 'j recall_request \<Rightarrow> 'ix memory_store
    \<Rightarrow> 'j recall_response mresult" where
  "ms_recall E ops sf_fts sf_get now rc ms =
     obind (recall_validate rc (cg_dims (ms_config ms))) (\<lambda>_.
     let limit = min (rc_limit rc) (cg_max_recall (ms_config ms)) * 3 in
     if 2 ^ 64 \<le> limit then Panic
     else obind (io_search ops (rc_query rc) limit (jn_index (ms_journal ms))) (\<lambda>hits.
          obind (case rc_text rc of None \<Rightarrow> Ok []
                 | Some text \<Rightarrow> repo_search_fts E sf_fts (rc_scope rc) text (rc_filters rc) limit (ms_db ms)) (\<lambda>fts.
          let vec = map fst hits in
          obind (candidate_ids E vec fts) (\<lambda>ids.
          obind (ofold (recall_step E sf_get rc vec fts now (ms_db ms)) [] ids) (\<lambda>items.
          obind (choose_items rc items) (\<lambda>chosen.
          Ok \<lparr> rr_items = chosen, rr_total = length chosen \<rparr>))))))"

section \<open>Update, forget, maintenance\<close>

definition put_all :: "(string \<times> 'j) list \<Rightarrow> (string \<Rightarrow> 'j option) \<Rightarrow> (string \<Rightarrow> 'j option)" where
  "put_all patch m = foldl (\<lambda>m (k, v). m(k \<mapsto> v)) m patch"

definition updated_record ::
  "'j store_env \<Rightarrow> memory_config \<Rightarrow> i64 \<Rightarrow> 'j update_request \<Rightarrow> 'j memory_record \<Rightarrow> 'j memory_record" where
  "updated_record E cfg now up old =
     (let content = (case up_content up of None \<Rightarrow> mr_content old | Some c \<Rightarrow> c) in
      \<lparr> mr_id = up_id up, mr_scope = up_scope up,
        mr_kind = (case up_kind up of None \<Rightarrow> mr_kind old | Some k \<Rightarrow> k), mr_content = content,
        mr_hash = u64_bytes (ev_hash_str E content),
        mr_embedding = (case up_embedding up of None \<Rightarrow> mr_embedding old | Some v \<Rightarrow> v),
        mr_model = cg_model cfg, mr_dims = cg_dims cfg,
        mr_importance = (case up_importance up of None \<Rightarrow> mr_importance old | Some x \<Rightarrow> x),
        mr_created = mr_created old, mr_updated = now, mr_accessed = mr_accessed old, mr_count = mr_count old,
        mr_expires = (case up_expires up of None \<Rightarrow> mr_expires old | Some t \<Rightarrow> t),
        mr_status = StActive, mr_revision = mr_revision old + 1,
        mr_metadata = (case up_metadata up of None \<Rightarrow> mr_metadata old | Some patch \<Rightarrow> put_all patch (mr_metadata old)),
        mr_source = mr_source old \<rparr>)"

text \<open>\<open>existing.revision + 1\<close> panics when it overflows.\<close>

definition ms_update ::
  "'j store_env \<Rightarrow> ('ix, 'j) index_ops \<Rightarrow> sql_faults \<Rightarrow> call_faults \<Rightarrow> index_world \<Rightarrow> i64 \<Rightarrow> i64 \<Rightarrow> 'j update_request
    \<Rightarrow> 'ix memory_store \<Rightarrow> 'ix memory_store \<times> unit mresult" where
  "ms_update E ops sf jf w now now2 up ms =
     and_then (ms, update_validate up (cg_dims (ms_config ms))) (\<lambda>ms _.
     and_then (ms, repo_get E sf (up_scope up) (up_id up) (ms_db ms)) (\<lambda>ms found.
     case found of
       None \<Rightarrow> (ms, Err (me_not_found (up_id up)))
     | Some old \<Rightarrow>
         if mr_revision old = - 1 then (ms, Panic)
         else on_journal (coordinate_update E ops jf w now2 (updated_record E (ms_config ms) now up old)
                (up_revision up) (up_operation up)) ms))"

definition ms_forget ::
  "'j store_env \<Rightarrow> ('ix, 'j) index_ops \<Rightarrow> sql_faults \<Rightarrow> i64 \<Rightarrow> forget_request \<Rightarrow> 'ix memory_store \<Rightarrow> 'ix memory_store \<times> unit mresult" where
  "ms_forget E ops sf now fg ms = on_journal (coordinate_forget E ops sf now (fg_scope fg) (fg_id fg) (fg_operation fg)) ms"

definition ms_forget_batch ::
  "'j store_env \<Rightarrow> ('ix, 'j) index_ops \<Rightarrow> sql_faults \<Rightarrow> i64 \<Rightarrow> memory_scope \<Rightarrow> string list \<Rightarrow> 'ix memory_store
    \<Rightarrow> 'ix memory_store \<times> unit mresult" where
  "ms_forget_batch E ops sf now sc ids ms =
     (if ids = [] then (ms, Ok ())
      else on_journal (coordinate_forget_batch E ops sf now sc ids (replicate (length ids) None)) ms)"

text \<open>The sizes of the two files are what the file system reports, 0 when it cannot.\<close>

definition ms_health ::
  "'j store_env \<Rightarrow> ('ix, 'j) index_ops \<Rightarrow> sql_faults \<Rightarrow> u64 option \<Rightarrow> u64 option \<Rightarrow> 'ix memory_store \<Rightarrow> store_health mresult" where
  "ms_health E ops sf db_len wal_len ms =
     obind (repo_health_counts E sf (ms_db ms)) (\<lambda>(active, tombstoned, pending).
     let healthy = io_healthy ops (jn_index (ms_journal ms)) in
     Ok \<lparr> sh_healthy = healthy, sh_active = active, sh_tombstoned = tombstoned, sh_pending = pending,
          sh_rebuild = (\<not> healthy), sh_db_bytes = case_option 0 id db_len, sh_wal_bytes = case_option 0 id wal_len \<rparr>)"

definition ms_rebuild_index ::
  "'j store_env \<Rightarrow> ('ix, 'j) index_ops \<Rightarrow> sql_faults \<Rightarrow> (nat \<Rightarrow> index_world) \<Rightarrow> 'ix memory_store \<Rightarrow> 'ix memory_store \<times> unit mresult" where
  "ms_rebuild_index E ops sf ws ms = on_journal (rebuild_active E ops sf ws) ms"

definition ms_vacuum ::
  "'j store_env \<Rightarrow> ('ix, 'j) index_ops \<Rightarrow> sql_faults \<Rightarrow> sql_faults \<Rightarrow> (nat \<Rightarrow> index_world) \<Rightarrow> nat \<Rightarrow> i64 \<Rightarrow> 'ix memory_store
    \<Rightarrow> 'ix memory_store \<times> nat mresult" where
  "ms_vacuum E ops sf sf_active ws batch now ms =
     (if batch = 0 then (ms, Ok 0)
      else and_then (on_journal (on_db (repo_vacuum E sf batch now)) ms) (\<lambda>ms1 purged.
           if 0 < purged then and_then (ms_rebuild_index E ops sf_active ws ms1) (\<lambda>ms2 _. (ms2, Ok purged))
           else (ms1, Ok purged)))"

section \<open>Context formatting\<close>

definition estimate_tokens :: "string \<Rightarrow> nat" where
  "estimate_tokens text =
     (if text = [] then 0 else f_to_usize (f_ceil (f_div (f_of_nat (length text)) (f_of_nat 4))))"

text \<open>\<open>{:.p}\<close>: the exact value rounded to \<open>p\<close> decimals, ties to even.\<close>

definition pad_zeros :: "nat \<Rightarrow> string \<Rightarrow> string" where
  "pad_zeros n s = replicate (n - length s) CHR ''0'' @ s"

definition fmt_fixed :: "nat \<Rightarrow> f32 \<Rightarrow> string" where
  "fmt_fixed p x =
     (if is_nan x then ''NaN''
      else (if f_sign x then ''-'' else []) @
        (if is_inf x then ''inf''
         else (let n = div_even (mag_val (f_mag x) * 10 ^ p) (2 ^ 149) in
               nat_str (n div 10 ^ p) @ ''.'' @ pad_zeros p (nat_str (n mod 10 ^ p)))))"

definition context_line :: "string \<Rightarrow> 'j recall_item \<Rightarrow> string" where
  "context_line template it =
     str_replace ''{score}'' (fmt_fixed 4 (ri_score it))
       (str_replace ''{score:.2}'' (fmt_fixed 2 (ri_score it))
         (str_replace ''{content}'' (mr_content (ri_memory it))
           (str_replace ''{kind}'' (kind_lower (mr_kind (ri_memory it))) template)))"

text \<open>The lines that fit, with the tokens counted so far.\<close>

fun context_lines :: "nat \<Rightarrow> string \<Rightarrow> 'j recall_item list \<Rightarrow> string \<times> nat \<Rightarrow> string \<times> nat" where
  "context_lines max_tokens template [] acc = acc"
| "context_lines max_tokens template (it # items) (output, tokens) =
     (let line = context_line template it; n = estimate_tokens line in
      if max_tokens < tokens + n then (output, tokens)
      else context_lines max_tokens template items (output @ line @ [nl], tokens + n))"

definition context_header :: "context_options \<Rightarrow> string" where
  "context_header co =
     (case co_header co of None \<Rightarrow> [] | Some h \<Rightarrow> if h = [] then [] else h @ [nl])"

definition context_footer :: "context_options \<Rightarrow> nat \<Rightarrow> string" where
  "context_footer co tokens =
     (case co_footer co of None \<Rightarrow> []
      | Some f \<Rightarrow> if f \<noteq> [] \<and> tokens + estimate_tokens f \<le> co_max_tokens co then f else [])"

definition format_items :: "context_options \<Rightarrow> 'j recall_item list \<Rightarrow> string" where
  "format_items co items =
     (let header = context_header co in
      case context_lines (co_max_tokens co) (co_template co) items (header, estimate_tokens header) of
        (output, tokens) \<Rightarrow> output @ context_footer co tokens)"

definition ms_format_context ::
  "'j store_env \<Rightarrow> ('ix, 'j) index_ops \<Rightarrow> sql_faults \<Rightarrow> sql_faults \<Rightarrow> i64 \<Rightarrow> 'j recall_request \<Rightarrow> context_options
    \<Rightarrow> 'ix memory_store \<Rightarrow> string mresult" where
  "ms_format_context E ops sf_fts sf_get now rc co ms =
     obind (context_validate co) (\<lambda>_.
     obind (ms_recall E ops sf_fts sf_get now rc ms) (\<lambda>resp. Ok (format_items co (rr_items resp))))"

section \<open>Backup\<close>

record backup_plan =
  bp_mkdir :: "string option"
  bp_clear :: "string option"
  bp_path :: string
  bp_sql :: sql_faults
  bp_world :: index_world

text \<open>The copies a backup makes: the database, and the segments in the target directory.\<close>

definition ms_backup ::
  "'j store_env \<Rightarrow> ('ix, 'j) index_ops \<Rightarrow> backup_plan \<Rightarrow> data_dir \<Rightarrow> 'ix memory_store
    \<Rightarrow> 'ix memory_store \<times> (database \<times> data_dir) mresult" where
  "ms_backup E ops bp target ms =
     (case bp_mkdir bp of
        Some e \<Rightarrow> (ms, Err (io_failure ''Failed to create backup target directory: '' e))
      | None \<Rightarrow>
     (case bp_clear bp of
        Some e \<Rightarrow> (ms, Err (io_failure ''Failed to clear target db file: '' e))
      | None \<Rightarrow>
          and_then (ms, repo_backup E (bp_sql bp) (bp_path bp) (ms_db ms)) (\<lambda>ms copy.
          and_then (on_journal (on_index (io_backup ops (bp_world bp) target)) ms) (\<lambda>ms1 dir.
          (ms1, Ok (copy, dir))))))"

end
