(* ===== verification/Recall_Safety.thy ===== *)
theory Recall_Safety
  imports Memory_Store Journal_Safety
begin

text \<open>
  Recall: what the candidates are, what is kept of them, and what each of the two ways of choosing
  returns.
\<close>

section \<open>Candidates\<close>

lemma rrf_add_keys: "fst ` set (rrf_add scores (n, i)) = insert i (fst ` set scores)"
  by (simp add: rrf_add_def dom_update)

lemma rrf_add_distinct: "distinct (map fst scores) \<Longrightarrow> distinct (map fst (rrf_add scores ri))"
  by (cases ri) (simp add: rrf_add_def AList.distinct_update)

lemma rrf_fold:
  "distinct (map fst scores) \<Longrightarrow>
    distinct (map fst (foldl rrf_add scores ris)) \<and> fst ` set (foldl rrf_add scores ris) = snd ` set ris \<union> fst ` set scores"
proof (induction ris arbitrary: scores)
  case Nil
  then show ?case by simp
next
  case (Cons ri ris)
  obtain n i where ri: "ri = (n, i)" by fastforce
  from Cons.IH [OF rrf_add_distinct [OF Cons.prems]] show ?case by (auto simp: ri rrf_add_keys)
qed

lemma snd_enumerated: "snd ` set (zip [0..<length xs] xs) = set xs"
  by (metis length_map map_nth map_snd_zip set_map)

lemma rrf_scores_keys:
  "distinct (map fst (rrf_scores vec fts))" "fst ` set (rrf_scores vec fts) = set vec \<union> set fts"
proof -
  let ?s = "foldl rrf_add [] (zip [0..<length vec] vec)"
  have s: "distinct (map fst ?s) \<and> fst ` set ?s = set vec"
    using rrf_fold [of "[]" "zip [0..<length vec] vec"] by (simp add: snd_enumerated)
  then show "distinct (map fst (rrf_scores vec fts))" "fst ` set (rrf_scores vec fts) = set vec \<union> set fts"
    using rrf_fold [of ?s "zip [0..<length fts] fts"] by (auto simp: rrf_scores_def snd_enumerated)
qed

lemma sort_desc_mset: "sort_desc key xs = Ok ys \<Longrightarrow> mset ys = mset xs"
  by (auto simp: sort_desc_def split: if_splits)

lemma sort_desc_sorted: "sort_desc key xs = Ok ys \<Longrightarrow> sorted (map (\<lambda>x. - f_key (key x)) ys)"
  by (auto simp: sort_desc_def split: if_splits)

lemma candidate_ids_facts:
  assumes "candidate_ids E vec fts = Ok is" "env_ok E"
  shows "distinct is" "set is = set vec \<union> set fts"
proof -
  let ?ks = "map fst (rrf_scores vec fts)"
  have "mset is = mset (ev_keys E ?ks)" using assms(1) by (auto simp: candidate_ids_def Let_def dest: sort_desc_mset)
  then have m: "mset is = mset ?ks" using assms(2) by (simp add: env_ok_def)
  show "distinct is" using mset_eq_imp_distinct_iff [OF m] rrf_scores_keys(1) by simp
  show "set is = set vec \<union> set fts" using mset_eq_set [OF m] rrf_scores_keys(2) [of vec fts] by simp
qed

section \<open>The candidates that are kept\<close>

lemma repo_get_no_faults: "repo_get E sf sc i db = Ok x \<Longrightarrow> repo_get E no_faults sc i db = Ok x"
  by (auto simp: repo_get_def first_record_def outcome_iff no_faults_def split: option.splits)

lemma repo_get_id: "repo_get E sf sc i db = Ok (Some rec) \<Longrightarrow> env_ok E \<Longrightarrow> mr_id rec = i"
  by (elim repo_get_Some) (auto simp: record_of_row_def outcome_iff)

text \<open>An item is the scored record that a scoped read gives for its id.\<close>

definition recalled ::
  "'j store_env \<Rightarrow> 'j recall_request \<Rightarrow> string list \<Rightarrow> string list \<Rightarrow> i64 \<Rightarrow> database \<Rightarrow> 'j recall_item \<Rightarrow> bool" where
  "recalled E rc vec fts now db it \<longleftrightarrow>
     repo_get E no_faults (rc_scope rc) (mr_id (ri_memory it)) db = Ok (Some (ri_memory it))
     \<and> recall_keeps now (rc_filters rc) (ri_memory it) \<and> scored_item E rc vec fts now (ri_memory it) = Ok it"

lemma scored_item_memory: "scored_item E rc vec fts now rec = Ok it \<Longrightarrow> ri_memory it = rec"
  by (auto simp: scored_item_def Let_def split: if_splits)

lemma recall_step_cases:
  assumes "recall_step E sf rc vec fts now db items i = Ok items'"
  obtains "items' = items" "\<And>rec. repo_get E no_faults (rc_scope rc) i db = Ok (Some rec) \<Longrightarrow> \<not> recall_keeps now (rc_filters rc) rec"
  | rec it where "items' = items @ [it]" "repo_get E no_faults (rc_scope rc) i db = Ok (Some rec)"
      "recall_keeps now (rc_filters rc) rec" "scored_item E rc vec fts now rec = Ok it"
proof -
  obtain found where f: "repo_get E sf (rc_scope rc) i db = Ok found"
    using assms by (auto simp: recall_step_def outcome_iff)
  note g = repo_get_no_faults [OF f]
  show thesis
  proof (cases found)
    case None
    then show thesis using assms f g that(1) by (simp add: recall_step_def)
  next
    case (Some rec)
    show thesis
    proof (cases "recall_keeps now (rc_filters rc) rec")
      case True
      then obtain it where "scored_item E rc vec fts now rec = Ok it" "items' = items @ [it]"
        using assms f Some by (auto simp: recall_step_def outcome_iff)
      then show thesis using that(2) g Some True by simp
    next
      case False
      then show thesis using assms f g Some that(1) by (simp add: recall_step_def)
    qed
  qed
qed

text \<open>The loop keeps, in order, exactly the candidates whose record is visible and passes.\<close>

definition passes :: "'j store_env \<Rightarrow> 'j recall_request \<Rightarrow> i64 \<Rightarrow> database \<Rightarrow> string \<Rightarrow> bool" where
  "passes E rc now db i \<longleftrightarrow>
     (\<exists>rec. repo_get E no_faults (rc_scope rc) i db = Ok (Some rec) \<and> recall_keeps now (rc_filters rc) rec)"

lemma recall_fold:
  assumes "ofold (recall_step E sf rc vec fts now db) items is = Ok items'" "env_ok E"
    and "\<forall>it\<in>set items. recalled E rc vec fts now db it"
  shows "(\<forall>it\<in>set items'. recalled E rc vec fts now db it)
    \<and> map (\<lambda>it. mr_id (ri_memory it)) items' = map (\<lambda>it. mr_id (ri_memory it)) items @ filter (passes E rc now db) is"
  using assms(1,3)
proof (induction "is" arbitrary: items)
  case Nil
  then show ?case by simp
next
  case (Cons i "is")
  from Cons.prems(1) obtain mid where s: "recall_step E sf rc vec fts now db items i = Ok mid"
    and r: "ofold (recall_step E sf rc vec fts now db) mid is = Ok items'" by (auto simp: outcome_iff)
  from s show ?case
  proof (rule recall_step_cases)
    assume "mid = items" and no: "\<And>rec. repo_get E no_faults (rc_scope rc) i db = Ok (Some rec) \<Longrightarrow> \<not> recall_keeps now (rc_filters rc) rec"
    moreover have "\<not> passes E rc now db i" using no by (auto simp: passes_def)
    ultimately show ?thesis using Cons.IH [of items] r Cons.prems(2) by simp
  next
    fix rec it assume mid: "mid = items @ [it]" and get: "repo_get E no_faults (rc_scope rc) i db = Ok (Some rec)"
      and keep: "recall_keeps now (rc_filters rc) rec" and sc: "scored_item E rc vec fts now rec = Ok it"
    have m: "ri_memory it = rec" by (rule scored_item_memory [OF sc])
    have id: "mr_id rec = i" by (rule repo_get_id [OF get assms(2)])
    have "recalled E rc vec fts now db it" using get keep sc by (simp add: recalled_def m id)
    moreover have "passes E rc now db i" using get keep by (auto simp: passes_def)
    ultimately show ?thesis using Cons.IH [of mid] r Cons.prems(2) by (simp add: mid m id)
  qed
qed

lemma recall_Ok:
  assumes "ms_recall E ops sf_fts sf_get now rc ms = Ok resp"
  obtains hits fts ids items chosen where
    "io_search ops (rc_query rc) (min (rc_limit rc) (cg_max_recall (ms_config ms)) * 3) (jn_index (ms_journal ms)) = Ok hits"
    "(case rc_text rc of None \<Rightarrow> Ok [] | Some text \<Rightarrow> repo_search_fts E sf_fts (rc_scope rc) text (rc_filters rc)
        (min (rc_limit rc) (cg_max_recall (ms_config ms)) * 3) (ms_db ms)) = Ok fts"
    "candidate_ids E (map fst hits) fts = Ok ids"
    "ofold (recall_step E sf_get rc (map fst hits) fts now (ms_db ms)) [] ids = Ok items"
    "choose_items rc items = Ok chosen" "resp = \<lparr> rr_items = chosen, rr_total = length chosen \<rparr>"
proof -
  let ?limit = "min (rc_limit rc) (cg_max_recall (ms_config ms)) * 3"
  have n: "(2 ^ 64 \<le> ?limit) = False" using assms by (auto simp: ms_recall_def Let_def outcome_iff)
  show thesis using assms unfolding ms_recall_def Let_def obind_Ok_iff n if_False
    by (elim exE conjE) (rule that, assumption+, simp)
qed

section \<open>Maximal marginal relevance\<close>

text \<open>The scan finds a candidate that no other beats.\<close>

lemma mmr_scan:
  assumes "best = foldl (mmr_better lambda selected) (b, s) ics"
  shows "(best = (b, s) \<or> f_lt s (snd best) \<and> (\<exists>ic\<in>set ics. best = (fst ic, mmr_score lambda selected (snd ic))))
    \<and> (\<forall>ic\<in>set ics. \<not> f_lt (snd best) (mmr_score lambda selected (snd ic)))"
  using assms
proof (induction ics arbitrary: b s)
  case Nil
  then show ?case by simp
next
  case (Cons ic ics)
  let ?c = "mmr_score lambda selected (snd ic)"
  have fold: "best = foldl (mmr_better lambda selected) (if f_lt s ?c then (fst ic, ?c) else (b, s)) ics"
    using Cons.prems unfolding foldl_Cons mmr_better_def [of lambda selected "(b, s)" ic] Let_def by simp
  show ?case
  proof (cases "f_lt s ?c")
    case True
    from Cons.IH [of "fst ic" ?c] fold True
    have ih: "best = (fst ic, ?c) \<or> f_lt ?c (snd best) \<and> (\<exists>ic\<in>set ics. best = (fst ic, mmr_score lambda selected (snd ic)))"
      "\<forall>ic\<in>set ics. \<not> f_lt (snd best) (mmr_score lambda selected (snd ic))" by simp_all
    then have "f_lt s (snd best)" "\<not> f_lt (snd best) ?c" using True f_lt_trans f_lt_irrefl by (metis snd_conv)+
    then show ?thesis using ih by auto
  next
    case False
    from Cons.IH [of b s] fold False
    have ih: "best = (b, s) \<or> f_lt s (snd best) \<and> (\<exists>ic\<in>set ics. best = (fst ic, mmr_score lambda selected (snd ic)))"
      "\<forall>ic\<in>set ics. \<not> f_lt (snd best) (mmr_score lambda selected (snd ic))" by simp_all
    then have "\<not> f_lt (snd best) ?c" using False f_lt_trans by (metis snd_conv)
    then show ?thesis using ih by auto
  qed
qed

lemma f_neg_inf_least: "\<not> is_nan x \<Longrightarrow> f_key f_neg_inf \<le> f_key x"
  by (simp add: f_key_def is_nan_def)

lemma f_lt_neg_inf: "\<not> f_lt f_neg_inf y \<Longrightarrow> \<not> f_lt x y"
proof
  assume "\<not> f_lt f_neg_inf y" "f_lt x y"
  moreover have "\<not> is_nan f_neg_inf" by (simp add: is_nan_def)
  ultimately show False using f_neg_inf_least [of x] by (simp add: f_lt_def)
qed

lemma mmr_best_max:
  assumes "remaining \<noteq> []" "c \<in> set remaining"
  shows "\<not> f_lt (mmr_score lambda selected (remaining ! mmr_best lambda selected remaining)) (mmr_score lambda selected c)"
proof -
  let ?ics = "zip [0..<length remaining] remaining" let ?s = "mmr_score lambda selected"
  define best where "best = foldl (mmr_better lambda selected) (0, f_neg_inf) ?ics"
  from mmr_scan [OF best_def]
  have b: "best = (0, f_neg_inf) \<or> f_lt f_neg_inf (snd best) \<and> (\<exists>ic\<in>set ?ics. best = (fst ic, ?s (snd ic)))"
    and none: "\<forall>ic\<in>set ?ics. \<not> f_lt (snd best) (?s (snd ic))" by simp_all
  have none: "\<not> f_lt (snd best) (?s c)" if "c \<in> set remaining" for c
  proof -
    have "c \<in> snd ` set ?ics" using that by (simp only: snd_enumerated)
    then show ?thesis using none by blast
  qed
  have i: "mmr_best lambda selected remaining = fst best" by (simp add: mmr_best_def best_def)
  show ?thesis
  proof (cases "best = (0, f_neg_inf)")
    case True
    then have "\<not> f_lt f_neg_inf (?s c)" using none [OF assms(2)] by simp
    then show ?thesis by (rule f_lt_neg_inf)
  next
    case False
    then obtain ic where ic: "ic \<in> set ?ics" "best = (fst ic, ?s (snd ic))" using b by blast
    then have "remaining ! fst ic = snd ic" by (auto simp: set_zip)
    then have "snd best = ?s (remaining ! mmr_best lambda selected remaining)" unfolding i ic(2) fst_conv snd_conv by simp
    with none [OF assms(2)] show ?thesis by simp
  qed
qed

text \<open>The selection extends what is selected by distinct candidates, each unbeaten when it is chosen.\<close>

lemma mmr_select_spec:
  "\<exists>xs rest. mmr_select lambda limit selected remaining = selected @ xs \<and> mset (xs @ rest) = mset remaining
    \<and> length xs = min (limit - length selected) (length remaining)
    \<and> (\<forall>k<length xs. \<forall>c\<in>set (drop k xs @ rest).
        \<not> f_lt (mmr_score lambda (selected @ take k xs) (xs ! k)) (mmr_score lambda (selected @ take k xs) c))"
proof (induction lambda limit selected remaining rule: mmr_select.induct)
  case (1 lambda limit selected remaining)
  show ?case
  proof (cases "remaining \<noteq> [] \<and> length selected < limit")
    case False
    then have "mmr_select lambda limit selected remaining = selected" by (subst mmr_select.simps) (simp only: if_False)
    then show ?thesis using False by (intro exI [of _ "[]"] exI [of _ remaining]) auto
  next
    case True
    let ?b = "mmr_best lambda selected remaining" let ?x = "remaining ! ?b"
    let ?left = "take ?b remaining @ drop (Suc ?b) remaining"
    have lt: "?b < length remaining" using True mmr_best_lt by blast
    from 1 [OF True refl] obtain xs rest
      where sel: "mmr_select lambda limit (selected @ [?x]) ?left = (selected @ [?x]) @ xs"
        and m: "mset (xs @ rest) = mset ?left" and len: "length xs = min (limit - length (selected @ [?x])) (length ?left)"
        and best: "\<forall>k<length xs. \<forall>c\<in>set (drop k xs @ rest).
          \<not> f_lt (mmr_score lambda ((selected @ [?x]) @ take k xs) (xs ! k)) (mmr_score lambda ((selected @ [?x]) @ take k xs) c)"
      by blast
    have "mset remaining = add_mset ?x (mset ?left)"
      using arg_cong [OF id_take_nth_drop [OF lt], of mset] by simp
    then have m': "mset ((?x # xs) @ rest) = mset remaining" using m by simp
    have l: "length ?left = length remaining - 1" using lt by simp
    have "\<not> f_lt (mmr_score lambda (selected @ take k (?x # xs)) ((?x # xs) ! k)) (mmr_score lambda (selected @ take k (?x # xs)) c)"
      if "k < length (?x # xs)" "c \<in> set (drop k (?x # xs) @ rest)" for k c
    proof (cases k)
      case 0
      then have "c \<in> set ((?x # xs) @ rest)" using that(2) by simp
      then have "c \<in> set remaining" unfolding mset_eq_set [OF m'] .
      from mmr_best_max [OF _ this, of lambda selected] True 0 show ?thesis by simp
    next
      case (Suc j)
      then show ?thesis using that best by simp
    qed
    moreover have "length (?x # xs) = min (limit - length selected) (length remaining)"
      using len l lt True by (cases "length remaining") (auto simp: min_def)
    moreover have "mmr_select lambda limit selected remaining = selected @ (?x # xs)"
      by (subst mmr_select.simps) (use True sel in \<open>simp add: Let_def\<close>)
    ultimately show ?thesis using m' by blast
  qed
qed

lemma choose_items_sub:
  assumes "choose_items rc items = Ok chosen"
  shows "\<exists>rest. mset (chosen @ rest) = mset items" "length chosen = min (rc_limit rc) (length items)"
proof -
  have "(\<exists>rest. mset (chosen @ rest) = mset items) \<and> length chosen = min (rc_limit rc) (length items)"
  proof (cases "rc_lambda rc")
    case None
    then obtain sorted where s: "sort_desc ri_score items = Ok sorted" "chosen = take (rc_limit rc) sorted"
      using assms by (auto simp: choose_items_def outcome_iff)
    have m: "mset sorted = mset items" by (rule sort_desc_mset [OF s(1)])
    then have "mset (chosen @ drop (rc_limit rc) sorted) = mset items" by (simp add: s(2) flip: mset_append)
    moreover have "length chosen = min (rc_limit rc) (length items)" using mset_eq_len [OF m] by (simp add: s(2) min.commute)
    ultimately show ?thesis by blast
  next
    case (Some lambda)
    then show ?thesis using assms mmr_select_spec [of lambda "rc_limit rc" "[]" items]
      by (auto simp: choose_items_def)
  qed
  then show "\<exists>rest. mset (chosen @ rest) = mset items" "length chosen = min (rc_limit rc) (length items)" by auto
qed

section \<open>Properties\<close>

text \<open>What passes the conditions of a recall, condition by condition.\<close>

lemma recall_keeps_iff:
  "recall_keeps now fl rec \<longleftrightarrow> mr_status rec = StActive \<and> (\<forall>t. mr_expires rec = Some t \<longrightarrow> sint now < sint t)
    \<and> (\<forall>kinds. fl_kinds fl = Some kinds \<longrightarrow> mr_kind rec \<in> set kinds)
    \<and> (\<forall>x. fl_importance fl = Some x \<longrightarrow> \<not> f_lt (mr_importance rec) x)
    \<and> (\<forall>conds. fl_metadata fl = Some conds \<longrightarrow> (\<forall>(key, val)\<in>set conds. mr_metadata rec key = Some val))"
  by (auto simp: recall_keeps_def unexpired_def filter_keeps_def list_all_iff not_le split: option.splits)

text \<open>C5: Recall never crosses a tenant or a namespace and never returns what it should not. Every item of a
  response is the record that a scoped read returns for its id: of the tenant and the namespace of the
  request, active, unexpired at the time of the call, of one of the kinds asked for, not below the
  importance asked for, and with the value asked for under every metadata key; no memory occurs twice,
  there are at most \<open>limit\<close> items, and \<open>total_candidates\<close> is their number. The agent and the user of the
  request's scope restrict nothing.\<close>

theorem recall_sound:
  assumes "ms_recall E ops sf_fts sf_get now rc ms = Ok resp" "env_ok E" "(db_step E)\<^sup>*\<^sup>* empty_db (ms_db ms)"
  shows "distinct (map (\<lambda>it. mr_id (ri_memory it)) (rr_items resp))
    \<and> length (rr_items resp) \<le> rc_limit rc \<and> rr_total resp = length (rr_items resp)
    \<and> (\<forall>it\<in>set (rr_items resp).
         repo_get E no_faults (rc_scope rc) (mr_id (ri_memory it)) (ms_db ms) = Ok (Some (ri_memory it))
         \<and> sc_tenant (mr_scope (ri_memory it)) = sc_tenant (rc_scope rc)
         \<and> sc_namespace (mr_scope (ri_memory it)) = sc_namespace (rc_scope rc)
         \<and> mr_status (ri_memory it) = StActive \<and> (\<forall>t. mr_expires (ri_memory it) = Some t \<longrightarrow> sint now < sint t)
         \<and> (\<forall>kinds. fl_kinds (rc_filters rc) = Some kinds \<longrightarrow> mr_kind (ri_memory it) \<in> set kinds)
         \<and> (\<forall>x. fl_importance (rc_filters rc) = Some x \<longrightarrow> \<not> f_lt (mr_importance (ri_memory it)) x)
         \<and> (\<forall>conds. fl_metadata (rc_filters rc) = Some conds \<longrightarrow>
              (\<forall>(key, val)\<in>set conds. mr_metadata (ri_memory it) key = Some val)))"
proof -
  obtain hits fts ids items chosen where
      "io_search ops (rc_query rc) (min (rc_limit rc) (cg_max_recall (ms_config ms)) * 3) (jn_index (ms_journal ms)) = Ok hits"
      "(case rc_text rc of None \<Rightarrow> Ok [] | Some text \<Rightarrow> repo_search_fts E sf_fts (rc_scope rc) text (rc_filters rc)
        (min (rc_limit rc) (cg_max_recall (ms_config ms)) * 3) (ms_db ms)) = Ok fts"
    and ids: "candidate_ids E (map fst hits) fts = Ok ids"
    and items: "ofold (recall_step E sf_get rc (map fst hits) fts now (ms_db ms)) [] ids = Ok items"
    and chosen: "choose_items rc items = Ok chosen" "resp = \<lparr> rr_items = chosen, rr_total = length chosen \<rparr>"
    using assms(1) by (rule recall_Ok)
  from recall_fold [OF items assms(2)]
  have all: "\<forall>it\<in>set items. recalled E rc (map fst hits) fts now (ms_db ms) it"
    and names: "map (\<lambda>it. mr_id (ri_memory it)) items = filter (passes E rc now (ms_db ms)) ids" by simp_all
  obtain rest where m: "mset (chosen @ rest) = mset items" using choose_items_sub(1) [OF chosen(1)] by blast
  have "distinct (map (\<lambda>it. mr_id (ri_memory it)) items)"
    unfolding names using candidate_ids_facts(1) [OF ids assms(2)] by simp
  moreover have "mset (map (\<lambda>it. mr_id (ri_memory it)) (chosen @ rest)) = mset (map (\<lambda>it. mr_id (ri_memory it)) items)"
    using m by (simp only: mset_map)
  ultimately have "distinct (map (\<lambda>it. mr_id (ri_memory it)) (chosen @ rest))" using mset_eq_imp_distinct_iff by blast
  then have d: "distinct (map (\<lambda>it. mr_id (ri_memory it)) chosen)" by simp
  have "set chosen \<subseteq> set items" using mset_eq_set [OF m] by auto
  then have r: "\<forall>it\<in>set chosen. recalled E rc (map fst hits) fts now (ms_db ms) it" using all by blast
  have inv: "db_inv (ms_db ms)" by (rule reachable_inv [OF assms(3) empty_db_inv])
  have scope: "sc_tenant (mr_scope rec) = sc_tenant sc \<and> sc_namespace (mr_scope rec) = sc_namespace sc"
    if "repo_get E no_faults sc i (ms_db ms) = Ok (Some rec)" for sc i rec
    using that assms(2)
  proof (rule repo_get_Some)
    fix r assume "r \<in> set (db_memories (ms_db ms))" "in_scope sc r" "record_of_row E StPending r = Ok rec"
    then show ?thesis using inv
      by (auto simp: db_inv_def in_scope_def row_scope_def elim!: record_of_row_ok [of r E StPending])
  qed
  show ?thesis using d choose_items_sub(2) [OF chosen(1)] r scope unfolding recalled_def recall_keeps_iff
    by (simp add: chosen(2)) blast
qed

text \<open>A store with one active memory, and a request that finds it.\<close>

definition demo_active :: database where
  "demo_active = demo_db\<lparr> db_memories := [row_of_record demo_env (demo_rec\<lparr> mr_status := StActive \<rparr>)],
     db_fts := [fts_of demo_row], db_ops := [op_row_of ''op'' ''a'' ''remember'' ''{}'' ''applied'' 5 (Some 9)] \<rparr>"

lemma demo_active_reachable: "(db_step demo_env)\<^sup>*\<^sup>* empty_db demo_active"
proof -
  let ?d = "demo_crashed\<lparr> db_memories := [row_of_record demo_env (demo_rec\<lparr> mr_status := StActive \<rparr>)] \<rparr>"
  have 1: "repo_set_status demo_env no_faults ''a'' StActive demo_crashed = (?d, Ok ())"
    by (simp add: repo_set_status_def transact_def update_rows_def demo_crashed_def row_status_record demo_fields demo_db_def
      fts_update_def fts_insert_def fts_delete_def)
  have 2: "repo_mark_applied demo_env no_faults ''op'' 9 ?d = (demo_active, Ok ())"
    by (simp add: repo_mark_applied_def transact_def update_ops_def demo_crashed_def demo_active_def op_row_of_def apply_op_def demo_db_def)
  show ?thesis using demo_crashed_reachable set_one [OF 1] mark_one [OF 2]
    by (meson rtranclp.rtrancl_into_rtrancl)
qed

definition demo_store :: "test_index memory_store" where
  "demo_store = \<lparr> ms_config = \<lparr> cg_path = ''db'', cg_dims = 1, cg_model = ''m'', cg_max_recall = 100 \<rparr>,
     ms_journal = \<lparr> jn_db = demo_active, jn_index = \<lparr> ti_dims = 1, ti_vectors = [(''a'', [f_one])] \<rparr> \<rparr> \<rparr>"

definition demo_request :: "f32 option \<Rightarrow> string recall_request" where
  "demo_request lambda = \<lparr> rc_scope = demo_scope, rc_query = [f_one], rc_text = None, rc_limit = 5,
     rc_filters = filter_default, rc_explain = False, rc_lambda = lambda \<rparr>"

lemma demo_store_db: "ms_db demo_store = demo_active"
  by (simp add: ms_db_def demo_store_def)

lemma demo_get: "repo_get demo_env no_faults demo_scope ''a'' demo_active = Ok (Some (demo_rec\<lparr> mr_status := StActive \<rparr>))"
  using demo_read [of StPending StActive]
  by (simp add: repo_get_def first_record_def demo_scan demo_active_def row_status_record demo_fields in_scope_def)
    (simp add: row_of_record_def demo_record_def)

lemma demo_search:
  "io_search (test_ops id) (rc_query (demo_request None)) 15 (jn_index (ms_journal demo_store)) = Ok [(''a'', cosine [f_one] [f_one])]"
  by (simp add: test_ops_def ti_search_def demo_store_def demo_request_def sort_by_dist_def)

lemma demo_candidates: "candidate_ids demo_env [''a''] [] = Ok [''a'']"
  by (simp add: candidate_ids_def rrf_scores_def rrf_add_def sort_desc_def Let_def demo_env_def)

lemma demo_recall:
  "\<exists>it. ms_recall demo_env (test_ops id) no_faults no_faults 10 (demo_request None) demo_store
      = Ok \<lparr> rr_items = [it], rr_total = 1 \<rparr> \<and> ri_memory it = demo_rec\<lparr> mr_status := StActive \<rparr>"
proof -
  let ?rec = "demo_rec\<lparr> mr_status := StActive \<rparr>"
  obtain it where it: "scored_item demo_env (demo_request None) [''a''] [] 10 ?rec = Ok it" "ri_memory it = ?rec"
    by (simp add: scored_item_def Let_def demo_record_def)
  have get: "repo_get demo_env no_faults (rc_scope (demo_request None)) ''a'' (ms_db demo_store) = Ok (Some ?rec)"
    using demo_get by (simp add: demo_store_db demo_request_def)
  have keep: "recall_keeps 10 (rc_filters (demo_request None)) ?rec"
    by (simp add: recall_keeps_def unexpired_def filter_keeps_def filter_default_def demo_request_def demo_record_def)
  have fold: "recall_step demo_env no_faults (demo_request None) [''a''] [] 10 (ms_db demo_store) [] ''a'' = Ok [it]"
    by (simp add: recall_step_def get keep it(1))
  have validated: "recall_validate (demo_request None) (cg_dims (ms_config demo_store)) = Ok ()"
    by (simp add: recall_validate_def demo_request_def demo_store_def)
  have limit: "min (rc_limit (demo_request None)) (cg_max_recall (ms_config demo_store)) * 3 = 15"
    by (simp add: demo_request_def demo_store_def)
  have choose: "choose_items (demo_request None) [it] = Ok [it]"
    by (simp add: choose_items_def demo_request_def sort_desc_def)
  have plain: "rc_text (demo_request None) = None" by (simp add: demo_request_def)
  have "ms_recall demo_env (test_ops id) no_faults no_faults 10 (demo_request None) demo_store
      = Ok \<lparr> rr_items = [it], rr_total = 1 \<rparr>"
    unfolding ms_recall_def Let_def limit
    by (simp add: validated demo_search demo_candidates fold choose plain)
  then show ?thesis using it(2) by blast
qed

theorem recall_sound_witness:
  "\<exists>resp. ms_recall demo_env (test_ops id) no_faults no_faults 10 (demo_request None) demo_store = Ok resp
    \<and> map (\<lambda>it. mr_id (ri_memory it)) (rr_items resp) = [''a''] \<and> length (rr_items resp) \<le> 5"
proof -
  obtain it where r: "ms_recall demo_env (test_ops id) no_faults no_faults 10 (demo_request None) demo_store
      = Ok \<lparr> rr_items = [it], rr_total = 1 \<rparr>" and it: "ri_memory it = demo_rec\<lparr> mr_status := StActive \<rparr>"
    using demo_recall by blast
  have reach: "(db_step demo_env)\<^sup>*\<^sup>* empty_db (ms_db demo_store)"
    unfolding demo_store_db by (rule demo_active_reachable)
  from recall_sound [OF r demo_env_ok reach] r show ?thesis
    by (simp add: it demo_record_def demo_request_def)
qed

lemma taken_or_later:
  assumes "sorted (map f xs)" "x \<in> set xs"
  shows "x \<in> set (take k xs) \<or> length (take k xs) = k \<and> (\<forall>y\<in>set (take k xs). f y \<le> f x)"
proof (cases "x \<in> set (take k xs)")
  case False
  then have x: "x \<in> set (drop k xs)" using assms(2) by (metis Un_iff append_take_drop_id set_append)
  then have "length (take k xs) = k" by (cases "length xs \<le> k") auto
  then show ?thesis using sorted_take_le_drop [OF assms(1) _ x] by blast
qed simp

text \<open>C23: Without diversity, recall returns the best: the items are in descending order of score, and every
  candidate of the vector search or the full-text search that is visible and passes the conditions is
  either in the response or, the response being full, scores no higher than anything in it.\<close>

theorem recall_takes_best:
  assumes "ms_recall E ops sf_fts sf_get now rc ms = Ok resp" "env_ok E" "rc_lambda rc = None"
    and "io_search ops (rc_query rc) (min (rc_limit rc) (cg_max_recall (ms_config ms)) * 3) (jn_index (ms_journal ms)) = Ok hits"
    and "(case rc_text rc of None \<Rightarrow> Ok [] | Some text \<Rightarrow> repo_search_fts E sf_fts (rc_scope rc) text (rc_filters rc)
        (min (rc_limit rc) (cg_max_recall (ms_config ms)) * 3) (ms_db ms)) = Ok fts"
  shows "sorted (map (\<lambda>it. - f_key (ri_score it)) (rr_items resp))
    \<and> (\<forall>i\<in>fst ` set hits \<union> set fts. passes E rc now (ms_db ms) i \<longrightarrow>
        i \<in> (\<lambda>it. mr_id (ri_memory it)) ` set (rr_items resp)
        \<or> length (rr_items resp) = rc_limit rc
          \<and> (\<exists>it. mr_id (ri_memory it) = i \<and> recalled E rc (map fst hits) fts now (ms_db ms) it
               \<and> (\<forall>x\<in>set (rr_items resp). f_key (ri_score it) \<le> f_key (ri_score x))))"
proof -
  obtain hits' fts' ids items chosen where
      h: "io_search ops (rc_query rc) (min (rc_limit rc) (cg_max_recall (ms_config ms)) * 3) (jn_index (ms_journal ms)) = Ok hits'"
      "(case rc_text rc of None \<Rightarrow> Ok [] | Some text \<Rightarrow> repo_search_fts E sf_fts (rc_scope rc) text (rc_filters rc)
        (min (rc_limit rc) (cg_max_recall (ms_config ms)) * 3) (ms_db ms)) = Ok fts'"
    and ids': "candidate_ids E (map fst hits') fts' = Ok ids"
    and items': "ofold (recall_step E sf_get rc (map fst hits') fts' now (ms_db ms)) [] ids = Ok items"
    and chosen: "choose_items rc items = Ok chosen" "resp = \<lparr> rr_items = chosen, rr_total = length chosen \<rparr>"
    using assms(1) by (rule recall_Ok)
  have "hits' = hits" "fts' = fts" using h assms(4,5) by simp_all
  note ids = ids' [unfolded this] and items = items' [unfolded this]
  from recall_fold [OF items assms(2)]
  have all: "\<forall>it\<in>set items. recalled E rc (map fst hits) fts now (ms_db ms) it"
    and names: "map (\<lambda>it. mr_id (ri_memory it)) items = filter (passes E rc now (ms_db ms)) ids" by simp_all
  obtain srt where srt: "sort_desc ri_score items = Ok srt" and c: "chosen = take (rc_limit rc) srt"
    using chosen(1) assms(3) by (auto simp: choose_items_def outcome_iff)
  note s = sort_desc_sorted [OF srt] and m = sort_desc_mset [OF srt]
  have "sorted (map (\<lambda>it. - f_key (ri_score it)) chosen)" unfolding c by (rule take_sorted_key [OF s])
  moreover have "i \<in> (\<lambda>it. mr_id (ri_memory it)) ` set chosen \<or> length chosen = rc_limit rc
      \<and> (\<exists>it. mr_id (ri_memory it) = i \<and> recalled E rc (map fst hits) fts now (ms_db ms) it
           \<and> (\<forall>x\<in>set chosen. f_key (ri_score it) \<le> f_key (ri_score x)))"
    if i: "i \<in> fst ` set hits \<union> set fts" "passes E rc now (ms_db ms) i" for i
  proof -
    have "i \<in> set (filter (passes E rc now (ms_db ms)) ids)" using i candidate_ids_facts(2) [OF ids assms(2)] by simp
    then obtain it where it: "it \<in> set items" "mr_id (ri_memory it) = i" unfolding names [symmetric] by auto
    then have "it \<in> set srt" using mset_eq_set [OF m] by simp
    from taken_or_later [OF s this, of "rc_limit rc"] show ?thesis using it all unfolding c by auto
  qed
  ultimately show ?thesis by (auto simp: chosen(2))
qed

theorem recall_takes_best_witness:
  "\<exists>it. ms_recall demo_env (test_ops id) no_faults no_faults 10 (demo_request None) demo_store
      = Ok \<lparr> rr_items = [it], rr_total = 1 \<rparr> \<and> sorted (map (\<lambda>it. - f_key (ri_score it)) [it])
    \<and> (''a'' \<in> (\<lambda>it. mr_id (ri_memory it)) ` set [it] \<or> length [it] = 5)"
proof -
  obtain it where r: "ms_recall demo_env (test_ops id) no_faults no_faults 10 (demo_request None) demo_store
      = Ok \<lparr> rr_items = [it], rr_total = 1 \<rparr>" using demo_recall by blast
  have limit: "min (rc_limit (demo_request None)) (cg_max_recall (ms_config demo_store)) * 3 = 15"
    by (simp add: demo_request_def demo_store_def)
  have p: "passes demo_env (demo_request None) 10 (ms_db demo_store) ''a''"
    unfolding passes_def demo_store_db
    by (rule exI [of _ "demo_rec\<lparr> mr_status := StActive \<rparr>"], rule conjI)
      (use demo_get in \<open>simp_all add: demo_request_def recall_keeps_def unexpired_def filter_keeps_def filter_default_def demo_record_def\<close>)
  have l: "rc_lambda (demo_request None) = None" "rc_text (demo_request None) = None" "rc_limit (demo_request None) = 5"
    by (simp_all add: demo_request_def)
  from recall_takes_best [OF r demo_env_ok l(1), unfolded limit, OF demo_search, of "[]"] p r
  show ?thesis by (auto simp: l)
qed

text \<open>C35: Diversity selection ends and is greedy. With an \<open>mmr_lambda\<close> the choice never panics, returns
  \<open>min limit n\<close> of the \<open>n\<close> candidates, none twice, and each of them, when it is chosen, is not beaten by any
  candidate that is still left under the score \<open>lambda * relevance - (1 - lambda) * redundancy\<close> against
  those chosen before it, whatever the floats are.\<close>

theorem mmr_choice_greedy:
  assumes "rc_lambda rc = Some lambda"
  shows "\<exists>xs rest. choose_items rc items = Ok xs \<and> mset (xs @ rest) = mset items
    \<and> length xs = min (rc_limit rc) (length items)
    \<and> (\<forall>k<length xs. \<forall>c\<in>set (drop k xs @ rest).
        \<not> f_lt (mmr_score lambda (take k xs) (xs ! k)) (mmr_score lambda (take k xs) c))"
  using mmr_select_spec [of lambda "rc_limit rc" "[]" items] assms by (auto simp: choose_items_def)

theorem mmr_choice_greedy_witness:
  "\<exists>xs rest. choose_items (demo_request (Some f_one))
      [\<lparr> ri_memory = demo_rec, ri_score = f_one, ri_explanation = None \<rparr>, \<lparr> ri_memory = demo_rec, ri_score = f_two, ri_explanation = None \<rparr>]
      = Ok xs \<and> length xs = 2 \<and> mset (xs @ rest) =
      mset [\<lparr> ri_memory = demo_rec, ri_score = f_one, ri_explanation = None \<rparr>, \<lparr> ri_memory = demo_rec, ri_score = f_two, ri_explanation = None \<rparr>]"
  using mmr_choice_greedy [of "demo_request (Some f_one)" f_one
    "[\<lparr> ri_memory = demo_rec, ri_score = f_one, ri_explanation = None \<rparr>, \<lparr> ri_memory = demo_rec, ri_score = f_two, ri_explanation = None \<rparr>]"]
  by (auto simp: demo_request_def simp del: mset_append)

end
