(* ===== verification/Store_Safety.thy ===== *)
theory Store_Safety
  imports Recall_Safety
begin

text \<open>
  The public operations of the store: what a remember and an update make readable, the budget of a
  formatted context, and what a backup holds.
\<close>

section \<open>Remember, then read\<close>

lemma repo_set_status_Ok:
  "repo_set_status E sf i st db = (d, Ok u) \<Longrightarrow> d = update_rows (\<lambda>r. r_id r = i) (\<lambda>r. r\<lparr> r_status := status_str st \<rparr>) db"
  by (auto simp: repo_set_status_def outcome_iff)

lemma repo_mark_memories: "repo_mark_applied E sf op now db = (d, Ok u) \<Longrightarrow> db_memories d = db_memories db"
  by (auto simp: repo_mark_applied_def outcome_iff update_ops_def)

lemma finish_remember_Ok:
  assumes "finish_remember E ops jf w now rec op st = (st', Ok i)"
  obtains d where "i = mr_id rec" "repo_set_status E (jf 2) (mr_id rec) StActive (jn_db st) = (d, Ok ())"
    "db_memories (jn_db st') = db_memories d"
proof -
  from assms obtain st2 st3 st4 where 2: "on_index (io_upsert ops w (mr_id rec) (mr_embedding rec)) st = (st2, Ok ())"
    and 3: "on_db (repo_set_status E (jf 2) (mr_id rec) StActive) st2 = (st3, Ok ())"
    and 4: "(case op of None \<Rightarrow> (st3, Ok ()) | Some op_id \<Rightarrow> on_db (repo_mark_applied E (jf 3) op_id now) st3) = (st4, Ok ())"
    and i: "st' = st4" "i = mr_id rec"
    unfolding finish_remember_def and_then_Ok_iff by auto
  from 3 obtain d where d: "repo_set_status E (jf 2) (mr_id rec) StActive (jn_db st2) = (d, Ok ())" "st3 = st2\<lparr> jn_db := d \<rparr>"
    unfolding on_db_Ok_iff by blast
  have "db_memories (jn_db st4) = db_memories d"
  proof (cases op)
    case None
    then show ?thesis using 4 d(2) by auto
  next
    case (Some o')
    then obtain d' where "repo_mark_applied E (jf 3) o' now (jn_db st3) = (d', Ok ())" "st4 = st3\<lparr> jn_db := d' \<rparr>"
      using 4 by (auto simp: on_db_Ok_iff)
    then show ?thesis using d(2) by (simp add: repo_mark_memories)
  qed
  then show thesis using that i d(1) on_index_db [OF 2] by simp
qed

lemma remember_Ok_active:
  assumes "coordinate_remember E ops jf w now rec op st = (st', Ok i)"
    and "\<And>o'. op = Some o' \<Longrightarrow> o' \<notin> o_id ` set (db_ops (jn_db st))"
  shows "i = mr_id rec \<and> made_active E rec \<in> set (db_memories (jn_db st'))"
proof -
  have ask: "m = (st, Ok None)"
    if "m = (case op of None \<Rightarrow> (st, Ok None) | Some op_id \<Rightarrow> ask (repo_memory_of_op E (jf 0) op_id) st)" "m = (s, Ok f)" for m s f
  proof (cases op)
    case None
    then show ?thesis using that by simp
  next
    case (Some o')
    then have none: "find (\<lambda>x. o_id x = o') (db_ops (jn_db st)) = None" using assms(2) by (auto simp: find_None_iff)
    have "ask (repo_memory_of_op E (jf 0) o') st = (s, Ok f)" using that Some by simp
    then have "s = st" "f = None" unfolding ask_Ok_iff repo_memory_of_op_def sql_Ok_iff none by simp_all
    then show ?thesis using that(2) by simp
  qed
  from assms(1) obtain st0 found where a: "(case op of None \<Rightarrow> (st, Ok None) | Some op_id \<Rightarrow> ask (repo_memory_of_op E (jf 0) op_id) st) = (st0, Ok found)"
    and b: "(case found of Some existing \<Rightarrow> (st0, Ok existing)
      | None \<Rightarrow> and_then (on_db (repo_insert_pending E (jf 1) rec op now) st0) (\<lambda>st1 _. finish_remember E ops jf w now rec op st1)) = (st', Ok i)"
    unfolding coordinate_remember_def and_then_Ok_iff by blast
  from ask [OF refl a] a have "st0 = st" "found = None" by simp_all
  with b obtain st1 where 1: "on_db (repo_insert_pending E (jf 1) rec op now) st = (st1, Ok ())"
    and f: "finish_remember E ops jf w now rec op st1 = (st', Ok i)"
    by (auto simp: and_then_Ok_iff)
  from 1 obtain d1 where ins: "repo_insert_pending E (jf 1) rec op now (jn_db st) = (d1, Ok ())" and st1: "jn_db st1 = d1"
    unfolding on_db_Ok_iff by auto
  from ins obtain d0 where "insert_row (row_of_record E rec) (jn_db st) = Some d0"
    and o': "op_added (\<lambda>i. op_row_of i (mr_id rec) ''remember'' (payload_of E rec) ''pending'' now None) op d0 d1"
    by (rule repo_insert_Ok)
  then have "row_of_record E rec \<in> set (db_memories d1)"
    using op_added_frame [OF o'] by (auto simp: insert_row_def split: if_splits)
  moreover obtain d where i: "i = mr_id rec" and d: "repo_set_status E (jf 2) (mr_id rec) StActive (jn_db st1) = (d, Ok ())"
    and m: "db_memories (jn_db st') = db_memories d"
    using f by (rule finish_remember_Ok)
  ultimately have "(\<lambda>r. if r_id r = mr_id rec then r\<lparr> r_status := ''active'' \<rparr> else r) (row_of_record E rec) \<in> set (db_memories d)"
    unfolding repo_set_status_Ok [OF d] by (simp add: update_rows_def st1 del: if_image_distrib) 
  then show ?thesis using i m by (simp add: made_active_def row_of_record_def)
qed

text \<open>Reading the only row of an id in its scope.\<close>

lemma repo_get_row:
  assumes "env_ok E" "db_wf db" "r \<in> set (db_memories db)" "in_scope sc r" "record_of_row E StPending r = Ok rec"
  shows "repo_get E no_faults sc (r_id r) db = Ok (Some rec)"
proof -
  have "find (\<lambda>x. r_id x = r_id r \<and> in_scope sc x) (ev_scan E (db_memories db)) = Some r"
    using assms(3,4) by (simp add: find_scan_iff [OF assms(1,2)])
  then show ?thesis by (simp add: repo_get_def first_record_def assms(5))
qed

lemma on_journal_Ok_iff [outcome_iff]:
  "on_journal f ms = (ms', Ok x) \<longleftrightarrow> (\<exists>st. f (ms_journal ms) = (st, Ok x) \<and> ms' = ms\<lparr> ms_journal := st \<rparr>)"
  by (auto simp: on_journal_def split: prod.splits)

lemma remembered_row:
  assumes "ms_remember E ops jf w uuid now now2 rq ms = (ms', Ok i)" "(db_step E)\<^sup>*\<^sup>* empty_db (ms_db ms)"
    and "scope_wf (rq_scope rq)" "\<And>op. rq_operation rq = Some op \<Longrightarrow> op \<notin> o_id ` set (db_ops (ms_db ms))"
  shows "i = uuid" "made_active E (new_record E (ms_config ms) uuid now rq) \<in> set (db_memories (ms_db ms'))" "db_inv (ms_db ms')"
proof -
  let ?rec = "new_record E (ms_config ms) uuid now rq"
  have fields: "mr_id ?rec = uuid" "mr_scope ?rec = rq_scope rq" by (simp_all add: new_record_def)
  obtain st where run: "coordinate_remember E ops jf w now2 ?rec (rq_operation rq) (ms_journal ms) = (st, Ok i)"
    and ms': "ms' = ms\<lparr> ms_journal := st \<rparr>"
    using assms(1) unfolding ms_remember_def and_then_Ok_iff on_journal_Ok_iff by auto
  have inv0: "db_inv (jn_db (ms_journal ms))" using reachable_inv [OF assms(2) empty_db_inv] by (simp add: ms_db_def)
  have "scope_wf (mr_scope ?rec)" using assms(3) by (simp add: fields)
  from keepsD [OF keeps_inv_remember [OF this] run inv0] show "db_inv (ms_db ms')" by (simp add: ms' ms_db_def)
  from remember_Ok_active [OF run] assms(4) show "i = uuid" "made_active E ?rec \<in> set (db_memories (ms_db ms'))"
    by (simp_all add: ms_db_def ms' fields)
qed

lemma active_row_reads:
  assumes "env_ok E" "db_inv (ms_db ms)" "record_ok rec" "made_active E rec \<in> set (db_memories (ms_db ms))"
    and "sc_tenant sc = sc_tenant (mr_scope rec)" "sc_namespace sc = sc_namespace (mr_scope rec)"
  shows "ms_get E no_faults sc (mr_id rec) ms = Ok (Some ((reread E rec)\<lparr> mr_status := StActive \<rparr>))"
proof -
  have "record_ok (rec\<lparr> mr_status := StActive \<rparr>)" using assms(3) by (simp add: record_ok_def)
  from record_roundtrip [OF this, of E StPending]
  have conv: "record_of_row E StPending (made_active E rec) = Ok ((reread E rec)\<lparr> mr_status := StActive \<rparr>)"
    by (simp add: row_status_record made_active_def)
  have "in_scope sc (made_active E rec)" "r_id (made_active E rec) = mr_id rec"
    using assms(5,6) by (simp_all add: made_active_def row_of_record_def in_scope_def)
  with repo_get_row [OF assms(1) _ assms(4) _ conv] assms(2) show ?thesis
    by (simp add: ms_get_def db_inv_def)
qed

lemma new_record_fields [simp]:
  "mr_id (new_record E cfg uuid now rq) = uuid" "mr_scope (new_record E cfg uuid now rq) = rq_scope rq"
  "mr_metadata (new_record E cfg uuid now rq) = rq_metadata rq" "mr_source (new_record E cfg uuid now rq) = rq_source rq"
  by (simp_all add: new_record_def)

text \<open>C24: What is remembered can be read. When \<open>remember\<close> returns an id, a read of that id in the scope of
  the request returns the new record, active, at revision 1. Every field is as the request gave it, except
  that metadata and source are what the JSON library makes of them when it prints and parses them, which
  is the same again when they hold no floating-point number (and are not nested too deep).\<close>

theorem remembered_is_readable:
  assumes "ms_remember E ops jf w uuid now now2 rq ms = (ms', Ok i)" "env_ok E" "(db_step E)\<^sup>*\<^sup>* empty_db (ms_db ms)"
    and "record_ok (new_record E (ms_config ms) uuid now rq)"
    and "\<And>op. rq_operation rq = Some op \<Longrightarrow> op \<notin> o_id ` set (db_ops (ms_db ms))"
  shows "i = uuid \<and> ms_get E no_faults (rq_scope rq) i ms'
    = Ok (Some ((new_record E (ms_config ms) uuid now rq)\<lparr> mr_status := StActive,
        mr_metadata := json_reread E (rq_metadata rq), mr_source := json_reread E (rq_source rq) \<rparr>))
    \<and> (ev_plain E (rq_metadata rq) \<longrightarrow> json_reread E (rq_metadata rq) = rq_metadata rq)
    \<and> (ev_plain E (rq_source rq) \<longrightarrow> json_reread E (rq_source rq) = rq_source rq)"
proof -
  let ?rec = "new_record E (ms_config ms) uuid now rq"
  have wf: "scope_wf (rq_scope rq)" using assms(4) by (simp add: record_ok_def)
  note row = remembered_row [OF assms(1,3) wf assms(5)]
  from active_row_reads [OF assms(2) row(3) assms(4) row(2), of "rq_scope rq"] row(1) show ?thesis
    by (simp add: reread_def json_reread_plain [OF assms(2)])
qed

definition demo_empty_store :: "test_index memory_store" where
  "demo_empty_store = \<lparr> ms_config = \<lparr> cg_path = ''db'', cg_dims = 1, cg_model = ''m'', cg_max_recall = 100 \<rparr>,
     ms_journal = \<lparr> jn_db = demo_db, jn_index = ti_new 1 \<rparr> \<rparr>"

definition demo_remember :: "string remember_request" where
  "demo_remember = \<lparr> rq_operation = Some ''op'', rq_scope = demo_scope, rq_content = ''sky is blue'',
     rq_embedding = [f_one], rq_kind = KFact, rq_importance = f_one, rq_expires = None, rq_metadata = (\<lambda>_. None), rq_source = (\<lambda>_. None) \<rparr>"


lemma demo_remember_valid: "remember_validate demo_remember 1 = Ok ()"
proof -
  have "trim ''sky is blue'' = ''sky is blue''" by (rule trim_visible) simp_all
  then show ?thesis by (simp add: remember_validate_def demo_remember_def unit_range_def f_le_def f_key_def is_nan_def)
qed

lemma demo_new_record_ok: "record_ok (new_record demo_env cfg uuid now demo_remember)" if "cg_dims cfg = 1"
  by (simp add: record_ok_def new_record_def demo_remember_def demo_scope_wf valid_utf8_ascii that)

lemma demo_remembered:
  "\<exists>ms'. ms_remember demo_env (test_ops id) no_call_faults demo_world ''a'' 5 5 demo_remember demo_empty_store = (ms', Ok ''a'')"
proof -
  let ?rec = "new_record demo_env (ms_config demo_empty_store) ''a'' 5 demo_remember"
  have f: "mr_id ?rec = ''a''" "mr_embedding ?rec = [f_one]" "mr_importance ?rec = f_one"
    by (simp_all add: new_record_def demo_remember_def)
  have v: "remember_validate demo_remember (cg_dims (ms_config demo_empty_store)) = Ok ()"
    using demo_remember_valid by (simp add: demo_empty_store_def)
  have ins: "repo_insert_pending demo_env no_faults ?rec (Some ''op'') 5 demo_db
      = (demo_db\<lparr> db_memories := [row_of_record demo_env ?rec], db_fts := [fts_of (row_of_record demo_env ?rec)],
           db_ops := [op_row_of ''op'' ''a'' ''remember'' (payload_of demo_env ?rec) ''pending'' 5 None] \<rparr>, Ok ())"
    by (simp add: repo_insert_pending_def transact_def insert_row_def insert_op_def demo_db_def fts_insert_def row_of_record_def f demo_not_nan
        op_row_of_def)
  have up: "io_upsert (test_ops id) demo_world ''a'' [f_one] (ti_new 1) = (\<lparr> ti_dims = 1, ti_vectors = [(''a'', [f_one])] \<rparr>, Ok ())"
    by (simp add: test_ops_def ti_upsert_def ti_new_def)
  have op: "rq_operation demo_remember = Some ''op''" by (simp add: demo_remember_def)
  have j: "ms_journal demo_empty_store = \<lparr> jn_db = demo_db, jn_index = ti_new 1 \<rparr>" by (simp add: demo_empty_store_def)
  show ?thesis
    unfolding ms_remember_def v op and_then.simps on_journal_def j coordinate_remember_def finish_remember_def
    by (simp add: ask_def repo_memory_of_op_def no_call_faults_def on_db_def
        ins on_index_def f up [simplified] repo_set_status_def repo_mark_applied_def transact_def)
qed

lemma demo_empty_store_reached: "(db_step demo_env)\<^sup>*\<^sup>* empty_db (ms_db demo_empty_store)" "db_ops (ms_db demo_empty_store) = []"
  by (simp_all add: ms_db_def demo_empty_store_def demo_db_reachable)

theorem remembered_is_readable_witness:
  "\<exists>ms'. ms_remember demo_env (test_ops id) no_call_faults demo_world ''a'' 5 5 demo_remember demo_empty_store = (ms', Ok ''a'')
    \<and> ms_get demo_env no_faults demo_scope ''a'' ms'
      = Ok (Some ((new_record demo_env (ms_config demo_empty_store) ''a'' 5 demo_remember)\<lparr> mr_status := StActive,
          mr_metadata := (\<lambda>_. None), mr_source := (\<lambda>_. None) \<rparr>))"
proof -
  obtain ms' where run: "ms_remember demo_env (test_ops id) no_call_faults demo_world ''a'' 5 5 demo_remember demo_empty_store = (ms', Ok ''a'')"
    using demo_remembered by blast
  have ok: "record_ok (new_record demo_env (ms_config demo_empty_store) ''a'' 5 demo_remember)"
    by (rule demo_new_record_ok) (simp add: demo_empty_store_def)
  have rq: "rq_scope demo_remember = demo_scope" "rq_metadata demo_remember = (\<lambda>_. None)" "rq_source demo_remember = (\<lambda>_. None)"
    by (simp_all add: demo_remember_def)
  have "ev_plain demo_env (\<lambda>_. None)" by (simp add: demo_env_def)
  with remembered_is_readable [OF run demo_env_ok demo_empty_store_reached(1) ok] run show ?thesis
    by (simp add: rq demo_empty_store_reached(2))
qed

section \<open>Update, then read\<close>

lemma coordinate_update_Ok:
  assumes "coordinate_update E ops jf w now rec expected op st = (st', Ok ())"
    and "\<And>o'. op = Some o' \<Longrightarrow> o' \<notin> o_id ` set (db_ops (jn_db st))"
  obtains d where "repo_update E (jf 1) rec expected op now (jn_db st) = (d, Ok ())" "db_memories (jn_db st') = db_memories d"
proof -
  have none: "f = None \<and> s = st"
    if "(case op of None \<Rightarrow> (st, Ok None) | Some op_id \<Rightarrow> ask (repo_memory_of_op E (jf 0) op_id) st) = (s, Ok f)" for s f
  proof (cases op)
    case None
    then show ?thesis using that by simp
  next
    case (Some o')
    then have "find (\<lambda>x. o_id x = o') (db_ops (jn_db st)) = None" using assms(2) by (auto simp: find_None_iff)
    then show ?thesis using that Some by (auto simp: ask_Ok_iff repo_memory_of_op_def sql_Ok_iff)
  qed
  from assms(1) obtain st0 found where a: "(case op of None \<Rightarrow> (st, Ok None) | Some op_id \<Rightarrow> ask (repo_memory_of_op E (jf 0) op_id) st) = (st0, Ok found)"
    and b: "(if found = Some (mr_id rec) then (st0, Ok ())
     else and_then (on_db (repo_update E (jf 1) rec expected op now) st0) (\<lambda>st1 _.
          and_then (on_index (io_upsert ops w (mr_id rec) (mr_embedding rec)) st1) (\<lambda>st2 _.
          case op of None \<Rightarrow> (st2, Ok ()) | Some op_id \<Rightarrow> on_db (repo_mark_applied E (jf 2) op_id now) st2))) = (st', Ok ())"
    unfolding coordinate_update_def and_then_Ok_iff by blast
  from none [OF a] b obtain st1 st2 where 1: "on_db (repo_update E (jf 1) rec expected op now) st = (st1, Ok ())"
    and 2: "on_index (io_upsert ops w (mr_id rec) (mr_embedding rec)) st1 = (st2, Ok ())"
    and 3: "(case op of None \<Rightarrow> (st2, Ok ()) | Some op_id \<Rightarrow> on_db (repo_mark_applied E (jf 2) op_id now) st2) = (st', Ok ())"
    by (auto simp: and_then_Ok_iff)
  from 1 obtain d where d: "repo_update E (jf 1) rec expected op now (jn_db st) = (d, Ok ())" "jn_db st1 = d"
    unfolding on_db_Ok_iff by auto
  have db2: "jn_db st2 = d" using on_index_db [OF 2] d(2) by simp
  have "db_memories (jn_db st') = db_memories d"
  proof (cases op)
    case None
    then show ?thesis using 3 db2 by auto
  next
    case (Some o')
    then show ?thesis using 3 db2 by (auto simp: on_db_Ok_iff dest: repo_mark_memories)
  qed
  then show thesis using that d(1) by blast
qed

lemma update_row_reads:
  assumes "record_of_row E dflt r = Ok old" "valid_utf8 (mr_content rec)"
  shows "record_of_row E dflt (update_row E rec expected r) = Ok (old\<lparr> mr_content := mr_content rec, mr_hash := mr_hash rec,
    mr_embedding := mr_embedding rec, mr_importance := mr_importance rec, mr_updated := mr_updated rec,
    mr_expires := mr_expires rec, mr_status := mr_status rec, mr_revision := expected + 1,
    mr_metadata := json_reread E (mr_metadata rec) \<rparr>)"
proof -
  have "scope_of_row E (update_row E rec expected r) = scope_of_row E r" by (simp add: scope_of_row_def update_row_def)
  then show ?thesis using assms
    by (auto simp: record_of_row_def outcome_iff)
      (simp_all add: update_row_def json_reread_def bytes_to_embedding_def from_utf8_lossy_valid)
qed

text \<open>The row that a successful update of the record \<open>old\<close> writes, and what is read from it.\<close>

lemma repo_update_row:
  assumes "repo_update E sf rec expected op now db = (d, Ok u)" "env_ok E" "db_wf db"
    and "repo_get E sf' (mr_scope rec) (mr_id rec) db = Ok (Some old)"
  obtains cur where "record_of_row E StPending cur = Ok old" "r_revision cur = expected" "r_id cur = mr_id rec"
    "in_scope (mr_scope rec) cur" "update_row E rec expected cur \<in> set (db_memories d)"
proof -
  from assms(1) obtain cur d1 where
    f: "find (\<lambda>r. r_id r = mr_id rec \<and> in_scope (mr_scope rec) r) (ev_scan E (db_memories db)) = Some cur"
    and rev: "r_revision cur = expected"
    and d1: "d1 = update_rows (\<lambda>r. r_id r = mr_id rec \<and> r_revision r = expected) (update_row E rec expected) db"
    and d: "op_added (\<lambda>i. op_row_of i (mr_id rec) ''update'' (payload_of E rec) ''pending'' now None) op d1 d"
    by (rule repo_update_Ok)
  have cur: "cur \<in> set (db_memories db)" "r_id cur = mr_id rec" "in_scope (mr_scope rec) cur"
    using f find_scan_iff [OF assms(2,3)] by simp_all
  have "record_of_row E StPending cur = Ok old"
    using assms(4) f by (auto simp: repo_get_def first_record_def outcome_iff)
  moreover have "update_row E rec expected cur \<in> set (db_memories d1)" unfolding d1
    using cur(1,2) rev by (force simp: update_rows_def)
  ultimately show thesis using that cur(2,3) rev op_added_frame [OF d] by simp
qed

text \<open>C26: An update that succeeds makes exactly its changes readable: content, hash, embedding, importance,
  expiry, the time and the next revision are those of the updated record, the memory is active, and
  creation time, access data and source are kept. The metadata are the patched ones as the JSON library
  prints and parses them, the same again when they hold no floating-point number (and are not nested too
  deep). The kind is kept too: an update that asks for another kind succeeds without changing it.\<close>

theorem updated_is_readable:
  assumes "ms_update E ops sf jf w now now2 up ms = (ms', Ok ())" "env_ok E" "(db_step E)\<^sup>*\<^sup>* empty_db (ms_db ms)"
    and "ms_get E no_faults (up_scope up) (up_id up) ms = Ok (Some old)"
    and "valid_utf8 (mr_content (updated_record E (ms_config ms) now up old))"
    and "\<And>op. up_operation up = Some op \<Longrightarrow> op \<notin> o_id ` set (db_ops (ms_db ms))"
  shows "ms_get E no_faults (up_scope up) (up_id up) ms'
    = Ok (Some ((updated_record E (ms_config ms) now up old)\<lparr> mr_scope := mr_scope old, mr_kind := mr_kind old,
        mr_model := mr_model old, mr_dims := mr_dims old,
        mr_metadata := json_reread E (mr_metadata (updated_record E (ms_config ms) now up old)) \<rparr>))
    \<and> (ev_plain E (mr_metadata (updated_record E (ms_config ms) now up old)) \<longrightarrow>
        json_reread E (mr_metadata (updated_record E (ms_config ms) now up old))
          = mr_metadata (updated_record E (ms_config ms) now up old))"
proof -
  let ?rec = "updated_record E (ms_config ms) now up old" let ?db = "ms_db ms"
  have fields: "mr_id ?rec = up_id up" "mr_scope ?rec = up_scope up" by (simp_all add: updated_record_def Let_def)
  obtain old' where get: "repo_get E sf (up_scope up) (up_id up) ?db = Ok (Some old')"
    using assms(1) unfolding ms_update_def and_then_Ok_iff by (auto split: option.splits)
  then have "old' = old" using repo_get_no_faults [OF get] assms(4) by (simp add: ms_get_def)
  with get assms(1) obtain st where
    run: "coordinate_update E ops jf w now2 ?rec (up_revision up) (up_operation up) (ms_journal ms) = (st, Ok ())"
    and ms': "ms' = ms\<lparr> ms_journal := st \<rparr>"
    unfolding ms_update_def and_then_Ok_iff by (auto simp: on_journal_Ok_iff split: if_splits)
  obtain d where up: "repo_update E (jf 1) ?rec (up_revision up) (up_operation up) now2 ?db = (d, Ok ())"
    and mem: "db_memories (jn_db st) = db_memories d"
    using run assms(6) unfolding ms_db_def by (rule coordinate_update_Ok)
  have inv: "db_inv ?db" by (rule reachable_inv [OF assms(3) empty_db_inv])
  then have wf: "db_wf ?db" by (simp add: db_inv_def)
  have "keeps_db_inv (coordinate_update E ops jf w now2 ?rec (up_revision up) (up_operation up))"
    unfolding coordinate_update_def by (intro keeps_rules keeps_inv_index keeps_inv_steps)
  from keepsD [OF this run] inv have wf': "db_wf (jn_db st)" by (simp add: db_inv_def ms_db_def)
  obtain cur where conv: "record_of_row E StPending cur = Ok old" and rev: "r_revision cur = up_revision up"
    and cur: "r_id cur = up_id up" "in_scope (up_scope up) cur"
    and new: "update_row E ?rec (up_revision up) cur \<in> set (db_memories (jn_db st))"
    using up assms(2) wf get unfolding mem \<open>old' = old\<close> fields [symmetric] by (rule repo_update_row)
  let ?new = "update_row E ?rec (up_revision up) cur"
  have "mr_revision old = up_revision up" using conv rev by (auto simp: record_of_row_def outcome_iff)
  moreover note update_row_reads [OF conv assms(5), of "up_revision up"]
  moreover have "mr_id old = up_id up" using conv cur(1) by (auto simp: record_of_row_def outcome_iff)
  ultimately have "record_of_row E StPending ?new = Ok (?rec\<lparr> mr_scope := mr_scope old, mr_kind := mr_kind old,
        mr_model := mr_model old, mr_dims := mr_dims old, mr_metadata := json_reread E (mr_metadata ?rec) \<rparr>)"
    by (simp add: updated_record_def Let_def)
  from repo_get_row [OF assms(2) wf' new _ this] cur json_reread_plain [OF assms(2), of "mr_metadata ?rec"]
  show ?thesis by (simp add: ms_get_def ms_db_def ms' update_row_def in_scope_def)
qed

definition demo_update :: "string update_request" where
  "demo_update = \<lparr> up_operation = None, up_scope = demo_scope, up_id = ''a'', up_revision = 1, up_content = None,
     up_embedding = None, up_kind = Some KPreference, up_importance = None, up_expires = None, up_metadata = None \<rparr>"

lemma demo_updated:
  "\<exists>ms'. ms_update demo_env (test_ops id) no_faults no_call_faults demo_world 12 12 demo_update demo_store = (ms', Ok ())"
proof -
  let ?old = "demo_rec\<lparr> mr_status := StActive \<rparr>"
  let ?rec = "updated_record demo_env (ms_config demo_store) 12 demo_update ?old"
  have f: "mr_id ?rec = ''a''" "mr_embedding ?rec = [f_one]" "mr_importance ?rec = f_one" "mr_scope ?rec = demo_scope"
    by (simp_all add: updated_record_def demo_update_def demo_record_def Let_def)
  have row: "r_id (row_of_record demo_env ?old) = ''a''" "in_scope demo_scope (row_of_record demo_env ?old)"
    "r_status (row_of_record demo_env ?old) = ''active''" "r_revision (row_of_record demo_env ?old) = 1"
    by (simp_all add: row_of_record_def demo_record_def in_scope_def)
  have mem: "db_memories demo_active = [row_of_record demo_env ?old]" by (simp add: demo_active_def)
  obtain d where up: "repo_update demo_env no_faults ?rec 1 None 12 demo_active = (d, Ok ())"
    by (simp add: repo_update_def transact_def demo_scan mem f row demo_not_nan)
  have v: "update_validate demo_update (cg_dims (ms_config demo_store)) = Ok ()"
  proof -
    have "trim ''a'' = ''a''" by (rule trim_visible) simp_all
    then show ?thesis by (simp add: update_validate_def demo_update_def)
  qed
  have get: "repo_get demo_env no_faults (up_scope demo_update) (up_id demo_update) (ms_db demo_store) = Ok (Some ?old)"
    using demo_get by (simp add: demo_update_def demo_store_db)
  have j: "ms_journal demo_store = \<lparr> jn_db = demo_active, jn_index = \<lparr> ti_dims = 1, ti_vectors = [(''a'', [f_one])] \<rparr> \<rparr>"
    by (simp add: demo_store_def)
  have u: "up_operation demo_update = None" "up_revision demo_update = 1" by (simp_all add: demo_update_def)
  have rev: "mr_revision ?old \<noteq> - 1" by (simp add: demo_record_def)
  have ti: "io_upsert (test_ops id) demo_world ''a'' [f_one] \<lparr> ti_dims = 1, ti_vectors = [(''a'', [f_one])] \<rparr>
      = (\<lparr> ti_dims = 1, ti_vectors = [(''a'', [f_one])] \<rparr>, Ok ())"
    by (simp add: test_ops_def ti_upsert_def)
  show ?thesis
    unfolding ms_update_def v get and_then.simps option.case on_journal_def j coordinate_update_def u
    using rev by (simp add: no_call_faults_def on_db_def up on_index_def f ti [simplified])
qed

text \<open>The witness: an update that only changes the kind succeeds and leaves it as it was.\<close>

theorem updated_is_readable_witness:
  "\<exists>ms' rec. ms_update demo_env (test_ops id) no_faults no_call_faults demo_world 12 12 demo_update demo_store = (ms', Ok ())
    \<and> ms_get demo_env no_faults demo_scope ''a'' ms' = Ok (Some rec)
    \<and> up_kind demo_update = Some KPreference \<and> mr_kind rec = KFact \<and> mr_revision rec = 2"
proof -
  let ?old = "demo_rec\<lparr> mr_status := StActive \<rparr>"
  obtain ms' where run: "ms_update demo_env (test_ops id) no_faults no_call_faults demo_world 12 12 demo_update demo_store = (ms', Ok ())"
    using demo_updated by blast
  have reach: "(db_step demo_env)\<^sup>*\<^sup>* empty_db (ms_db demo_store)" unfolding demo_store_db by (rule demo_active_reachable)
  have get: "ms_get demo_env no_faults (up_scope demo_update) (up_id demo_update) demo_store = Ok (Some ?old)"
    using demo_get by (simp add: ms_get_def demo_update_def demo_store_db)
  note facts = updated_is_readable [OF run demo_env_ok reach get]
  have "up_operation demo_update = None" "valid_utf8 (mr_content (updated_record demo_env (ms_config demo_store) 12 demo_update ?old))"
    by (simp_all add: updated_record_def demo_update_def demo_record_def valid_utf8_ascii Let_def)
  with facts run show ?thesis by (auto simp: demo_update_def updated_record_def demo_record_def Let_def)
qed

section \<open>The budget of a context\<close>

definition line_tokens :: "context_options \<Rightarrow> 'j recall_item list \<Rightarrow> nat" where
  "line_tokens co items = sum_list (map (\<lambda>it. estimate_tokens (context_line (co_template co) it)) items)"

lemma context_lines_spec:
  assumes "context_lines m tmpl items (out, t) = (out', t')"
  shows "\<exists>k\<le>length items. out' = out @ concat (map (\<lambda>it. context_line tmpl it @ [nl]) (take k items))
    \<and> t' = t + sum_list (map (\<lambda>it. estimate_tokens (context_line tmpl it)) (take k items))
    \<and> (k = 0 \<or> t' \<le> m) \<and> (k < length items \<longrightarrow> m < t' + estimate_tokens (context_line tmpl (items ! k)))"
  using assms
proof (induction m tmpl items "(out, t)" arbitrary: out t rule: context_lines.induct)
  case (1 m tmpl)
  then show ?case by simp
next
  case (2 m tmpl it items out t)
  let ?line = "context_line tmpl it" let ?n = "estimate_tokens ?line"
  show ?case
  proof (cases "m < t + ?n")
    case True
    then show ?thesis using 2 by (intro exI [of _ 0]) (simp add: Let_def)
  next
    case False
    then have "context_lines m tmpl items (out @ ?line @ [nl], t + ?n) = (out', t')" using 2(2) by (simp add: Let_def)
    from 2(1) [OF refl refl False this] obtain k where k: "k \<le> length items"
      "out' = (out @ ?line @ [nl]) @ concat (map (\<lambda>it. context_line tmpl it @ [nl]) (take k items))"
      "t' = (t + ?n) + sum_list (map (\<lambda>it. estimate_tokens (context_line tmpl it)) (take k items))"
      "k = 0 \<or> t' \<le> m" "k < length items \<longrightarrow> m < t' + estimate_tokens (context_line tmpl (items ! k))" by blast
    then show ?thesis using False by (intro exI [of _ "Suc k"]) auto
  qed
qed

text \<open>C38: A formatted context is the header, a prefix of the recalled memories and the footer if it fits.
  The estimated tokens of its parts stay within \<open>max_tokens\<close> (the header alone may exceed it), and the
  prefix ends only where the next line would exceed it.\<close>

theorem context_within_budget:
  "\<exists>k\<le>length items.
     format_items co items = context_header co
       @ concat (map (\<lambda>it. context_line (co_template co) it @ [nl]) (take k items))
       @ context_footer co (estimate_tokens (context_header co) + line_tokens co (take k items))
     \<and> estimate_tokens (context_header co) + line_tokens co (take k items)
         + estimate_tokens (context_footer co (estimate_tokens (context_header co) + line_tokens co (take k items)))
       \<le> max (co_max_tokens co) (estimate_tokens (context_header co))
     \<and> (k < length items \<longrightarrow> co_max_tokens co < estimate_tokens (context_header co) + line_tokens co (take (Suc k) items))"
proof -
  let ?h = "context_header co"
  obtain out t where run: "context_lines (co_max_tokens co) (co_template co) items (?h, estimate_tokens ?h) = (out, t)" by fastforce
  from context_lines_spec [OF run] obtain k where k: "k \<le> length items"
    "out = ?h @ concat (map (\<lambda>it. context_line (co_template co) it @ [nl]) (take k items))"
    "t = estimate_tokens ?h + line_tokens co (take k items)" "k = 0 \<or> t \<le> co_max_tokens co"
    "k < length items \<longrightarrow> co_max_tokens co < t + estimate_tokens (context_line (co_template co) (items ! k))"
    unfolding line_tokens_def by blast
  have "t + estimate_tokens (context_footer co t) \<le> max (co_max_tokens co) (estimate_tokens ?h)"
    using k(3,4) by (auto simp: context_footer_def line_tokens_def estimate_tokens_def split: option.split)
  moreover have "k < length items \<longrightarrow> co_max_tokens co < estimate_tokens ?h + line_tokens co (take (Suc k) items)"
    using k(3,5) by (auto simp: line_tokens_def take_Suc_conv_app_nth)
  moreover have "format_items co items = out @ context_footer co t" by (simp add: format_items_def Let_def run)
  ultimately show ?thesis using k(1-3) by (intro exI [of _ k]) simp
qed

lemma str_replace_none: "CHR ''{'' \<notin> set s \<Longrightarrow> str_replace (CHR ''{'' # p) to s = s"
proof (induction s)
  case Nil
  show ?case by (subst str_replace.simps) simp
next
  case (Cons c s)
  then show ?case by (subst str_replace.simps) auto
qed

definition demo_items :: "string recall_item list" where
  "demo_items = replicate 4 \<lparr> ri_memory = demo_rec, ri_score = f_one, ri_explanation = None \<rparr>"

definition demo_context :: context_options where
  "demo_context = \<lparr> co_max_tokens = 4, co_template = ''abcd'', co_header = None, co_footer = None \<rparr>"

lemma quarters: "f_to_usize (f_ceil (f_div (f_of_nat 4) (f_of_nat 4))) = 1" "f_to_usize (f_ceil (f_div (f_of_nat 20) (f_of_nat 4))) = 5"
  by (simp_all add: f_eval)

lemma demo_estimate: "estimate_tokens ''abcd'' = 1" "length s = 20 \<Longrightarrow> estimate_tokens s = 5"
  using quarters by (auto simp: estimate_tokens_def simp flip: numeral_eq_Suc) (simp add: numeral_eq_Suc)

text \<open>The witness: the ends of the lines are not counted, so four lines of one token each pass a budget of
  four although the context has five.\<close>

theorem context_within_budget_witness:
  "estimate_tokens (format_items demo_context demo_items) = 5 \<and> co_max_tokens demo_context = 4"
proof -
  have line: "context_line ''abcd'' it = ''abcd''" for it :: "string recall_item"
    by (simp add: context_line_def str_replace_none)
  then have tokens: "line_tokens demo_context (take k demo_items) = k" if "k \<le> 4" for k
    using that by (simp add: line_tokens_def demo_context_def demo_items_def demo_estimate sum_list_replicate)
  obtain k where k: "k \<le> length demo_items" "format_items demo_context demo_items = context_header demo_context
       @ concat (map (\<lambda>it. context_line (co_template demo_context) it @ [nl]) (take k demo_items))
       @ context_footer demo_context (estimate_tokens (context_header demo_context) + line_tokens demo_context (take k demo_items))"
    and more: "k < length demo_items \<longrightarrow> co_max_tokens demo_context
        < estimate_tokens (context_header demo_context) + line_tokens demo_context (take (Suc k) demo_items)"
    using context_within_budget [of demo_items demo_context] by blast
  have "k = 4"
  proof (rule ccontr)
    assume "k \<noteq> 4"
    with k(1) have "k < 4" by (simp add: demo_items_def)
    with more tokens [of "Suc k"] show False
      by (simp add: demo_items_def demo_context_def context_header_def estimate_tokens_def)
  qed
  then have "length (format_items demo_context demo_items) = 20"
    unfolding k(2) by (simp add: demo_items_def demo_context_def line context_header_def context_footer_def length_concat numeral_eq_Suc)
  then show ?thesis by (simp add: demo_estimate demo_context_def)
qed

end
