(* ===== verification/Store_Session.thy ===== *)
theory Store_Session
  imports Store_Safety
begin

text \<open>
  The store as a state machine: the states reachable from opening by any sequence of its public calls,
  with any outcome of each, what every such state keeps, and what a backup of one holds.
\<close>

section \<open>Steps\<close>

text \<open>One public call that may change the store. The scopes of requests come from their validating
  constructors.\<close>

inductive store_step ::
  "'j store_env \<Rightarrow> ('ix, 'j) index_ops \<Rightarrow> 'ix memory_store \<Rightarrow> 'ix memory_store \<Rightarrow> bool" for E ops where
  remember: "ms_remember E ops jf w uuid now now2 rq ms = (ms', id_res) \<Longrightarrow> scope_wf (rq_scope rq) \<Longrightarrow> store_step E ops ms ms'"
| remember_all: "ms_remember_batch E ops jf ws uuids now now2 rqs ms = (ms', ids_res) \<Longrightarrow>
    list_all (\<lambda>rq. scope_wf (rq_scope rq)) rqs \<Longrightarrow> store_step E ops ms ms'"
| change: "ms_update E ops sf jf w now now2 up ms = (ms', res) \<Longrightarrow> store_step E ops ms ms'"
| forget: "ms_forget E ops sf now fg ms = (ms', res) \<Longrightarrow> store_step E ops ms ms'"
| forget_all: "ms_forget_batch E ops sf now sc ids ms = (ms', res) \<Longrightarrow> store_step E ops ms ms'"
| rebuild: "ms_rebuild_index E ops sf ws ms = (ms', res) \<Longrightarrow> store_step E ops ms ms'"
| purge: "ms_vacuum E ops sf sf_active ws batch now ms = (ms', n_res) \<Longrightarrow> store_step E ops ms ms'"
| back_up: "ms_backup E ops bp target ms = (ms', copy_res) \<Longrightarrow> store_step E ops ms ms'"

section \<open>Invariants of a session\<close>

text \<open>A property of database and index that every method of the repository and of the index keeps.\<close>

locale store_invariant =
  fixes E :: "'j store_env" and ops :: "('ix, 'j) index_ops" and P :: "'ix journal \<Rightarrow> bool"
  assumes after_db: "P st \<Longrightarrow> db_step E (jn_db st) d \<Longrightarrow> P (st\<lparr> jn_db := d \<rparr>)"
    and after_upsert: "P st \<Longrightarrow> io_upsert ops w i v (jn_index st) = (ix, res) \<Longrightarrow> P (st\<lparr> jn_index := ix \<rparr>)"
    and after_remove: "P st \<Longrightarrow> io_remove ops i (jn_index st) = (ix, res) \<Longrightarrow> P (st\<lparr> jn_index := ix \<rparr>)"
    and after_upsert_batch: "P st \<Longrightarrow> io_upsert_batch ops ws es (jn_index st) = (ix, res) \<Longrightarrow> P (st\<lparr> jn_index := ix \<rparr>)"
    and after_remove_batch: "P st \<Longrightarrow> io_remove_batch ops ids (jn_index st) = (ix, res) \<Longrightarrow> P (st\<lparr> jn_index := ix \<rparr>)"
    and after_rebuild: "P st \<Longrightarrow> io_rebuild ops ws recs (jn_index st) = (ix, res) \<Longrightarrow> P (st\<lparr> jn_index := ix \<rparr>)"
    and after_backup: "P st \<Longrightarrow> io_backup ops w target (jn_index st) = (ix, dres) \<Longrightarrow> P (st\<lparr> jn_index := ix \<rparr>)"
begin

lemma keeps_db: "(\<And>db d res. f db = (d, res) \<Longrightarrow> db_step E db d) \<Longrightarrow> keeps P (on_db f)"
  using after_db by (fastforce simp: keeps_def on_db_def split: prod.splits)

lemma keeps_db_ops:
  "keeps P (on_db (repo_set_status E sf i s))" "keeps P (on_db (repo_mark_applied E sf op now))"
  "keeps P (on_db (repo_set_status_batch E sf is s))" "keeps P (on_db (repo_mark_applied_batch E sf opids now))"
  "keeps P (on_db (repo_update E sf rec expected oid now))" "keeps P (on_db (repo_delete E sf sc i oid now))"
  "keeps P (on_db (repo_delete_batch E sf sc is oids now))" "keeps P (on_db (repo_vacuum E sf batch now))"
  "scope_wf (mr_scope rec) \<Longrightarrow> keeps P (on_db (repo_insert_pending E sf rec oid now))"
  "\<forall>rec\<in>set recs. scope_wf (mr_scope rec) \<Longrightarrow> keeps P (on_db (repo_insert_pending_batch E sf recs oids now))"
  by (rule keeps_db, erule db_step.intros, assumption?)+

lemma keeps_index: "(\<And>st ix res. P st \<Longrightarrow> f (jn_index st) = (ix, res) \<Longrightarrow> P (st\<lparr> jn_index := ix \<rparr>)) \<Longrightarrow> keeps P (on_index f)"
  by (fastforce simp: keeps_def on_index_def split: prod.splits)

lemma keeps_index_ops:
  "keeps P (on_index (io_upsert ops w i v))" "keeps P (on_index (io_remove ops i))"
  "keeps P (on_index (io_upsert_batch ops ws es))" "keeps P (on_index (io_remove_batch ops ids))"
  "keeps P (on_index (io_rebuild ops ws recs))" "keeps P (on_index (io_backup ops w target))"
  by (rule keeps_index, erule after_upsert after_remove after_upsert_batch after_remove_batch after_rebuild after_backup, assumption)+

lemma keeps_recover_op: "keeps P (recover_op E ops jf w now p)"
proof -
  obtain op mem kind where "p = (op, mem, kind)" by (cases p) auto
  then show ?thesis unfolding recover_op_def recover_record_def
    by (simp only: prod.case) (intro keeps_rules keeps_db_ops keeps_index_ops)
qed

lemma keeps_rebuild_active: "keeps P (rebuild_active E ops sf ws)"
  unfolding rebuild_active_def by (intro keeps_rules keeps_index_ops)

lemma keeps_startup: "keeps P (recover_startup E ops rp)"
  unfolding recover_startup_def
  by (intro keeps_rules keeps_recover_ops keeps_recover_op keeps_rebuild_active)

lemma keeps_coordinate:
  "scope_wf (mr_scope rec) \<Longrightarrow> keeps P (coordinate_remember E ops jf w now rec op)"
  "\<forall>rec\<in>set recs. scope_wf (mr_scope rec) \<Longrightarrow> keeps P (coordinate_remember_batch E ops jf ws now recs opids)"
  "keeps P (coordinate_update E ops jf w now rec expected op)"
  "keeps P (coordinate_forget E ops sf now sc i op)"
  "keeps P (coordinate_forget_batch E ops sf now sc ids opids)"
  unfolding coordinate_remember_def finish_remember_def coordinate_remember_batch_def Let_def coordinate_update_def
    coordinate_forget_def coordinate_forget_batch_def
  by (intro keeps_rules keeps_db_ops keeps_index_ops; assumption)+

lemma on_journal_keeps:
  assumes "on_journal f ms = (ms', res)" "keeps P f" "P (ms_journal ms)"
  shows "P (ms_journal ms') \<and> ms_config ms' = ms_config ms"
  using keepsD [OF assms(2)] assms(1,3) by (auto simp: on_journal_def split: prod.splits)

lemma step_keeps:
  assumes "store_step E ops ms ms'" "P (ms_journal ms)"
  shows "P (ms_journal ms') \<and> ms_config ms' = ms_config ms"
  using assms
proof (induction rule: store_step.induct)
  case (remember jf w uuid now now2 rq ms ms' res)
  have "scope_wf (mr_scope (new_record E (ms_config ms) uuid now rq))" using remember(2) by (simp add: new_record_def)
  from on_journal_keeps [OF _ keeps_coordinate(1) [OF this]] remember(1,3) show ?case
    unfolding ms_remember_def by (cases "remember_validate rq (cg_dims (ms_config ms))") auto
next
  case (remember_all jf ws uuids now now2 rqs ms ms' res)
  let ?recs = "map (\<lambda>(n, rq). new_record E (ms_config ms) (uuids n) now rq) (zip [0..<length rqs] rqs)"
  have "\<forall>rec\<in>set ?recs. scope_wf (mr_scope rec)" using remember_all(2)
    by (auto simp: new_record_def list_all_iff dest!: set_zip_rightD)
  from on_journal_keeps [OF _ keeps_coordinate(2) [OF this]] remember_all(1,3) show ?case
    unfolding ms_remember_batch_def by (cases "validate_all rqs (cg_dims (ms_config ms))") (auto split: if_splits)
next
  case (change sf jf w now now2 up ms ms' res)
  then show ?case using on_journal_keeps [OF _ keeps_coordinate(3)] unfolding ms_update_def
    by (cases "update_validate up (cg_dims (ms_config ms))"; cases "repo_get E sf (up_scope up) (up_id up) (ms_db ms)")
      (auto split: option.splits if_splits)
next
  case (forget sf now fg ms ms' res)
  then show ?case using on_journal_keeps [OF _ keeps_coordinate(4)] unfolding ms_forget_def by blast
next
  case (forget_all sf now sc ids ms ms' res)
  then show ?case using on_journal_keeps [OF _ keeps_coordinate(5)] unfolding ms_forget_batch_def by (auto split: if_splits)
next
  case (rebuild sf ws ms ms' res)
  then show ?case using on_journal_keeps [OF _ keeps_rebuild_active] unfolding ms_rebuild_index_def by blast
next
  case (purge sf sf_active ws batch now ms ms' res)
  obtain ms1 r1 where 1: "on_journal (on_db (repo_vacuum E sf batch now)) ms = (ms1, r1)" by fastforce
  obtain ms2 r2 where 2: "on_journal (rebuild_active E ops sf_active ws) ms1 = (ms2, r2)" by fastforce
  note a = on_journal_keeps [OF 1 keeps_db_ops(8) purge(2)]
  then have b: "P (ms_journal ms2) \<and> ms_config ms2 = ms_config ms1" by (intro on_journal_keeps [OF 2 keeps_rebuild_active]) simp
  from purge(1) have "ms' = ms \<or> ms' = ms1 \<or> ms' = ms2"
    unfolding ms_vacuum_def ms_rebuild_index_def 1
    by (cases r1; cases r2) (auto simp: 2 split: if_splits)
  then show ?case using a b purge(2) by auto
next
  case (back_up bp target ms ms' res)
  obtain ms1 r1 where 1: "on_journal (on_index (io_backup ops (bp_world bp) target)) ms = (ms1, r1)" by fastforce
  from back_up(1) have "ms' = ms \<or> ms' = ms1" unfolding ms_backup_def
    by (cases r1; cases "repo_backup E (bp_sql bp) (bp_path bp) (ms_db ms)") (auto simp: 1 split: option.splits)
  then show ?case using on_journal_keeps [OF 1 keeps_index_ops(6) back_up(2)] back_up(2) by auto
qed

lemma session_keeps:
  "(store_step E ops)\<^sup>*\<^sup>* ms ms' \<Longrightarrow> P (ms_journal ms) \<Longrightarrow> P (ms_journal ms') \<and> ms_config ms' = ms_config ms"
  by (induction rule: rtranclp_induct) (auto dest: step_keeps)

end

section \<open>The database of a session\<close>

text \<open>Whatever the index does, the database of a session is one that the methods of the repository reach.\<close>

interpretation reached: store_invariant E ops "\<lambda>st. (db_step E)\<^sup>*\<^sup>* d (jn_db st)"
  for E :: "'j store_env" and ops :: "('ix, 'j) index_ops" and d
  by unfold_locales (simp_all add: rtranclp.rtrancl_into_rtrancl)

section \<open>The index of a session\<close>

text \<open>The index keeps no file: it has no log, no directory and no sealed segments.\<close>

definition in_memory :: "nat \<Rightarrow> metric \<Rightarrow> 'b vivy_vector_index \<Rightarrow> bool" where
  "in_memory n m vv \<longleftrightarrow> vv_dims vv = n \<and> vv_metric vv = m
     \<and> vx_dir (vv_index vv) = None \<and> vx_wal (vv_index vv) = None \<and> vx_sealed (vv_index vv) = []"

lemma in_memory_number: "vv_number i vv = (vv', k) \<Longrightarrow> in_memory n m vv \<Longrightarrow> in_memory n m vv'"
  by (auto simp: vv_number_def in_memory_def Let_def split: option.splits)

lemma in_memory_numbers: "vv_numbers is vv = (vv', ks) \<Longrightarrow> in_memory n m vv \<Longrightarrow> in_memory n m vv'"
  by (induction "is" arbitrary: vv ks) (auto split: prod.splits dest: in_memory_number)

lemma in_memory_fields [simp]:
  "in_memory n m (vv_clear_tomb i vv) = in_memory n m vv" "in_memory n m (vv\<lparr> vv_tombs := t \<rparr>) = in_memory n m vv"
  "in_memory n m (vv\<lparr> vv_ids := ids, vv_names := names, vv_next := k \<rparr>) = in_memory n m vv"
  by (simp_all add: in_memory_def vv_clear_tomb_def)

lemma in_memory_insert: "vv_insert A what w i v vv = (vv', res) \<Longrightarrow> in_memory n m vv \<Longrightarrow> in_memory n m vv'"
  by (auto simp: vv_insert_def vivy_insert_with_id_def vivy_log_def shard_insert_def in_memory_def Let_def
      split: prod.splits if_splits outcome.splits)

lemma in_memory_upsert:
  assumes "vv_upsert A w i v vv = (vv', res)" "in_memory n m vv"
  shows "in_memory n m vv'"
proof -
  obtain vv1 k where 1: "vv_number i vv = (vv1, k)" by fastforce
  have "in_memory n m (vv_clear_tomb i vv1)" using in_memory_number [OF 1 assms(2)] by simp
  from in_memory_insert [OF _ this] show ?thesis using assms 1 by (auto simp: vv_upsert_def split: if_splits)
qed

lemma in_memory_inserts: "vv_inserts A ws es vv = (vv', res) \<Longrightarrow> in_memory n m vv \<Longrightarrow> in_memory n m vv'"
proof (induction A ws es vv rule: vv_inserts.induct)
  case (2 A ws k v es vv)
  obtain vv1 r1 where 1: "vv_insert A ''VivyIndex batch insert failed: '' (ws 0) k v vv = (vv1, r1)" by fastforce
  note m1 = in_memory_insert [OF 1 2(3)]
  show ?case using 2(2) 1 m1 2(1) [of vv1] by (cases r1) auto
qed simp

lemma in_memory_rebuild:
  assumes "vv_rebuild A ws recs vv = (vv', res)" "in_memory n m vv"
  shows "in_memory n m vv'"
proof (cases "res = Ok ()")
  case True
  with assms(1) obtain ix where "ofold (vv_rebuild_step A ws)
       \<lparr> vv_dims = vv_dims vv, vv_metric = vv_metric vv, vv_index = ix, vv_ids = (\<lambda>_. None),
         vv_names = (\<lambda>_. None), vv_tombs = (\<lambda>_. None), vv_next = 1 \<rparr> (zip [0..<length recs] recs) = Ok vv'" (is "ofold _ ?v0 _ = _")
    and ix: "vx_dir ix = None" "vx_wal ix = None" "vx_sealed ix = []"
    by (auto simp: vv_rebuild_def vivy_new_memory split: outcome.splits)
  from this(1) show ?thesis
  proof (rule ofold_invariant)
    show "in_memory n m ?v0" using assms(2) ix by (simp add: in_memory_def)
    fix v kr v' assume "in_memory n m v" "vv_rebuild_step A ws v kr = Ok v'"
    then show "in_memory n m v'"
      by (auto simp: vv_rebuild_step_def Let_def outcome_iff split: prod.splits if_splits dest: in_memory_insert)
  qed
next
  case False
  then show ?thesis using vv_rebuild_failed [OF assms(1)] assms(2) by simp
qed

lemma in_memory_rebuilt:
  assumes "vv_rebuild A ws recs vv = (vv', Ok ())"
  shows "in_memory (vv_dims vv) (vv_metric vv) vv'"
proof -
  have "in_memory (vv_dims vv) (vv_metric vv) (vv\<lparr> vv_index := (vv_index vv)\<lparr> vx_dir := None, vx_wal := None, vx_sealed := [] \<rparr> \<rparr>)"
    by (simp add: in_memory_def)
  moreover have "vv_rebuild A ws recs (vv\<lparr> vv_index := (vv_index vv)\<lparr> vx_dir := None, vx_wal := None, vx_sealed := [] \<rparr> \<rparr>) = (vv', Ok ())"
    using assms by (auto simp: vv_rebuild_def split: outcome.splits)
  ultimately show ?thesis using in_memory_rebuild by blast
qed

lemma in_memory_tombs: "in_memory n m vv \<Longrightarrow> vv_remove_batch ids vv = (vv', res) \<Longrightarrow> in_memory n m vv'"
  by (auto simp: vv_remove_batch_def)

lemma in_memory_upsert_batch:
  assumes "vv_upsert_batch A ws es vv = (vv', res)" "in_memory n m vv"
  shows "in_memory n m vv'"
proof -
  obtain vv1 ns where 1: "vv_numbers (map fst es) vv = (vv1, ns)" by fastforce
  have "in_memory n m (foldl (\<lambda>x i. vv_clear_tomb i x) vv1 ids)" for ids
    using in_memory_numbers [OF 1 assms(2)] by (induction ids arbitrary: vv1) simp_all
  then show ?thesis using assms 1
    by (auto simp: vv_upsert_batch_def split: option.splits prod.splits dest: in_memory_inserts)
qed

lemma in_memory_backup:
  "vv_backup A w target vv = (vv', res) \<Longrightarrow> in_memory n m vv \<Longrightarrow> vv' = vv \<and> (\<forall>out. res = Ok out \<longrightarrow> out = target)"
  by (auto simp: vv_backup_def vivy_flush_and_copy_def in_memory_def split: option.splits)

interpretation memory_index: store_invariant E "vivy_ops A :: ('b vivy_vector_index, 'j) index_ops"
    "\<lambda>st. in_memory n m (jn_index st)"
  for E :: "'j store_env" and A :: "'b adapter_env" and n m
proof (unfold_locales, goal_cases)
  case (2 st w i v ix res)
  then show ?case using in_memory_upsert [of A w i v "jn_index st" ix res n m] by (simp add: vivy_ops_def)
qed (auto simp: vivy_ops_def vv_remove_def dest: in_memory_tombs in_memory_upsert_batch in_memory_rebuild in_memory_backup)


text \<open>Before the first rebuild the index may have files; its dimension and its metric stay.\<close>

definition shaped :: "nat \<Rightarrow> metric \<Rightarrow> 'b vivy_vector_index \<Rightarrow> bool" where
  "shaped n m vv \<longleftrightarrow> vv_dims vv = n \<and> vv_metric vv = m"

lemma shaped_fields [simp]:
  "shaped n m (vv_clear_tomb i vv) = shaped n m vv" "shaped n m (vv\<lparr> vv_tombs := t \<rparr>) = shaped n m vv"
  "shaped n m (vv\<lparr> vv_index := ix \<rparr>) = shaped n m vv"
  by (simp_all add: shaped_def vv_clear_tomb_def)

lemma shaped_number: "vv_number i vv = (vv', k) \<Longrightarrow> shaped n m vv \<Longrightarrow> shaped n m vv'"
  by (auto simp: vv_number_def shaped_def Let_def split: option.splits)

lemma shaped_numbers: "vv_numbers is vv = (vv', ks) \<Longrightarrow> shaped n m vv \<Longrightarrow> shaped n m vv'"
  by (induction "is" arbitrary: vv ks) (auto split: prod.splits dest: shaped_number)

lemma shaped_insert: "vv_insert A what w i v vv = (vv', res) \<Longrightarrow> shaped n m vv \<Longrightarrow> shaped n m vv'"
  using vv_insert_frame [of A what w i v vv] by auto

lemma shaped_upsert:
  assumes "vv_upsert A w i v vv = (vv', res)" "shaped n m vv"
  shows "shaped n m vv'"
proof -
  obtain vv1 k where 1: "vv_number i vv = (vv1, k)" by fastforce
  have "shaped n m (vv_clear_tomb i vv1)" using shaped_number [OF 1 assms(2)] by simp
  from shaped_insert [OF _ this] show ?thesis using assms 1 by (auto simp: vv_upsert_def split: if_splits)
qed

lemma shaped_inserts: "vv_inserts A ws es vv = (vv', res) \<Longrightarrow> shaped n m vv \<Longrightarrow> shaped n m vv'"
proof (induction A ws es vv rule: vv_inserts.induct)
  case (2 A ws k v es vv)
  obtain vv1 r1 where 1: "vv_insert A ''VivyIndex batch insert failed: '' (ws 0) k v vv = (vv1, r1)" by fastforce
  note m1 = shaped_insert [OF 1 2(3)]
  show ?case using 2(2) 1 m1 2(1) [of vv1] by (cases r1) auto
qed simp

lemma shaped_upsert_batch:
  assumes "vv_upsert_batch A ws es vv = (vv', res)" "shaped n m vv"
  shows "shaped n m vv'"
proof -
  obtain vv1 ns where 1: "vv_numbers (map fst es) vv = (vv1, ns)" by fastforce
  have "shaped n m (foldl (\<lambda>x i. vv_clear_tomb i x) vv1 ids)" for ids
    using shaped_numbers [OF 1 assms(2)] by (induction ids arbitrary: vv1) simp_all
  then show ?thesis using assms 1
    by (auto simp: vv_upsert_batch_def split: option.splits prod.splits dest: shaped_inserts)
qed

lemma shaped_rebuild:
  assumes "vv_rebuild A ws recs vv = (vv', res)" "shaped n m vv"
  shows "shaped n m vv'"
  using assms in_memory_rebuilt [of A ws recs vv vv'] vv_rebuild_failed [OF assms(1)]
  by (cases "res = Ok ()") (auto simp: in_memory_def shaped_def)

interpretation index_shape: store_invariant E "vivy_ops A :: ('b vivy_vector_index, 'j) index_ops"
    "\<lambda>st. shaped n m (jn_index st)"
  for E :: "'j store_env" and A :: "'b adapter_env" and n m
proof (unfold_locales, goal_cases)
  case (2 st w i v ix res)
  then show ?case using shaped_upsert [of A w i v "jn_index st" ix res n m] by (simp add: vivy_ops_def)
qed (auto simp: vivy_ops_def vv_remove_def vv_remove_batch_def vv_backup_def split: prod.splits
    dest: shaped_upsert_batch shaped_rebuild)

section \<open>Opening\<close>

lemma recover_in_memory:
  fixes E :: "'j store_env"
  assumes "recover_startup E (vivy_ops A) rp st = (st', Ok n)"
  shows "in_memory (vv_dims (jn_index st)) (vv_metric (jn_index st)) (jn_index st')"
proof -
  obtain pend st1 vv and recs :: "'j memory_record list" where
    r: "recover_ops E (vivy_ops A) (rp_ops rp) (rp_op_worlds rp) (rp_clock rp) pend 0 st = (st1, Ok n)"
    and b: "io_rebuild (vivy_ops A) (rp_worlds rp) recs (jn_index st1) = (vv, Ok ())" and st': "st' = st1\<lparr> jn_index := vv \<rparr>"
    by (rule recover_startup_Ok [OF assms])
  have "shaped (vv_dims (jn_index st)) (vv_metric (jn_index st)) (jn_index st1)"
    by (rule keepsD [OF keeps_recover_ops [OF index_shape.keeps_recover_op] r]) (simp add: shaped_def)
  moreover have "in_memory (vv_dims (jn_index st1)) (vv_metric (jn_index st1)) vv"
    by (rule in_memory_rebuilt) (use b in \<open>simp add: vivy_ops_def\<close>)
  ultimately show ?thesis by (simp add: shaped_def st')
qed

lemma ms_open_Ok:
  fixes E :: "'j store_env"
  assumes "ms_open E A pl cfg db wal dir = (db', Ok ms)"
  obtains d n vv where "repo_open E (on_open pl) (on_migrate pl) (on_check pl) (on_answer pl) (on_now pl) db = (d, Ok ())"
    "vv_dims vv = cg_dims cfg" "vv_metric vv = Cosine" "ms_config ms = cfg" "ms_db ms = db'"
    "recover_startup E (vivy_ops A) (on_recovery pl) \<lparr> jn_db = d, jn_index = vv \<rparr> = (ms_journal ms, Ok n)"
proof -
  have "on_mkdir pl = None" using assms by (auto simp: ms_open_def split: option.splits)
  with assms obtain d vv where
    1: "repo_open E (on_open pl) (on_migrate pl) (on_check pl) (on_answer pl) (on_now pl) db = (d, Ok ())"
    and 2: "vv_new_with_dir A (on_random pl) (on_wal pl) (on_manifest pl) (cg_dims cfg) Cosine (Some (wal, dir)) = Ok vv"
    and r: "(case recover_startup E (vivy_ops A) (on_recovery pl) \<lparr> jn_db = d, jn_index = vv \<rparr> of
             (st, res) \<Rightarrow> (jn_db st, obind res (\<lambda>_. Ok \<lparr> ms_config = cfg, ms_journal = st \<rparr>))) = (db', Ok ms)"
    unfolding ms_open_def option.case \<open>on_mkdir pl = None\<close> and_then_Ok_iff prod.inject by auto
  obtain st res where 3: "recover_startup E (vivy_ops A) (on_recovery pl) \<lparr> jn_db = d, jn_index = vv \<rparr> = (st, res)" by fastforce
  with r have 4: "db' = jn_db st" "obind res (\<lambda>_. Ok \<lparr> ms_config = cfg, ms_journal = st \<rparr>) = Ok ms" by simp_all
  from 4(2) obtain n where n: "res = Ok n" "ms = \<lparr> ms_config = cfg, ms_journal = st \<rparr>" by (auto simp: outcome_iff)
  have "vv_dims vv = cg_dims cfg" "vv_metric vv = Cosine" using 2 by (auto simp: vv_new_with_dir_def outcome_iff)
  then show thesis using that 1 3 4(1) n by (simp add: ms_db_def)
qed

lemma opened:
  assumes "ms_open E A pl cfg db wal dir = (db', Ok ms)"
  shows "(db_step E)\<^sup>*\<^sup>* db (ms_db ms) \<and> ms_config ms = cfg \<and> in_memory (cg_dims cfg) Cosine (jn_index (ms_journal ms))"
proof -
  obtain d n vv where 1: "repo_open E (on_open pl) (on_migrate pl) (on_check pl) (on_answer pl) (on_now pl) db = (d, Ok ())"
    and vv: "vv_dims vv = cg_dims cfg" "vv_metric vv = Cosine" and cfg: "ms_config ms = cfg"
    and 2: "recover_startup E (vivy_ops A) (on_recovery pl) \<lparr> jn_db = d, jn_index = vv \<rparr> = (ms_journal ms, Ok n)"
    using assms by (rule ms_open_Ok)
  have "(db_step E)\<^sup>*\<^sup>* db (jn_db (ms_journal ms))"
    by (rule keepsD [OF reached.keeps_startup 2]) (use open_db [OF 1] in simp)
  then show ?thesis using cfg recover_in_memory [OF 2] vv by (simp add: ms_db_def)
qed

lemma session:
  assumes "ms_open E A pl cfg db wal dir = (db', Ok ms0)" "(store_step E (vivy_ops A))\<^sup>*\<^sup>* ms0 ms"
  shows "(db_step E)\<^sup>*\<^sup>* db (ms_db ms) \<and> ms_config ms = cfg \<and> in_memory (cg_dims cfg) Cosine (jn_index (ms_journal ms))"
  using reached.session_keeps [OF assms(2), of db] memory_index.session_keeps [OF assms(2)] opened [OF assms(1)]
  by (simp add: ms_db_def)


text \<open>C4: The invariant of a session. From opening on any database that the store can have left (and
  any files of the index), through any sequence of public calls with any outcome of each: the
  configuration stays, the database keeps its invariant (unique ids, wellformed scopes, the full-text
  table is that of the live memories), and the index keeps its dimension and its metric and has no
  file of its own, so that everything it holds comes from the database.\<close>

theorem session_invariant:
  assumes "ms_open E A pl cfg db wal dir = (db', Ok ms0)" "(store_step E (vivy_ops A))\<^sup>*\<^sup>* ms0 ms"
    and "(db_step E)\<^sup>*\<^sup>* empty_db db"
  shows "db_inv (ms_db ms) \<and> (db_step E)\<^sup>*\<^sup>* empty_db (ms_db ms) \<and> ms_config ms = cfg
    \<and> in_memory (cg_dims cfg) Cosine (jn_index (ms_journal ms))"
  using session [OF assms(1,2)] rtranclp_trans [OF assms(3), of "ms_db ms"] reachable_inv [OF _ empty_db_inv] by blast

section \<open>Backups\<close>

lemma same_memories_read:
  assumes "repo_get E no_faults sc i db = Ok (Some rec)" "env_ok E" "db_wf d"
    and "\<And>r. r \<in> set (db_memories db) \<Longrightarrow> record_of_row E StPending r = Ok rec \<Longrightarrow> r \<in> set (db_memories d)"
  shows "repo_get E no_faults sc i d = Ok (Some rec)"
  using assms(1,2)
proof (rule repo_get_Some)
  fix r assume r: "r \<in> set (db_memories db)" "r_id r = i" "in_scope sc r" "record_of_row E StPending r = Ok rec"
  from repo_get_row [OF assms(2,3) assms(4) [OF r(1,4)] r(3,4)] show ?thesis by (simp add: r(2))
qed

lemma reopened:
  assumes "ms_open E A pl cfg db wal dir = (db', Ok ms)" "db_inv db" "env_ok E" "length (db_memories db) < 2 ^ 64 - 1"
  shows "vv_live (jn_index (ms_journal ms)) = searchable (cg_dims cfg) (ms_db ms) \<and> db_inv (ms_db ms)
    \<and> (\<exists>A. db_memories (ms_db ms) = map (activated A) (db_memories db))"
proof -
  obtain d n vv where 1: "repo_open E (on_open pl) (on_migrate pl) (on_check pl) (on_answer pl) (on_now pl) db = (d, Ok ())"
    and vv: "vv_dims vv = cg_dims cfg"
    and 2: "recover_startup E (vivy_ops A) (on_recovery pl) \<lparr> jn_db = d, jn_index = vv \<rparr> = (ms_journal ms, Ok n)"
    using assms(1) by (rule ms_open_Ok)
  have d: "db_inv d" "db_memories d = db_memories db" using repo_open_inv [OF 1 assms(2)] by simp_all
  from vv.recovery [OF 2 assms(3)] d assms(4)
  show ?thesis by (auto simp: vv ms_db_def db_effect_def)
qed

lemma read_after_reopen:
  assumes "ms_open E A pl cfg db wal dir = (db', Ok ms)" "db_inv db" "env_ok E" "length (db_memories db) < 2 ^ 64 - 1"
    and "repo_get E no_faults sc i db = Ok (Some rec)" "mr_status rec \<noteq> StPending"
  shows "repo_get E no_faults sc i (ms_db ms) = Ok (Some rec)"
proof -
  from reopened [OF assms(1-4)] obtain B where inv: "db_inv (ms_db ms)"
    and mem: "db_memories (ms_db ms) = map (activated B) (db_memories db)" by blast
  show ?thesis
  proof (rule same_memories_read [OF assms(5,3)])
    show "db_wf (ms_db ms)" using inv by (simp add: db_inv_def)
    fix r assume r: "r \<in> set (db_memories db)" "record_of_row E StPending r = Ok rec"
    have "r_status r \<noteq> ''pending''"
      using r(2) assms(6) by (auto simp: record_of_row_def outcome_iff status_parse_def)
    then have "activated B r = r" by (simp add: activated_def)
    then show "r \<in> set (db_memories (ms_db ms))" using r(1) unfolding mem by (metis image_eqI list.set_map)
  qed
qed

lemma ms_backup_Ok:
  fixes E :: "'j store_env"
  assumes "ms_backup E (vivy_ops A) bp target ms = (ms', Ok (copy, out))" "in_memory n m (jn_index (ms_journal ms))"
  shows "copy = ms_db ms \<and> out = target \<and> ms' = ms"
proof -
  from assms(1) obtain ms1 where "repo_backup E (bp_sql bp) (bp_path bp) (ms_db ms) = Ok copy"
    and 2: "on_journal (on_index (io_backup (vivy_ops A :: (_, 'j) index_ops) (bp_world bp) target)) ms = (ms1, Ok out)" and "ms' = ms1"
    unfolding ms_backup_def by (auto simp: and_then_Ok_iff split: option.splits)
  moreover have "copy = ms_db ms" using calculation(1) by (auto simp: repo_backup_def sql_def split: if_splits option.splits)
  moreover from 2 obtain vv where b: "vv_backup A (bp_world bp) target (jn_index (ms_journal ms)) = (vv, Ok out)"
    and ms1: "ms1 = ms\<lparr> ms_journal := (ms_journal ms)\<lparr> jn_index := vv \<rparr> \<rparr>"
    by (auto simp: on_journal_def on_index_def vivy_ops_def split: prod.splits)
  moreover have "vv = jn_index (ms_journal ms)" "out = target" using in_memory_backup [OF b assms(2)] by simp_all
  ultimately show ?thesis by simp
qed

text \<open>C19: A backup of a session is complete without any file of the index: the copy of the database is
  the database of the store, nothing is written to the target for the index (although the operation is
  documented to copy its segments), the store is unchanged, and a store opened on the copy reads back
  every memory that is not pending exactly and searches exactly its active memories.\<close>

theorem backup_restores:
  assumes "ms_open E A pl cfg db wal dir = (db', Ok ms0)" "(store_step E (vivy_ops A))\<^sup>*\<^sup>* ms0 ms"
    and "(db_step E)\<^sup>*\<^sup>* empty_db db" "env_ok E"
    and "ms_backup E (vivy_ops A) bp target ms = (ms1, Ok (copy, out))"
    and "ms_open E A pl2 cfg2 copy wal2 out = (db2, Ok ms2)" "length (db_memories (ms_db ms)) < 2 ^ 64 - 1"
  shows "copy = ms_db ms \<and> out = target \<and> ms1 = ms
    \<and> (\<forall>sc i rec. ms_get E no_faults sc i ms = Ok (Some rec) \<and> mr_status rec \<noteq> StPending \<longrightarrow>
         ms_get E no_faults sc i ms2 = Ok (Some rec))
    \<and> vv_live (jn_index (ms_journal ms2)) = searchable (cg_dims cfg2) (ms_db ms2)"
proof -
  note s = session [OF assms(1,2)]
  then have b: "copy = ms_db ms \<and> out = target \<and> ms1 = ms" using ms_backup_Ok [OF assms(5)] by blast
  have inv: "db_inv copy" using b s reachable_inv [OF rtranclp_trans [OF assms(3)] empty_db_inv] by blast
  have len: "length (db_memories copy) < 2 ^ 64 - 1" using assms(7) b by simp
  show ?thesis using b reopened [OF assms(6) inv assms(4) len] read_after_reopen [OF assms(6) inv assms(4) len]
    by (simp add: ms_get_def)
qed

section \<open>A concrete session\<close>

definition demo_open_plan :: open_plan where
  "demo_open_plan = \<lparr> on_mkdir = None, on_open = no_faults, on_migrate = no_faults, on_check = no_faults, on_answer = ''ok'',
     on_now = 5, on_random = (\<lambda>_. f_one), on_wal = None, on_manifest = None, on_recovery = demo_plan \<rparr>"

definition demo_config :: memory_config where
  "demo_config = \<lparr> cg_path = ''db'', cg_dims = 2, cg_model = ''m'', cg_max_recall = 100 \<rparr>"

definition demo_dir :: data_dir where
  "demo_dir = \<lparr> dd_manifest = None, dd_tmp = None, dd_files = [] \<rparr>"

lemma demo_repo_open: "repo_open demo_env no_faults no_faults no_faults ''ok'' 5 demo_active = (demo_active, Ok ())"
  by (simp add: repo_open_def repo_migrate_def transact_def max_version_def repo_integrity_check_def lowers_to_ok_def
      demo_active_def demo_db_def)

lemma demo_new_index:
  "\<exists>vv. vv_new_with_dir demo_adapter (\<lambda>_. f_one) None None 2 Cosine (Some (None, demo_dir)) = Ok vv \<and> vv_dims vv = 2"
  by (simp add: vv_new_with_dir_def vivy_new_def wal_replay_def wal_open_def manifest_segments_def manifest_load_def
      scan_dir_def demo_dir_def Let_def)

lemma demo_recover_opened:
  assumes "vv_dims vv = 2"
  shows "\<exists>v2. recover_startup demo_env demo_ops demo_plan \<lparr> jn_db = demo_active, jn_index = vv \<rparr>
    = (\<lparr> jn_db = demo_active, jn_index = v2 \<rparr>, Ok 0)"
proof -
  have p: "repo_pending_ops demo_env no_faults demo_active = Ok []"
    by (simp add: repo_pending_ops_def demo_active_def demo_scan op_row_of_def collect_rows_def)
  have a: "repo_active_records demo_env no_faults demo_active = Ok [demo_rec\<lparr> mr_status := StActive \<rparr>]"
    using demo_read [of StActive StActive]
    by (simp add: repo_active_records_def demo_scan demo_active_def collect_rows_def row_status_record)
  have "\<exists>vv'. vv_rebuild demo_adapter (\<lambda>_. demo_world) [demo_rec\<lparr> mr_status := StActive \<rparr>] vv = (vv', Ok ())"
    by (simp add: vv_rebuild_def vivy_new_memory vv_rebuild_step_def demo_record_def assms)
  then show ?thesis
    by (simp add: recover_startup_def rebuild_active_def ask_def demo_plan_def p a on_index_def) (force simp: vivy_ops_def)
qed

lemma demo_store_open:
  "\<exists>vv. ms_open demo_env demo_adapter demo_open_plan demo_config demo_active None demo_dir
    = (demo_active, Ok \<lparr> ms_config = demo_config, ms_journal = \<lparr> jn_db = demo_active, jn_index = vv \<rparr> \<rparr>)"
proof -
  obtain vv where v: "vv_new_with_dir demo_adapter (\<lambda>_. f_one) None None 2 Cosine (Some (None, demo_dir)) = Ok vv" "vv_dims vv = 2"
    using demo_new_index by blast
  obtain v2 where r: "recover_startup demo_env demo_ops demo_plan \<lparr> jn_db = demo_active, jn_index = vv \<rparr>
    = (\<lparr> jn_db = demo_active, jn_index = v2 \<rparr>, Ok 0)" using demo_recover_opened [OF v(2)] by blast
  show ?thesis using demo_repo_open
    by (auto simp: ms_open_def demo_open_plan_def demo_config_def v(1) r)
qed

definition demo_backup :: backup_plan where
  "demo_backup = \<lparr> bp_mkdir = None, bp_clear = None, bp_path = ''copy'', bp_sql = no_faults, bp_world = demo_world \<rparr>"

lemma demo_backed_up:
  assumes "in_memory n m (jn_index (ms_journal ms))" "ms_db ms = demo_active"
  shows "ms_backup demo_env demo_ops demo_backup demo_dir ms = (ms, Ok (demo_active, demo_dir))"
proof -
  have "repo_backup demo_env no_faults ''copy'' demo_active = Ok demo_active"
    by (simp add: repo_backup_def valid_utf8_ascii)
  moreover have "vv_backup demo_adapter demo_world demo_dir (jn_index (ms_journal ms)) = (jn_index (ms_journal ms), Ok demo_dir)"
    using assms(1) by (simp add: vv_backup_def vivy_flush_and_copy_def in_memory_def demo_world_def)
  ultimately show ?thesis
    by (simp add: ms_backup_def demo_backup_def assms(2) on_journal_def on_index_def) (simp add: vivy_ops_def)
qed

theorem session_invariant_witness:
  "\<exists>ms0 ms. ms_open demo_env demo_adapter demo_open_plan demo_config demo_active None demo_dir = (demo_active, Ok ms0)
    \<and> store_step demo_env demo_ops ms0 ms \<and> db_inv (ms_db ms) \<and> ms_config ms = demo_config
    \<and> in_memory 2 Cosine (jn_index (ms_journal ms))"
proof -
  obtain ms0 where 0: "ms_open demo_env demo_adapter demo_open_plan demo_config demo_active None demo_dir = (demo_active, Ok ms0)"
    using demo_store_open by blast
  obtain ms res where "ms_forget demo_env demo_ops no_faults 9
      \<lparr> fg_operation = None, fg_scope = demo_scope, fg_id = ''a'' \<rparr> ms0 = (ms, res)" by fastforce
  then have 1: "store_step demo_env demo_ops ms0 ms" by (rule store_step.forget)
  then have s: "(store_step demo_env demo_ops)\<^sup>*\<^sup>* ms0 ms" by blast
  from session_invariant [OF 0 s demo_active_reachable] 0 1 show ?thesis
    by (auto simp: demo_config_def)
qed

theorem backup_restores_witness:
  "\<exists>ms0 ms2. ms_open demo_env demo_adapter demo_open_plan demo_config demo_active None demo_dir = (demo_active, Ok ms0)
    \<and> ms_backup demo_env demo_ops demo_backup demo_dir ms0 = (ms0, Ok (demo_active, demo_dir))
    \<and> ms_open demo_env demo_adapter demo_open_plan demo_config demo_active None demo_dir = (demo_active, Ok ms2)
    \<and> ms_get demo_env no_faults demo_scope ''a'' ms2 = Ok (Some (demo_rec\<lparr> mr_status := StActive \<rparr>))"
proof -
  obtain ms0 where 0: "ms_open demo_env demo_adapter demo_open_plan demo_config demo_active None demo_dir = (demo_active, Ok ms0)"
    and db: "ms_db ms0 = demo_active" using demo_store_open by (auto simp: ms_db_def)
  obtain ms2 where 2: "ms_open demo_env demo_adapter demo_open_plan demo_config demo_active None demo_dir = (demo_active, Ok ms2)"
    using demo_store_open by blast
  have b: "ms_backup demo_env demo_ops demo_backup demo_dir ms0 = (ms0, Ok (demo_active, demo_dir))"
    using demo_backed_up opened [OF 0] db by blast
  have g: "ms_get demo_env no_faults demo_scope ''a'' ms0 = Ok (Some (demo_rec\<lparr> mr_status := StActive \<rparr>))"
    using demo_get by (simp add: ms_get_def db)
  have len: "length (db_memories (ms_db ms0)) < 2 ^ 64 - 1" by (simp add: db demo_active_def)
  from backup_restores [OF 0 rtranclp.rtrancl_refl demo_active_reachable demo_env_ok b 2 len] g
  have "ms_get demo_env no_faults demo_scope ''a'' ms2 = Ok (Some (demo_rec\<lparr> mr_status := StActive \<rparr>))" by auto
  then show ?thesis using 0 b 2 by blast
qed

end
