(* ===== verification/Batch_Safety.thy ===== *)
theory Batch_Safety
  imports Store_Session
begin

text \<open>
  Batches (\<open>remember_batch\<close> and its path through the coordinator and the repository): every record of a
  batch that is accepted can be read, and a repeated operation id refuses the batch as a whole.
\<close>

section \<open>Remember a batch, then read\<close>

lemma insert_batch_rows:
  assumes "ofold (insert_batch_step E sf ops now) db irs = Ok d"
  shows "set (db_memories db) \<union> row_of_record E ` snd ` set irs \<subseteq> set (db_memories d)"
  using assms
proof (induction irs arbitrary: db)
  case (Cons ir irs)
  obtain n rec where ir: "ir = (n, rec)" by fastforce
  from Cons.prems obtain d1 where 1: "insert_batch_step E sf ops now db (n, rec) = Ok d1"
    and 2: "ofold (insert_batch_step E sf ops now) d1 irs = Ok d" by (auto simp: outcome_iff ir)
  from 1 obtain d0 where "insert_row (row_of_record E rec) db = Some d0"
    "op_added (\<lambda>i. op_row_of i (mr_id rec) ''remember'' (payload_of E rec) ''pending'' now None) (opt_at ops n) d0 d1"
    by (rule insert_batch_step_Ok)
  then have "set (db_memories db) \<union> {row_of_record E rec} \<subseteq> set (db_memories d1)"
    using op_added_frame by (fastforce simp: insert_row_def split: if_splits)
  with Cons.IH [OF 2] show ?case by (auto simp: ir)
qed simp

lemma repo_insert_batch_Ok:
  assumes "repo_insert_pending_batch E sf recs ops now db = (d, Ok u)"
  shows "row_of_record E ` set recs \<subseteq> set (db_memories d)"
proof (cases "recs = []")
  case False
  with assms have "ofold (insert_batch_step E sf ops now) db (zip [0..<length recs] recs) = Ok d"
    by (auto simp: repo_insert_pending_batch_def outcome_iff)
  from insert_batch_rows [OF this] show ?thesis by (simp add: set_map [symmetric] del: set_map)
qed simp

lemma set_status_batch_rows:
  assumes "ofold (\<lambda>d (n, i). sql E sf (SpExec n) msg (Some (update_rows (\<lambda>r. r_id r = i) (\<lambda>r. r\<lparr> r_status := s \<rparr>) d))) db nis = Ok d"
    and "r \<in> set (db_memories db)"
  shows "(if r_id r \<in> snd ` set nis then r\<lparr> r_status := s \<rparr> else r) \<in> set (db_memories d)"
  using assms
proof (induction nis arbitrary: db r)
  case (Cons ni nis)
  obtain n i where ni: "ni = (n, i)" by fastforce
  let ?d1 = "update_rows (\<lambda>r. r_id r = i) (\<lambda>r. r\<lparr> r_status := s \<rparr>) db"
  have 1: "ofold (\<lambda>d (n, i). sql E sf (SpExec n) msg (Some (update_rows (\<lambda>r. r_id r = i) (\<lambda>r. r\<lparr> r_status := s \<rparr>) d))) ?d1 nis = Ok d"
    using Cons.prems(1) by (auto simp: outcome_iff ni)
  have "(if r_id r = i then r\<lparr> r_status := s \<rparr> else r) \<in> set (db_memories ?d1)"
    using Cons.prems(2) by (auto simp: update_rows_def simp del: if_image_distrib)
  from Cons.IH [OF 1 this] show ?case by (auto simp: ni split: if_splits)
qed simp

lemma repo_set_status_batch_Ok:
  assumes "repo_set_status_batch E sf ids st db = (d, Ok u)" "r \<in> set (db_memories db)" "r_id r \<in> set ids"
  shows "r\<lparr> r_status := status_str st \<rparr> \<in> set (db_memories d)"
proof -
  from assms(1,3) have "ofold (\<lambda>d (n, i). sql E sf (SpExec n) ''Failed to update status in batch: ''
      (Some (update_rows (\<lambda>r. r_id r = i) (\<lambda>r. r\<lparr> r_status := status_str st \<rparr>) d))) db (zip [0..<length ids] ids) = Ok d"
    by (auto simp: repo_set_status_batch_def outcome_iff split: if_splits)
  from set_status_batch_rows [OF this assms(2)] assms(3) show ?thesis
    by (simp add: set_map [symmetric] del: set_map)
qed

lemma repo_mark_batch_memories:
  assumes "repo_mark_applied_batch E sf ops now db = (d, Ok u)"
  shows "db_memories d = db_memories db"
proof (cases "ops = []")
  case False
  with assms have "ofold (\<lambda>d (n, op). sql E sf (SpExec n) ''Failed to mark operation applied in batch: ''
      (Some (update_ops (\<lambda>o'. o_id o' = op) (apply_op now) d))) db (zip [0..<length ops] ops) = Ok d"
    by (auto simp: repo_mark_applied_batch_def outcome_iff)
  then show ?thesis
    by (rule ofold_invariant [where P = "\<lambda>d. db_memories d = db_memories db"]) (auto simp: outcome_iff update_ops_def)
qed (use assms in \<open>simp add: repo_mark_applied_batch_def\<close>)

lemma remember_batch_active:
  assumes "coordinate_remember_batch E ops jf ws now recs opids st = (st', Ok ids)" "rec \<in> set recs"
  shows "ids = map mr_id recs" "made_active E rec \<in> set (db_memories (jn_db st'))"
proof -
  let ?ids = "map mr_id recs" and ?applied = "List.map_filter id opids"
  from assms obtain st1 st2 st3 where 1: "on_db (repo_insert_pending_batch E (jf 0) recs opids now) st = (st1, Ok ())"
    and 2: "on_index (io_upsert_batch ops ws (map (\<lambda>r. (mr_id r, mr_embedding r)) recs)) st1 = (st2, Ok ())"
    and 3: "on_db (repo_set_status_batch E (jf 1) ?ids StActive) st2 = (st3, Ok ())"
    and 4: "(if ?applied = [] then (st3, Ok ()) else on_db (repo_mark_applied_batch E (jf 2) ?applied now) st3) = (st', Ok ())"
    and i: "ids = ?ids"
    unfolding coordinate_remember_batch_def Let_def by (auto simp: and_then_Ok_iff split: if_splits)
  show "ids = map mr_id recs" by (rule i)
  from 1 obtain d1 where d1: "repo_insert_pending_batch E (jf 0) recs opids now (jn_db st) = (d1, Ok ())" "jn_db st1 = d1"
    unfolding on_db_Ok_iff by auto
  from 3 obtain d3 where d3: "repo_set_status_batch E (jf 1) ?ids StActive (jn_db st2) = (d3, Ok ())" "jn_db st3 = d3"
    unfolding on_db_Ok_iff by auto
  have "row_of_record E rec \<in> set (db_memories (jn_db st2))"
    using repo_insert_batch_Ok [OF d1(1)] assms(2) by (auto simp: on_index_db [OF 2] d1(2))
  from repo_set_status_batch_Ok [OF d3(1) this] assms(2) have "made_active E rec \<in> set (db_memories (jn_db st3))"
    by (simp add: d3(2) made_active_def row_of_record_def)
  moreover have "db_memories (jn_db st') = db_memories (jn_db st3)"
    using 4 by (auto simp: on_db_Ok_iff repo_mark_batch_memories split: if_splits)
  ultimately show "made_active E rec \<in> set (db_memories (jn_db st'))" by simp
qed

lemma nth_zip_upto: "n < length xs \<Longrightarrow> (n, xs ! n) \<in> set (zip [0..<length xs] xs)"
  by (force simp: set_zip)

text \<open>C25: A batch that is remembered can be read, all of it. When \<open>remember_batch\<close> returns, it returns the
  new ids in the order of the requests, and a read of each of them in the scope of its request gives the
  new record, active, at revision 1: every field as its request gave it, except that metadata and source
  are what the JSON library makes of them when it prints and parses them, which is the same again when
  they hold no floating-point number (and are not nested too deep).\<close>

theorem batch_remembered_is_readable:
  assumes "ms_remember_batch E ops jf ws uuids now now2 rqs ms = (ms', Ok ids)" "env_ok E" "(db_step E)\<^sup>*\<^sup>* empty_db (ms_db ms)"
    and "\<And>k. k < length rqs \<Longrightarrow> record_ok (new_record E (ms_config ms) (uuids k) now (rqs ! k))" "n < length rqs"
  shows "ids = map uuids [0..<length rqs]
    \<and> ms_get E no_faults (rq_scope (rqs ! n)) (uuids n) ms'
      = Ok (Some ((new_record E (ms_config ms) (uuids n) now (rqs ! n))\<lparr> mr_status := StActive,
          mr_metadata := json_reread E (rq_metadata (rqs ! n)), mr_source := json_reread E (rq_source (rqs ! n)) \<rparr>))
    \<and> (ev_plain E (rq_metadata (rqs ! n)) \<longrightarrow> json_reread E (rq_metadata (rqs ! n)) = rq_metadata (rqs ! n))
    \<and> (ev_plain E (rq_source (rqs ! n)) \<longrightarrow> json_reread E (rq_source (rqs ! n)) = rq_source (rqs ! n))"
proof -
  let ?new = "\<lambda>(k, rq). new_record E (ms_config ms) (uuids k) now rq"
  let ?recs = "map ?new (zip [0..<length rqs] rqs)" and ?rec = "new_record E (ms_config ms) (uuids n) now (rqs ! n)"
  have ids: "map mr_id ?recs = map uuids [0..<length rqs]" by (rule nth_equalityI) (simp_all add: new_record_def)
  have fields: "mr_id ?rec = uuids n" "mr_scope ?rec = rq_scope (rqs ! n)" by (simp_all add: new_record_def)
  have mem: "?rec \<in> set ?recs" using imageI [OF nth_zip_upto [OF assms(5)], of ?new] by simp
  have ok: "record_ok rec" if m: "rec \<in> set ?recs" for rec
  proof -
    obtain k where k: "k < length rqs" "rec = ?new (k, rqs ! k)" using m by (auto simp: in_set_conv_nth)
    show ?thesis unfolding k(2) prod.case by (rule assms(4) [OF k(1)])
  qed
  obtain st where run: "coordinate_remember_batch E ops jf ws now2 ?recs (map rq_operation rqs) (ms_journal ms) = (st, Ok ids)"
    and ms': "ms' = ms\<lparr> ms_journal := st \<rparr>"
    using assms(1,5) unfolding ms_remember_batch_def
    by (cases "rqs = []") (auto simp only: if_False list.size and_then_Ok_iff on_journal_Ok_iff prod.inject)
  have row: "made_active E ?rec \<in> set (db_memories (ms_db ms'))" and r: "ids = map mr_id ?recs"
    using remember_batch_active [OF run mem] by (simp_all add: ms_db_def ms')
  have "\<forall>rec\<in>set ?recs. scope_wf (mr_scope rec)" using ok by (simp add: record_ok_def)
  then have "(db_step E)\<^sup>*\<^sup>* empty_db (ms_db ms')"
    using keepsD [OF reached.keeps_coordinate(2) run] assms(3) by (simp add: ms_db_def ms')
  then have "db_inv (ms_db ms')" by (rule reachable_inv) (rule empty_db_inv)
  from active_row_reads [OF assms(2) this ok [OF mem] row, of "rq_scope (rqs ! n)"]
  show ?thesis unfolding r ids by (simp add: fields reread_def json_reread_plain [OF assms(2)])
qed

definition demo_batch :: "string remember_request list" where
  "demo_batch = [demo_remember, demo_remember\<lparr> rq_operation := None, rq_content := ''grass is green'' \<rparr>]"

definition demo_uuids :: "nat \<Rightarrow> string" where
  "demo_uuids k = (if k = 0 then ''a'' else ''b'')"

lemma demo_batch_valid: "validate_all demo_batch 1 = Ok ()"
proof -
  have "trim ''sky is blue'' = ''sky is blue''" "trim ''grass is green'' = ''grass is green''" by (rule trim_visible; simp)+
  then show ?thesis
    by (simp add: validate_all_def demo_batch_def remember_validate_def demo_remember_def unit_range_def f_le_def f_key_def is_nan_def)
qed

lemma demo_batch_remembered:
  "\<exists>ms'. ms_remember_batch demo_env (test_ops id) no_call_faults (\<lambda>_. demo_world) demo_uuids 5 5 demo_batch demo_empty_store
    = (ms', Ok [''a'', ''b''])"
proof -
  let ?recs = "map (\<lambda>(n, rq). new_record demo_env (ms_config demo_empty_store) (demo_uuids n) 5 rq) (zip [0..<length demo_batch] demo_batch)"
  let ?a = "new_record demo_env (ms_config demo_empty_store) ''a'' 5 demo_remember"
  let ?b = "new_record demo_env (ms_config demo_empty_store) ''b'' 5 (demo_remember\<lparr> rq_operation := None, rq_content := ''grass is green'' \<rparr>)"
  have recs: "?recs = [?a, ?b]" and opids: "map rq_operation demo_batch = [Some ''op'', None]"
    by (simp_all add: demo_batch_def demo_uuids_def demo_remember_def)
  have f: "mr_id ?a = ''a''" "mr_id ?b = ''b''" "mr_embedding ?a = [f_one]" "mr_embedding ?b = [f_one]"
    "mr_importance ?a = f_one" "mr_importance ?b = f_one" by (simp_all add: new_record_def demo_remember_def)
  have ids: "r_id (row_of_record demo_env ?a) = ''a''" "r_id (row_of_record demo_env ?b) = ''b''"
    "r_importance (row_of_record demo_env ?a) = f_one" "r_importance (row_of_record demo_env ?b) = f_one"
    by (simp_all add: row_of_record_def f)
  obtain d where ins: "repo_insert_pending_batch demo_env no_faults [?a, ?b] [Some ''op'', None] 5 demo_db = (d, Ok ())"
    by (simp add: repo_insert_pending_batch_def transact_def insert_batch_step_def opt_at_def insert_row_def insert_op_def
        demo_db_def fts_insert_def op_row_of_def ids f demo_not_nan)
  have up: "io_upsert_batch (test_ops id) ws [(''a'', [f_one]), (''b'', [f_one])] (ti_new 1)
      = (\<lparr> ti_dims = 1, ti_vectors = [(''a'', [f_one]), (''b'', [f_one])] \<rparr>, Ok ())" for ws
    by (simp add: test_ops_def ti_upsert_def ti_new_def)
  have j: "ms_journal demo_empty_store = \<lparr> jn_db = demo_db, jn_index = ti_new 1 \<rparr>" "cg_dims (ms_config demo_empty_store) = 1"
    by (simp_all add: demo_empty_store_def)
  have "demo_batch \<noteq> []" by (simp add: demo_batch_def)
  then have step: "ms_remember_batch demo_env (test_ops id) no_call_faults (\<lambda>_. demo_world) demo_uuids 5 5 demo_batch demo_empty_store
      = on_journal (coordinate_remember_batch demo_env (test_ops id) no_call_faults (\<lambda>_. demo_world) 5 [?a, ?b] [Some ''op'', None])
          demo_empty_store"
    by (simp only: ms_remember_batch_def if_False j(2) demo_batch_valid and_then.simps recs opids)
  show ?thesis
    unfolding step on_journal_def j(1) coordinate_remember_batch_def
    by (simp add: f on_db_def no_call_faults_def ins on_index_def up [simplified] repo_set_status_batch_def repo_mark_applied_batch_def
        transact_def List.map_filter_def)
qed

theorem batch_remembered_is_readable_witness:
  "\<exists>ms'. ms_remember_batch demo_env (test_ops id) no_call_faults (\<lambda>_. demo_world) demo_uuids 5 5 demo_batch demo_empty_store
      = (ms', Ok [''a'', ''b''])
    \<and> ms_get demo_env no_faults demo_scope ''b'' ms' = Ok (Some ((new_record demo_env (ms_config demo_empty_store) ''b'' 5
        (demo_remember\<lparr> rq_operation := None, rq_content := ''grass is green'' \<rparr>))\<lparr> mr_status := StActive,
          mr_metadata := (\<lambda>_. None), mr_source := (\<lambda>_. None) \<rparr>))"
proof -
  obtain ms' where run: "ms_remember_batch demo_env (test_ops id) no_call_faults (\<lambda>_. demo_world) demo_uuids 5 5 demo_batch demo_empty_store
    = (ms', Ok [''a'', ''b''])" using demo_batch_remembered by blast
  have ok: "record_ok (new_record demo_env (ms_config demo_empty_store) (demo_uuids k) 5 (demo_batch ! k))"
    if "k < length demo_batch" for k
  proof -
    have "k = 0 \<or> k = 1" using that by (auto simp: demo_batch_def)
    then show ?thesis
      by (auto simp: demo_batch_def record_ok_def new_record_def demo_remember_def demo_scope_wf valid_utf8_ascii
          demo_empty_store_def)
  qed
  have "1 < length demo_batch" by (simp add: demo_batch_def)
  moreover have "ev_plain demo_env (\<lambda>_. None)" by (simp add: demo_env_def)
  ultimately show ?thesis using batch_remembered_is_readable [OF run demo_env_ok demo_empty_store_reached(1) ok, of 1] run
    by (auto simp: demo_batch_def demo_uuids_def demo_remember_def)
qed

section \<open>Repeated operation ids\<close>

lemma insert_batch_fresh:
  assumes "ofold (insert_batch_step E sf ops now) db irs = Ok d" "(k, rec) \<in> set irs" "opt_at ops k = Some op"
  shows "op \<notin> o_id ` set (db_ops db)"
  using assms(1,2)
proof (induction irs arbitrary: db)
  case (Cons ir irs)
  obtain n rec' where ir: "ir = (n, rec')" by fastforce
  from Cons.prems(1) obtain d1 where 1: "insert_batch_step E sf ops now db (n, rec') = Ok d1"
    and 2: "ofold (insert_batch_step E sf ops now) d1 irs = Ok d" by (auto simp: outcome_iff ir)
  from 1 obtain d0 where r: "insert_row (row_of_record E rec') db = Some d0"
    and o': "op_added (\<lambda>i. op_row_of i (mr_id rec') ''remember'' (payload_of E rec') ''pending'' now None) (opt_at ops n) d0 d1"
    by (rule insert_batch_step_Ok)
  have same: "db_ops d0 = db_ops db" using r by (auto simp: insert_row_def split: if_splits)
  have sub: "set (db_ops db) \<subseteq> set (db_ops d1)" using op_added_frame [OF o'] same by auto
  show ?case
  proof (cases "n = k")
    case True
    then show ?thesis using o' assms(3) same by (auto simp: op_added_def insert_op_def op_row_of_def split: if_splits)
  next
    case False
    then have "(k, rec) \<in> set irs" using Cons.prems(2) ir by auto
    from Cons.IH [OF 2 this] show ?thesis using sub by blast
  qed
qed simp

lemma repo_batch_refused:
  assumes "repo_insert_pending_batch E sf recs ops now db = (d, res)" "n < length recs" "opt_at ops n = Some op"
    and "op \<in> o_id ` set (db_ops db)"
  shows "d = db \<and> res \<noteq> Ok ()"
proof -
  have "ofold (insert_batch_step E sf ops now) db (zip [0..<length recs] recs) \<noteq> Ok d'" for d'
    using insert_batch_fresh [OF _ nth_zip_upto [OF assms(2)] assms(3)] assms(4) by blast
  then show ?thesis using assms(1,2) by (cases "recs = []")
    (auto simp: repo_insert_pending_batch_def transact_def outcome_iff split: outcome.splits prod.splits)
qed

text \<open>C31: Unlike \<open>remember\<close>, a batch does not look its operation ids up: when one of them is in the journal,
  as after a retry of a batch that was committed, \<open>remember_batch\<close> never returns ids, and it changes
  neither the database nor the index.\<close>

theorem batch_retry_refused:
  assumes "ms_remember_batch E ops jf ws uuids now now2 rqs ms = (ms', res)" "n < length rqs" "rq_operation (rqs ! n) = Some op"
    and "op \<in> o_id ` set (db_ops (ms_db ms))"
  shows "ms' = ms \<and> res \<noteq> Ok ids"
proof (cases "validate_all rqs (cg_dims (ms_config ms))")
  case (Ok u)
  let ?recs = "map (\<lambda>(n, rq). new_record E (ms_config ms) (uuids n) now rq) (zip [0..<length rqs] rqs)"
  let ?ops = "map rq_operation rqs"
  obtain d r where ins: "repo_insert_pending_batch E (jf 0) ?recs ?ops now2 (ms_db ms) = (d, r)" by fastforce
  have "opt_at ?ops n = Some op" using assms(2,3) by (simp add: opt_at_def)
  from repo_batch_refused [OF ins _ this assms(4)] assms(2) have d: "d = ms_db ms" "r \<noteq> Ok ()" by simp_all
  have "rqs \<noteq> []" "?recs \<noteq> []" using assms(2) by auto
  then have "ms_remember_batch E ops jf ws uuids now now2 rqs ms = on_journal (coordinate_remember_batch E ops jf ws now2 ?recs ?ops) ms"
    using Ok by (simp only: ms_remember_batch_def if_False and_then.simps)
  moreover have "on_db (repo_insert_pending_batch E (jf 0) ?recs ?ops now2) (ms_journal ms) = (ms_journal ms, r)"
    using ins d(1) by (simp add: on_db_def ms_db_def)
  ultimately show ?thesis using assms(1) \<open>?recs \<noteq> []\<close> d(2)
    by (cases r) (auto simp: on_journal_def coordinate_remember_batch_def Let_def)
qed (use assms(1,2) in \<open>auto simp: ms_remember_batch_def split: if_splits\<close>)

text \<open>The store after a remember with the operation id \<open>op\<close> was cut short.\<close>

definition demo_retry_store :: "test_index memory_store" where
  "demo_retry_store = demo_empty_store\<lparr> ms_journal := \<lparr> jn_db = demo_crashed, jn_index = ti_new 1 \<rparr> \<rparr>"

theorem batch_retry_refused_witness:
  "fst (ms_remember_batch demo_env (test_ops id) no_call_faults (\<lambda>_. demo_world) demo_uuids 5 5 demo_batch demo_retry_store)
      = demo_retry_store
    \<and> snd (ms_remember_batch demo_env (test_ops id) no_call_faults (\<lambda>_. demo_world) demo_uuids 5 5 demo_batch demo_retry_store)
      \<noteq> Ok [''a'', ''b'']"
proof (rule batch_retry_refused [OF prod.collapse [symmetric]])
  show "0 < length demo_batch" "rq_operation (demo_batch ! 0) = Some ''op''" by (simp_all add: demo_batch_def demo_remember_def)
  show "''op'' \<in> o_id ` set (db_ops (ms_db demo_retry_store))"
    by (simp add: ms_db_def demo_retry_store_def demo_empty_store_def demo_crashed_def op_row_of_def)
qed

end
