(* ===== verification/Python_Api.thy ===== *)
theory Python_Api
  imports Store_Session
begin

text \<open>
  The Python bindings (\<open>py/src/lib.rs\<close>): the conversions of arguments and results around the calls of the
  engine and of the store. What PyO3 finds in a Python object is a parameter: one function for each
  conversion the code asks for. Dictionaries are lists of their items in iteration order, hash maps
  association lists with distinct keys. Releasing the interpreter lock has no effect on one caller.
\<close>

section \<open>Python objects and errors\<close>

datatype py_error = PyValueError string | PyTypeError string | PyRaised string

type_synonym 'a pyresult = "(py_error, 'a) outcome"

text \<open>\<open>px_array1\<close>: the contents of a one-dimensional \<open>float32\<close> array with the error of \<open>as_slice\<close> when it is
  not contiguous; \<open>px_array2\<close>: the rows of a two-dimensional one, those that are not contiguous missing.\<close>

record ('p, 'j) py_env =
  px_array1 :: "'p \<Rightarrow> (f32 list \<times> string option) option"
  px_array2 :: "'p \<Rightarrow> f32 list option list option"
  px_interface :: "'p \<Rightarrow> bool pyresult"
  px_floats :: "'p \<Rightarrow> f32 list option"
  px_list :: "'p \<Rightarrow> 'p list option"
  px_string :: "'p \<Rightarrow> string pyresult"
  px_strings :: "'p \<Rightarrow> string list option"
  px_bool :: "'p \<Rightarrow> bool option"
  px_int :: "'p \<Rightarrow> i64 option"
  px_double :: "'p \<Rightarrow> u64 option"
  px_float :: "'p \<Rightarrow> f32 option"
  px_dict :: "'p \<Rightarrow> ('p \<times> 'p) list option"
  px_item :: "'p \<Rightarrow> string \<Rightarrow> 'p option pyresult"
  px_json_bool :: "bool \<Rightarrow> 'j"
  px_json_int :: "i64 \<Rightarrow> 'j"
  px_json_double :: "u64 \<Rightarrow> 'j option"
  px_json_string :: "string \<Rightarrow> 'j"
  px_io_text :: "io_error \<Rightarrow> string"

text \<open>The texts of the errors of the engine.\<close>

fun wal_display :: "('p, 'j) py_env \<Rightarrow> wal_error \<Rightarrow> string" where
  "wal_display X (WalIo e) = ''I/O: '' @ px_io_text X e"
| "wal_display X (WalCorrupt off) = ''corrupt entry at offset '' @ nat_str off"

fun seg_display :: "('p, 'j) py_env \<Rightarrow> segment_error \<Rightarrow> string" where
  "seg_display X SegBadMagic = ''invalid magic bytes''"
| "seg_display X (SegUnsupportedVersion v) = ''unsupported version '' @ nat_str (unat v)"
| "seg_display X (SegIo e) = ''I/O error: '' @ px_io_text X e"
| "seg_display X SegTruncated = ''file too small''"
| "seg_display X SegDimensionMismatch = ''dimension mismatch''"

fun vivy_display :: "('p, 'j) py_env \<Rightarrow> vivy_error \<Rightarrow> string" where
  "vivy_display X (VivyWal e) = ''WAL error: '' @ wal_display X e"
| "vivy_display X (VivySegment e) = ''Segment error: '' @ seg_display X e"
| "vivy_display X (VivyIo e) = ''IO error: '' @ px_io_text X e"
| "vivy_display X VivyDimensionMismatch = ''Dimension mismatch''"

definition py_memory_error :: "memory_error \<Rightarrow> py_error" where
  "py_memory_error e = PyValueError (me_display e)"

definition py_vivy_error :: "('p, 'j) py_env \<Rightarrow> vivy_error \<Rightarrow> py_error" where
  "py_vivy_error X e = PyValueError (vivy_display X e)"

section \<open>Vectors\<close>

datatype py_vector = PvList "f32 list" | PvNumPy "f32 list" "string option"

definition not_a_vector :: string where
  "not_a_vector = ''vector must be a list of floats or a contiguous 1D numpy array with dtype=float32''"

definition pv_extract :: "('p, 'j) py_env \<Rightarrow> 'p \<Rightarrow> py_vector pyresult" where
  "pv_extract X obj =
     (case px_array1 X obj of
        Some (arr, bad) \<Rightarrow>
          if bad = None then Ok (PvNumPy arr bad)
          else Err (PyValueError ''numpy array must be a contiguous 1D array with dtype=float32'')
      | None \<Rightarrow>
          obind (px_interface X obj) (\<lambda>b.
          if b then Err (PyTypeError not_a_vector)
          else (case px_floats X obj of Some v \<Rightarrow> Ok (PvList v) | None \<Rightarrow> Err (PyTypeError not_a_vector))))"

fun pv_slice :: "py_vector \<Rightarrow> f32 list pyresult" where
  "pv_slice (PvList v) = Ok v"
| "pv_slice (PvNumPy arr None) = Ok arr"
| "pv_slice (PvNumPy arr (Some e)) = Err (PyValueError (''failed to access contiguous numpy slice: '' @ e))"

fun pv_into :: "py_vector \<Rightarrow> f32 list pyresult" where
  "pv_into (PvList v) = Ok v"
| "pv_into (PvNumPy arr None) = Ok arr"
| "pv_into (PvNumPy arr (Some e)) = Err (PyValueError (''failed to access contiguous numpy slice: '' @ e))"

section \<open>Dictionaries\<close>

definition parse_metadata :: "('p, 'j) py_env \<Rightarrow> ('p \<times> 'p) list option \<Rightarrow> (string \<times> string) list pyresult" where
  "parse_metadata X dict =
     (case dict of
        None \<Rightarrow> Ok []
      | Some d \<Rightarrow> omap (\<lambda>(key, val). obind (px_string X key) (\<lambda>k. obind (px_string X val) (\<lambda>v. Ok (k, v)))) d)"

definition filter_entry :: "('p, 'j) py_env \<Rightarrow> 'p \<times> 'p \<Rightarrow> filter_expr pyresult" where
  "filter_entry X kv =
     (case kv of (key, val) \<Rightarrow>
       obind (px_string X key) (\<lambda>field.
       case px_string X val of
         Ok s \<Rightarrow> Ok (FEquals field s)
       | _ \<Rightarrow> (case px_strings X val of
                 Some ss \<Rightarrow> Ok (FIn field ss)
               | None \<Rightarrow> Err (PyValueError ''filter values must be a string or a list of strings''))))"

definition parse_filter :: "('p, 'j) py_env \<Rightarrow> ('p \<times> 'p) list option \<Rightarrow> filter_expr option pyresult" where
  "parse_filter X dict =
     (case dict of
        None \<Rightarrow> Ok None
      | Some d \<Rightarrow> obind (omap (filter_entry X) d) (\<lambda>exprs.
          case exprs of [] \<Rightarrow> Ok None | [e] \<Rightarrow> Ok (Some e) | _ \<Rightarrow> Ok (Some (FAnd exprs))))"

definition py_json :: "('p, 'j) py_env \<Rightarrow> 'p \<Rightarrow> 'j pyresult" where
  "py_json X val =
     (case px_bool X val of Some b \<Rightarrow> Ok (px_json_bool X b) | None \<Rightarrow>
      case px_int X val of Some i \<Rightarrow> Ok (px_json_int X i) | None \<Rightarrow>
      case px_double X val of
        Some f \<Rightarrow> (case px_json_double X f of
                     Some j \<Rightarrow> Ok j
                   | None \<Rightarrow> Err (PyValueError ''invalid float value in metadata''))
      | None \<Rightarrow>
      case px_string X val of
        Ok s \<Rightarrow> Ok (px_json_string X s)
      | _ \<Rightarrow> Err (PyTypeError ''metadata values must be strings, ints, floats, or bools''))"

definition parse_py_metadata :: "('p, 'j) py_env \<Rightarrow> ('p \<times> 'p) list \<Rightarrow> (string \<times> 'j) list pyresult" where
  "parse_py_metadata X d =
     ofold (\<lambda>m (k, v). obind (px_string X k) (\<lambda>key. obind (py_json X v) (\<lambda>j. Ok (AList.update key j m)))) [] d"

definition parse_opt_metadata :: "('p, 'j) py_env \<Rightarrow> ('p \<times> 'p) list option \<Rightarrow> (string \<times> 'j) list option pyresult" where
  "parse_opt_metadata X dict =
     (case dict of None \<Rightarrow> Ok None | Some d \<Rightarrow> obind (parse_py_metadata X d) (\<lambda>m. Ok (Some m)))"

definition default_metadata :: "('p, 'j) py_env \<Rightarrow> ('p \<times> 'p) list option \<Rightarrow> (string \<times> 'j) list pyresult" where
  "default_metadata X dict = (case dict of None \<Rightarrow> Ok [] | Some d \<Rightarrow> parse_py_metadata X d)"

definition parse_scope :: "string \<Rightarrow> string \<Rightarrow> string option \<Rightarrow> string option \<Rightarrow> memory_scope pyresult" where
  "parse_scope tenant_id namespace agent_id user_id =
     map_err py_memory_error (obind (scope_new tenant_id namespace) (\<lambda>sc.
       obind (case agent_id of None \<Rightarrow> Ok sc | Some a \<Rightarrow> scope_with_agent a sc) (\<lambda>sc1.
       case user_id of None \<Rightarrow> Ok sc1 | Some u \<Rightarrow> scope_with_user u sc1)))"

text \<open>\<open>kind.to_lowercase()\<close> against names of ASCII letters without a \<open>k\<close>: no other character is lowered
  to one of theirs.\<close>

definition ascii_lower :: "string \<Rightarrow> string" where
  "ascii_lower s = map (\<lambda>c. let n = of_char c :: nat in if 65 \<le> n \<and> n \<le> 90 then char_of (n + 32) else c) s"

definition py_kind :: "string \<Rightarrow> memory_kind" where
  "py_kind s =
     (let k = ascii_lower s in
      if k = ''preference'' then KPreference else if k = ''fact'' then KFact
      else if k = ''instruction'' then KInstruction else if k = ''context'' then KContext else KEpisodic)"

definition py_batch_kind :: "string option \<Rightarrow> memory_kind" where
  "py_batch_kind so =
     (let k = ascii_lower (case so of None \<Rightarrow> ''fact'' | Some s \<Rightarrow> s) in
      if k = ''preference'' then KPreference else if k = ''instruction'' then KInstruction
      else if k = ''context'' then KContext else if k = ''episodic'' then KEpisodic else KFact)"

section \<open>The index class\<close>

definition py_index_new :: "('p, 'j) py_env \<Rightarrow> 'b runtime \<Rightarrow> nat \<Rightarrow> string \<Rightarrow> 'b vivy_index pyresult" where
  "py_index_new X R dims name =
     obind (if name = ''l2'' \<or> name = ''L2'' then Ok L2
            else if name = ''cosine'' \<or> name = ''Cosine'' then Ok Cosine
            else if name = ''dot'' \<or> name = ''Dot'' then Ok Dot
            else Err (PyValueError (''unknown metric: '' @ name))) (\<lambda>m.
     map_err (\<lambda>e. PyValueError (wal_display X e)) (vivy_new R (\<lambda>_. f_zero) None None dims m None None))"

text \<open>A call on the index after the arguments are converted.\<close>

definition with_args :: "'a pyresult \<Rightarrow> ('a \<Rightarrow> 's \<times> ('e, 'c) outcome) \<Rightarrow> ('e \<Rightarrow> py_error) \<Rightarrow> 's \<Rightarrow> 's \<times> 'c pyresult" where
  "with_args args call err s =
     (case args of
        Ok a \<Rightarrow> (case call a of (s', res) \<Rightarrow> (s', map_err err res))
      | Err e \<Rightarrow> (s, Err e)
      | Panic \<Rightarrow> (s, Panic))"

definition py_insert ::
  "('p, 'j) py_env \<Rightarrow> 'b runtime \<Rightarrow> f32 \<Rightarrow> log_faults \<Rightarrow> 'p \<Rightarrow> ('p \<times> 'p) list option \<Rightarrow> 'b vivy_index
    \<Rightarrow> 'b vivy_index \<times> u64 pyresult" where
  "py_insert X R r lf vector metadata ix =
     with_args (obind (parse_metadata X metadata) (\<lambda>meta. obind (pv_extract X vector) (\<lambda>pv.
                obind (pv_into pv) (\<lambda>v. Ok (v, meta)))))
       (\<lambda>(v, meta). vivy_insert_with_metadata R r lf v meta ix) (py_vivy_error X) ix"

definition py_vectors :: "('p, 'j) py_env \<Rightarrow> 'p \<Rightarrow> f32 list list pyresult" where
  "py_vectors X vectors =
     (case px_array2 X vectors of
        Some rows \<Rightarrow> omap (\<lambda>row. case row of Some v \<Rightarrow> Ok v
                     | None \<Rightarrow> Err (PyValueError ''2D numpy array must be C-contiguous float32'')) rows
      | None \<Rightarrow>
     (case px_list X vectors of
        Some seq \<Rightarrow> omap (\<lambda>item. obind (pv_extract X item) pv_into) seq
      | None \<Rightarrow> Err (PyTypeError ''vectors must be a list of vectors or a 2D float32 numpy array'')))"

definition py_insert_batch ::
  "('p, 'j) py_env \<Rightarrow> 'b runtime \<Rightarrow> (nat \<Rightarrow> f32) \<Rightarrow> log_faults \<Rightarrow> 'p \<Rightarrow> ('p \<times> 'p) list option list option
    \<Rightarrow> 'b vivy_index \<Rightarrow> 'b vivy_index \<times> u64 list pyresult" where
  "py_insert_batch X R rnd lf vectors metadata ix =
     with_args (obind (case metadata of None \<Rightarrow> Ok None | Some ds \<Rightarrow> obind (omap (parse_metadata X) ds) (\<lambda>ms. Ok (Some ms)))
         (\<lambda>metas. obind (py_vectors X vectors) (\<lambda>vs. Ok (vs, metas))))
       (\<lambda>(vs, metas). vivy_insert_batch_with_metadata R rnd lf vs metas ix) (py_vivy_error X) ix"

definition py_search ::
  "('p, 'j) py_env \<Rightarrow> 'b runtime \<Rightarrow> 'p \<Rightarrow> nat \<Rightarrow> ('p \<times> 'p) list option \<Rightarrow> 'b vivy_index \<Rightarrow> (u64 \<times> f32) list pyresult" where
  "py_search X R query k dict ix =
     obind (parse_filter X dict) (\<lambda>expr.
     obind (pv_extract X query) (\<lambda>pv.
     obind (pv_slice pv) (\<lambda>q.
     map_err (py_vivy_error X) (vivy_search_filtered R q k expr ix))))"

definition py_len :: "'b vivy_index \<Rightarrow> nat" where
  "py_len ix = vivy_delta_len ix"

section \<open>The store class\<close>

definition py_open ::
  "'j store_env \<Rightarrow> 'b adapter_env \<Rightarrow> open_plan \<Rightarrow> string \<Rightarrow> nat \<Rightarrow> string \<Rightarrow> nat \<Rightarrow> database \<Rightarrow> bytes option \<Rightarrow> data_dir
    \<Rightarrow> database \<times> 'b vivy_vector_index memory_store pyresult" where
  "py_open E A pl path dims model max_recall db wal dir =
     with_args (map_err py_memory_error (builder_build (builder_max_recall max_recall (builder_model model (builder_dims dims (builder_new path))))))
       (\<lambda>cfg. ms_open E A pl cfg db wal dir) py_memory_error db"

definition py_remember ::
  "('p, 'j) py_env \<Rightarrow> 'j store_env \<Rightarrow> ('ix, 'j) index_ops \<Rightarrow> call_faults \<Rightarrow> index_world \<Rightarrow> string \<Rightarrow> i64 \<Rightarrow> i64
    \<Rightarrow> string \<Rightarrow> string \<Rightarrow> string \<Rightarrow> 'p \<Rightarrow> string \<Rightarrow> f32 \<Rightarrow> string option \<Rightarrow> string option \<Rightarrow> string option \<Rightarrow> i64 option
    \<Rightarrow> ('p \<times> 'p) list option \<Rightarrow> 'ix memory_store \<Rightarrow> 'ix memory_store \<times> string pyresult" where
  "py_remember X E ops jf w uuid now now2 tenant namespace content embedding kind importance agent user operation expires metadata ms =
     with_args
       (obind (parse_scope tenant namespace agent user) (\<lambda>sc.
        obind (pv_extract X embedding) (\<lambda>pv.
        obind (pv_into pv) (\<lambda>v.
        obind (default_metadata X metadata) (\<lambda>meta.
        Ok \<lparr> rq_operation = operation, rq_scope = sc, rq_content = content, rq_embedding = v, rq_kind = py_kind kind,
             rq_importance = importance, rq_expires = expires, rq_metadata = map_of meta, rq_source = (\<lambda>_. None) \<rparr>)))))
       (\<lambda>rq. ms_remember E ops jf w uuid now now2 rq ms) py_memory_error ms"

text \<open>One record of a batch: required items, and optional ones that are ignored when they have another type.\<close>

definition required :: "('p, 'j) py_env \<Rightarrow> 'p \<Rightarrow> string \<Rightarrow> 'p pyresult" where
  "required X d key =
     obind (px_item X d key) (\<lambda>found.
     case found of None \<Rightarrow> Err (PyValueError (''missing '' @ key)) | Some v \<Rightarrow> Ok v)"

definition opt_item :: "('p, 'j) py_env \<Rightarrow> ('p \<Rightarrow> 'a option) \<Rightarrow> 'p \<Rightarrow> string \<Rightarrow> 'a option pyresult" where
  "opt_item X conv d key =
     obind (px_item X d key) (\<lambda>found. Ok (case found of None \<Rightarrow> None | Some v \<Rightarrow> conv v))"

definition opt_string :: "('p, 'j) py_env \<Rightarrow> 'p \<Rightarrow> string option" where
  "opt_string X v = (case px_string X v of Ok s \<Rightarrow> Some s | _ \<Rightarrow> None)"

definition batch_request :: "('p, 'j) py_env \<Rightarrow> 'p \<Rightarrow> 'j remember_request pyresult" where
  "batch_request X d =
     obind (obind (required X d ''tenant_id'') (px_string X)) (\<lambda>tenant.
     obind (obind (required X d ''namespace'') (px_string X)) (\<lambda>namespace.
     obind (obind (required X d ''content'') (px_string X)) (\<lambda>content.
     obind (obind (obind (required X d ''embedding'') (pv_extract X)) pv_into) (\<lambda>v.
     obind (opt_item X (px_float X) d ''importance'') (\<lambda>importance.
     obind (opt_item X (opt_string X) d ''agent_id'') (\<lambda>agent.
     obind (opt_item X (opt_string X) d ''user_id'') (\<lambda>user.
     obind (opt_item X (opt_string X) d ''operation_id'') (\<lambda>operation.
     obind (opt_item X (px_int X) d ''expires_at_ms'') (\<lambda>expires.
     obind (opt_item X (opt_string X) d ''kind'') (\<lambda>kind.
     obind (obind (opt_item X (px_dict X) d ''metadata'') (default_metadata X)) (\<lambda>meta.
     obind (parse_scope tenant namespace agent user) (\<lambda>sc.
     Ok \<lparr> rq_operation = operation, rq_scope = sc, rq_content = content, rq_embedding = v, rq_kind = py_batch_kind kind,
          rq_importance = (case importance of None \<Rightarrow> f_lit 1 2 | Some x \<Rightarrow> x), rq_expires = expires,
          rq_metadata = map_of meta, rq_source = (\<lambda>_. None) \<rparr>))))))))))))"

definition py_remember_batch ::
  "('p, 'j) py_env \<Rightarrow> 'j store_env \<Rightarrow> ('ix, 'j) index_ops \<Rightarrow> call_faults \<Rightarrow> (nat \<Rightarrow> index_world) \<Rightarrow> (nat \<Rightarrow> string) \<Rightarrow> i64 \<Rightarrow> i64
    \<Rightarrow> 'p list \<Rightarrow> 'ix memory_store \<Rightarrow> 'ix memory_store \<times> string list pyresult" where
  "py_remember_batch X E ops jf ws uuids now now2 records ms =
     with_args (omap (batch_request X) records)
       (\<lambda>rqs. ms_remember_batch E ops jf ws uuids now now2 rqs ms) py_memory_error ms"

definition py_recall_request ::
  "('p, 'j) py_env \<Rightarrow> string \<Rightarrow> string \<Rightarrow> 'p \<Rightarrow> string option \<Rightarrow> nat \<Rightarrow> string option \<Rightarrow> string option \<Rightarrow> bool \<Rightarrow> f32 option
    \<Rightarrow> ('p \<times> 'p) list option \<Rightarrow> 'j recall_request pyresult" where
  "py_recall_request X tenant namespace query txt limit agent user explain lambda metadata =
     obind (parse_scope tenant namespace agent user) (\<lambda>sc.
     obind (pv_extract X query) (\<lambda>pv.
     obind (pv_into pv) (\<lambda>q.
     obind (parse_opt_metadata X metadata) (\<lambda>meta.
     Ok \<lparr> rc_scope = sc, rc_query = q, rc_text = txt, rc_limit = limit, rc_filters = filter_default\<lparr> fl_metadata := meta \<rparr>,
          rc_explain = explain, rc_lambda = lambda \<rparr>))))"

definition py_recall ::
  "('p, 'j) py_env \<Rightarrow> 'j store_env \<Rightarrow> ('ix, 'j) index_ops \<Rightarrow> sql_faults \<Rightarrow> sql_faults \<Rightarrow> i64
    \<Rightarrow> string \<Rightarrow> string \<Rightarrow> 'p \<Rightarrow> string option \<Rightarrow> nat \<Rightarrow> string option \<Rightarrow> string option \<Rightarrow> bool \<Rightarrow> f32 option
    \<Rightarrow> ('p \<times> 'p) list option \<Rightarrow> 'ix memory_store \<Rightarrow> (string \<times> string \<times> f32) list pyresult" where
  "py_recall X E ops sf_fts sf_get now tenant namespace query txt limit agent user explain lambda metadata ms =
     obind (py_recall_request X tenant namespace query txt limit agent user explain lambda metadata) (\<lambda>rc.
     obind (map_err py_memory_error (ms_recall E ops sf_fts sf_get now rc ms)) (\<lambda>resp.
     Ok (map (\<lambda>it. (mr_id (ri_memory it), mr_content (ri_memory it), ri_score it)) (rr_items resp))))"

definition or_else :: "'a option \<Rightarrow> 'a option \<Rightarrow> 'a option" where
  "or_else a b = (case a of None \<Rightarrow> b | Some x \<Rightarrow> Some x)"

definition py_format_context ::
  "('p, 'j) py_env \<Rightarrow> 'j store_env \<Rightarrow> ('ix, 'j) index_ops \<Rightarrow> sql_faults \<Rightarrow> sql_faults \<Rightarrow> i64
    \<Rightarrow> string \<Rightarrow> string \<Rightarrow> 'p \<Rightarrow> string option \<Rightarrow> nat \<Rightarrow> nat \<Rightarrow> string option \<Rightarrow> string option \<Rightarrow> string option
    \<Rightarrow> string option \<Rightarrow> string option \<Rightarrow> ('p \<times> 'p) list option \<Rightarrow> 'ix memory_store \<Rightarrow> string pyresult" where
  "py_format_context X E ops sf_fts sf_get now tenant namespace query txt max_tokens limit template header footer agent user metadata ms =
     obind (py_recall_request X tenant namespace query txt limit agent user False (Some (f_lit 1 2)) metadata) (\<lambda>rc.
     let co = \<lparr> co_max_tokens = max_tokens,
                co_template = (case template of None \<Rightarrow> co_template context_default | Some t \<Rightarrow> t),
                co_header = or_else header (co_header context_default), co_footer = or_else footer (co_footer context_default) \<rparr>
     in map_err py_memory_error (ms_format_context E ops sf_fts sf_get now rc co ms))"

definition py_backup ::
  "'j store_env \<Rightarrow> ('ix, 'j) index_ops \<Rightarrow> backup_plan \<Rightarrow> data_dir \<Rightarrow> 'ix memory_store
    \<Rightarrow> 'ix memory_store \<times> (database \<times> data_dir) pyresult" where
  "py_backup E ops bp target ms =
     (case ms_backup E ops bp target ms of (ms', res) \<Rightarrow> (ms', map_err py_memory_error res))"

text \<open>The dictionary of an active record.\<close>

record py_memory =
  pm_id :: string
  pm_tenant :: string
  pm_namespace :: string
  pm_content :: string
  pm_importance :: f32
  pm_revision :: u64
  pm_created :: i64
  pm_updated :: i64
  pm_expires :: "i64 option"

definition py_memory_of :: "'j memory_record \<Rightarrow> py_memory" where
  "py_memory_of rec =
     \<lparr> pm_id = mr_id rec, pm_tenant = sc_tenant (mr_scope rec), pm_namespace = sc_namespace (mr_scope rec),
       pm_content = mr_content rec, pm_importance = mr_importance rec, pm_revision = mr_revision rec,
       pm_created = mr_created rec, pm_updated = mr_updated rec, pm_expires = mr_expires rec \<rparr>"

definition py_get ::
  "'j store_env \<Rightarrow> sql_faults \<Rightarrow> string \<Rightarrow> string \<Rightarrow> string \<Rightarrow> string option \<Rightarrow> string option \<Rightarrow> 'ix memory_store
    \<Rightarrow> py_memory option pyresult" where
  "py_get E sf tenant namespace i agent user ms =
     obind (parse_scope tenant namespace agent user) (\<lambda>sc.
     obind (map_err py_memory_error (ms_get E sf sc i ms)) (\<lambda>found.
     Ok (case found of
           None \<Rightarrow> None
         | Some rec \<Rightarrow> if mr_status rec = StActive then Some (py_memory_of rec) else None)))"

definition py_update ::
  "('p, 'j) py_env \<Rightarrow> 'j store_env \<Rightarrow> ('ix, 'j) index_ops \<Rightarrow> sql_faults \<Rightarrow> call_faults \<Rightarrow> index_world \<Rightarrow> i64 \<Rightarrow> i64
    \<Rightarrow> string \<Rightarrow> string \<Rightarrow> string \<Rightarrow> u64 \<Rightarrow> string option \<Rightarrow> 'p option \<Rightarrow> string option \<Rightarrow> f32 option
    \<Rightarrow> string option \<Rightarrow> string option \<Rightarrow> string option \<Rightarrow> i64 option \<Rightarrow> 'ix memory_store \<Rightarrow> 'ix memory_store \<times> unit pyresult" where
  "py_update X E ops sf jf w now now2 tenant namespace i expected content embedding kind importance agent user operation expires ms =
     with_args
       (obind (parse_scope tenant namespace agent user) (\<lambda>sc.
        obind (case embedding of None \<Rightarrow> Ok None
               | Some obj \<Rightarrow> obind (obind (pv_extract X obj) pv_into) (\<lambda>v. Ok (Some v))) (\<lambda>ev.
        Ok \<lparr> up_operation = operation, up_scope = sc, up_id = i, up_revision = expected, up_content = content,
             up_embedding = ev, up_kind = map_option py_kind kind, up_importance = importance,
             up_expires = map_option Some expires, up_metadata = None \<rparr>)))
       (\<lambda>up. ms_update E ops sf jf w now now2 up ms) py_memory_error ms"

definition py_forget ::
  "'j store_env \<Rightarrow> ('ix, 'j) index_ops \<Rightarrow> sql_faults \<Rightarrow> i64 \<Rightarrow> string \<Rightarrow> string \<Rightarrow> string \<Rightarrow> 'ix memory_store
    \<Rightarrow> 'ix memory_store \<times> unit pyresult" where
  "py_forget E ops sf now tenant namespace i ms =
     with_args (map_err py_memory_error (obind (scope_new tenant namespace) (\<lambda>sc. forget_new sc i)))
       (\<lambda>fg. ms_forget E ops sf now fg ms) py_memory_error ms"

definition py_forget_batch ::
  "'j store_env \<Rightarrow> ('ix, 'j) index_ops \<Rightarrow> sql_faults \<Rightarrow> i64 \<Rightarrow> string \<Rightarrow> string \<Rightarrow> string list \<Rightarrow> 'ix memory_store
    \<Rightarrow> 'ix memory_store \<times> unit pyresult" where
  "py_forget_batch E ops sf now tenant namespace ids ms =
     with_args (map_err py_memory_error (scope_new tenant namespace))
       (\<lambda>sc. ms_forget_batch E ops sf now sc ids ms) py_memory_error ms"

definition py_health ::
  "'j store_env \<Rightarrow> ('ix, 'j) index_ops \<Rightarrow> sql_faults \<Rightarrow> u64 option \<Rightarrow> u64 option \<Rightarrow> 'ix memory_store \<Rightarrow> store_health pyresult" where
  "py_health E ops sf db_len wal_len ms = map_err py_memory_error (ms_health E ops sf db_len wal_len ms)"

definition py_vacuum ::
  "'j store_env \<Rightarrow> ('ix, 'j) index_ops \<Rightarrow> sql_faults \<Rightarrow> sql_faults \<Rightarrow> (nat \<Rightarrow> index_world) \<Rightarrow> nat \<Rightarrow> i64 \<Rightarrow> 'ix memory_store
    \<Rightarrow> 'ix memory_store \<times> nat pyresult" where
  "py_vacuum E ops sf sf_active ws batch now ms =
     (case ms_vacuum E ops sf sf_active ws batch now ms of (ms', res) \<Rightarrow> (ms', map_err py_memory_error res))"

definition py_rebuild_index ::
  "'j store_env \<Rightarrow> ('ix, 'j) index_ops \<Rightarrow> sql_faults \<Rightarrow> (nat \<Rightarrow> index_world) \<Rightarrow> 'ix memory_store \<Rightarrow> 'ix memory_store \<times> unit pyresult" where
  "py_rebuild_index E ops sf ws ms =
     (case ms_rebuild_index E ops sf ws ms of (ms', res) \<Rightarrow> (ms', map_err py_memory_error res))"

section \<open>What a filter dictionary selects\<close>

text \<open>An id meets an item when the field has the value, or one of the values of a list.\<close>

definition meets_item :: "('p, 'j) py_env \<Rightarrow> (string \<times> string \<times> u64) set \<Rightarrow> u64 \<Rightarrow> 'p \<times> 'p \<Rightarrow> bool" where
  "meets_item X T i kv \<longleftrightarrow> (\<exists>field. px_string X (fst kv) = Ok field \<and>
     (case px_string X (snd kv) of
        Ok s \<Rightarrow> (field, s, i) \<in> T
      | _ \<Rightarrow> (\<exists>ss. px_strings X (snd kv) = Some ss \<and> (\<exists>s\<in>set ss. (field, s, i) \<in> T))))"

lemma filter_entry_meets:
  "filter_entry X kv = Ok e \<Longrightarrow> i \<in> denote T e \<longleftrightarrow> meets_item X T i kv"
  by (cases kv, cases "px_string X (fst kv)", cases "px_string X (snd kv)")
    (auto simp: filter_entry_def meets_item_def split: option.splits)

lemma filter_entries_meet:
  "omap (filter_entry X) d = Ok es \<Longrightarrow>
     length es = length d \<and> ((\<forall>e\<in>set es. i \<in> denote T e) \<longleftrightarrow> (\<forall>kv\<in>set d. meets_item X T i kv))"
  by (induction d arbitrary: es) (auto simp: outcome_iff filter_entry_meets)

lemma parse_filter_meets:
  assumes "parse_filter X (Some d) = Ok expr"
  shows "(case expr of None \<Rightarrow> d = [] | Some e \<Rightarrow> i \<in> denote T e \<longleftrightarrow> (\<forall>kv\<in>set d. meets_item X T i kv))"
proof -
  obtain es where es: "omap (filter_entry X) d = Ok es"
    and expr: "(case es of [] \<Rightarrow> Ok None | [e] \<Rightarrow> Ok (Some e) | _ \<Rightarrow> Ok (Some (FAnd es))) = (Ok expr :: filter_expr option pyresult)"
    using assms by (auto simp: parse_filter_def outcome_iff)
  from filter_entries_meet [OF es, of i T] expr show ?thesis
    by (cases es rule: remdups_adj.cases) auto
qed

lemma search_args:
  assumes "parse_filter X dict = Ok expr" "obind (pv_extract X query) pv_slice = Ok q"
  shows "py_search X R query k dict ix = map_err (py_vivy_error X) (vivy_search_filtered R q k expr ix)"
  using assms by (auto simp: py_search_def outcome_iff)

lemma parse_scope_names:
  assumes "parse_scope tenant namespace agent user = Ok sc"
  shows "sc_tenant sc = trim tenant" "sc_namespace sc = trim namespace" "scope_wf sc"
proof -
  obtain a b where "scope_new tenant namespace = Ok a"
    "(case agent of None \<Rightarrow> Ok a | Some x \<Rightarrow> scope_with_agent x a) = Ok b"
    "(case user of None \<Rightarrow> Ok b | Some x \<Rightarrow> scope_with_user x b) = Ok sc"
    using assms by (auto simp: parse_scope_def outcome_iff)
  then show "sc_tenant sc = trim tenant" "sc_namespace sc = trim namespace" "scope_wf sc"
    using scope_new_wf [of tenant namespace a] scope_with_agent_wf [of _ a b] scope_with_user_wf [of _ b sc]
    by (auto simp: scope_new_def scope_with_agent_def scope_with_user_def Let_def split: option.splits if_splits)
qed

lemma with_args_Ok_iff [outcome_iff]:
  "with_args args call err s = (s', Ok x) \<longleftrightarrow> (\<exists>a. args = Ok a \<and> call a = (s', Ok x))"
  by (auto simp: with_args_def outcome_iff split: outcome.splits prod.splits)

text \<open>A tombstoned record is still a row, read with the status deleted.\<close>

lemma tombstone_row:
  assumes "made_active E rec \<in> set (db_memories db)" "in_scope sc (made_active E rec)"
  shows "row_of_record E (rec\<lparr> mr_status := StDeleted, mr_updated := now \<rparr>) \<in> set (db_memories (tombstone sc (mr_id rec) now db))"
proof -
  have "row_of_record E (rec\<lparr> mr_status := StDeleted, mr_updated := now \<rparr>)
      = (made_active E rec)\<lparr> r_status := ''deleted'', r_updated := now \<rparr>" "r_id (made_active E rec) = mr_id rec"
    by (simp_all add: made_active_def row_of_record_def)
  with assms show ?thesis by (force simp: tombstone_def update_rows_def)
qed

lemma forgotten_reads:
  assumes "ms_forget E ops sf now \<lparr> fg_operation = None, fg_scope = sc, fg_id = mr_id rec \<rparr> ms = (ms', Ok ())" "env_ok E"
    and "db_inv (ms_db ms)" "record_ok rec" "made_active E rec \<in> set (db_memories (ms_db ms))"
    and "sc_tenant sc = sc_tenant (mr_scope rec)" "sc_namespace sc = sc_namespace (mr_scope rec)"
    and "sc_tenant sc' = sc_tenant sc" "sc_namespace sc' = sc_namespace sc"
  shows "ms_get E no_faults sc' (mr_id rec) ms' = Ok (Some ((reread E rec)\<lparr> mr_status := StDeleted, mr_updated := now \<rparr>))"
proof -
  let ?gone = "rec\<lparr> mr_status := StDeleted, mr_updated := now \<rparr>"
  obtain st where run: "coordinate_forget E ops sf now sc (mr_id rec) None (ms_journal ms) = (st, Ok ())"
    and ms': "ms' = ms\<lparr> ms_journal := st \<rparr>"
    using assms(1) by (auto simp: ms_forget_def on_journal_Ok_iff)
  obtain d where d: "repo_delete E sf sc (mr_id rec) None now (ms_db ms) = (d, Ok ())" and db: "ms_db ms' = d"
    using run by (rule coordinate_forget_Ok) (auto simp: ms_db_def ms')
  have "d = tombstone sc (mr_id rec) now (ms_db ms)" using repo_delete_Ok [OF d] by (simp add: op_added_def)
  moreover have "in_scope sc (made_active E rec)" using assms(6,7) by (simp add: made_active_def row_of_record_def in_scope_def)
  ultimately have r: "row_of_record E ?gone \<in> set (db_memories d)" using tombstone_row [OF assms(5)] by simp
  have inv: "db_wf d" using db_step_inv [OF delete_one [OF d] assms(3)] by (simp add: db_inv_def)
  have "record_ok ?gone" using assms(4) by (simp add: record_ok_def)
  from record_roundtrip [OF this, of E StPending]
  have conv: "record_of_row E StPending (row_of_record E ?gone) = Ok ((reread E rec)\<lparr> mr_status := StDeleted, mr_updated := now \<rparr>)"
    by simp
  have "in_scope sc' (row_of_record E ?gone)" "r_id (row_of_record E ?gone) = mr_id rec"
    using assms(6-9) by (simp_all add: row_of_record_def in_scope_def)
  with repo_get_row [OF assms(2) inv r _ conv] show ?thesis by (simp add: ms_get_def db)
qed

section \<open>Properties\<close>

text \<open>C21: Filtered search from Python means what the dictionary says. When the filter converts and the query
  is a vector of the index's dimension, and while every shard holds at most 33 unsealed entries and no
  entry is at a NaN distance from the query, \<open>Index.search\<close> returns the nearest \<open>k\<close> of exactly those
  entries whose tags meet every item of the dictionary, a string as that value and a list as any of its
  values; an empty dictionary restricts nothing, as no dictionary does. (Larger shards are searched
  approximately.)\<close>

theorem py_search_exact:
  assumes "parse_filter X dict = Ok expr" "obind (pv_extract X query) pv_slice = Ok q" "length q = vx_dims ix"
    and "order_ok R" "bitmap_ok R B" "vivy_wf R m ix" "small_shards ix" "filter_wf (vx_filter ix)"
    and "\<forall>(i, v)\<in>set (vivy_entries ix). \<not> is_nan (compute m q v)"
  shows "\<exists>hits. py_search X R query k dict ix = Ok hits
     \<and> nearest k (map (\<lambda>(i, v). (i, compute m q v))
          (filter (\<lambda>(i, v). \<forall>kv\<in>set (case dict of None \<Rightarrow> [] | Some d \<Rightarrow> d). meets_item X (tags B (vx_filter ix)) i kv)
             (vivy_entries ix))) hits"
proof -
  let ?d = "case dict of None \<Rightarrow> [] | Some d \<Rightarrow> d" and ?T = "tags B (vx_filter ix)"
  have f: "case expr of None \<Rightarrow> ?d = [] | Some e \<Rightarrow> i \<in> denote ?T e \<longleftrightarrow> (\<forall>kv\<in>set ?d. meets_item X ?T i kv)" for i
  proof (cases dict)
    case None
    then show ?thesis using assms(1) by (simp add: parse_filter_def)
  next
    case (Some d)
    then show ?thesis using parse_filter_meets [of X d expr i ?T] assms(1) by (simp split: option.splits)
  qed
  show ?thesis
  proof (cases expr)
    case None
    then have "?d = []" using f by simp
    then show ?thesis
      using vivy_collect_exact [OF assms(4,6,7,9), of k None] assms(3) search_args [OF assms(1,2), of R k ix] None
      by (auto simp: vivy_search_filtered_def entry_hits_def keep_hits_def)
  next
    case (Some e)
    then have "(\<lambda>(i, v). \<forall>kv\<in>set ?d. meets_item X ?T i kv) = (\<lambda>(i, v :: f32 list). i \<in> denote ?T e)" using f by simp
    with vivy_filtered_exact [OF assms(4-8,3,9), of k e] search_args [OF assms(1,2), of R k ix] Some
    show ?thesis by auto
  qed
qed

text \<open>Objects for the witnesses: strings and \<open>float32\<close> arrays.\<close>

definition demo_python :: "(string + f32 list, string) py_env" where
  "demo_python = \<lparr> px_array1 = (\<lambda>p. case p of Inl _ \<Rightarrow> None | Inr v \<Rightarrow> Some (v, None)), px_array2 = (\<lambda>_. None),
     px_interface = (\<lambda>_. Ok False), px_floats = (\<lambda>_. None), px_list = (\<lambda>_. None),
     px_string = (\<lambda>p. case p of Inl s \<Rightarrow> Ok s | Inr _ \<Rightarrow> Err (PyTypeError ''not a string'')), px_strings = (\<lambda>_. None),
     px_bool = (\<lambda>_. None), px_int = (\<lambda>_. None), px_double = (\<lambda>_. None), px_float = (\<lambda>_. None), px_dict = (\<lambda>_. None),
     px_item = (\<lambda>_ _. Ok None), px_json_bool = (\<lambda>b. if b then ''true'' else ''false''), px_json_int = (\<lambda>_. ''0''),
     px_json_double = (\<lambda>_. None), px_json_string = (\<lambda>s. s), px_io_text = (\<lambda>_. ''I/O'') \<rparr>"

theorem py_search_exact_witness:
  "\<exists>hits. py_search demo_python demo_runtime (Inr [f_two]) 3 (Some [(Inl ''color'', Inl ''red'')]) demo_index = Ok hits
     \<and> nearest 3 [(5, compute L2 [f_two] [f_one])] hits"
proof -
  have f: "vx_filter demo_index = filter_of demo_runtime [(5, ''color'', ''red'')]" by (simp add: demo_index_def)
  have wf: "filter_wf (vx_filter demo_index)" unfolding f by (rule filter_of_wf)
  have expr: "parse_filter demo_python (Some [(Inl ''color'', Inl ''red'')]) = Ok (Some (FEquals ''color'' ''red''))"
    by (simp add: parse_filter_def filter_entry_def demo_python_def)
  have q: "obind (pv_extract demo_python (Inr [f_two])) pv_slice = Ok [f_two]"
    by (simp add: pv_extract_def demo_python_def)
  have "meets_item demo_python (tags (\<lambda>b. b) (vx_filter demo_index)) i (Inl ''color'', Inl ''red'') \<longleftrightarrow> i = 5" for i
    unfolding f filter_of_tags [OF demo_bitmap_ok] by (simp add: meets_item_def demo_python_def)
  then show ?thesis
    using py_search_exact [OF expr q _ demo_order_ok demo_bitmap_ok demo_index_facts(1,2) wf demo_index_facts(5), of 3]
    by (simp add: demo_index_facts(3,4))
qed

text \<open>C22: The life of a memory in Python. After \<open>remember\<close> returns an id, \<open>get\<close> in the same tenant and
  namespace gives the dictionary with the content, importance, expiry and times of the call at
  revision 1, whoever the agent and the user of the reader are; after \<open>forget\<close> of that id succeeds, \<open>get\<close>
  gives \<open>None\<close>, without an error, although the row is still in the database.\<close>

theorem py_remember_get_forget:
  fixes X :: "('p, 'j) py_env"
  assumes "py_remember X E ops jf w uuid now now2 tenant namespace content embedding kind importance agent user oper expires
      metadata ms = (ms1, Ok i)"
    and "py_forget E ops sf later tenant namespace i ms1 = (ms2, Ok ())"
    and "parse_scope tenant namespace reader_agent reader_user = Ok reader"
    and "env_ok E" "(db_step E)\<^sup>*\<^sup>* empty_db (ms_db ms)" "trim uuid = uuid" "valid_utf8 content" "cg_dims (ms_config ms) < 2 ^ 64"
    and "\<And>op. oper = Some op \<Longrightarrow> op \<notin> o_id ` set (db_ops (ms_db ms))"
  shows "py_get E no_faults tenant namespace i reader_agent reader_user ms1
      = Ok (Some \<lparr> pm_id = uuid, pm_tenant = trim tenant, pm_namespace = trim namespace, pm_content = content,
          pm_importance = importance, pm_revision = 1, pm_created = now, pm_updated = now, pm_expires = expires \<rparr>)
    \<and> py_get E no_faults tenant namespace i reader_agent reader_user ms2 = Ok None"
proof -
  obtain sc v meta rq where scope: "parse_scope tenant namespace agent user = Ok sc"
    and meta: "default_metadata X metadata = Ok meta"
    and rq: "rq = \<lparr> rq_operation = oper, rq_scope = sc, rq_content = content, rq_embedding = v, rq_kind = py_kind kind,
             rq_importance = importance, rq_expires = expires, rq_metadata = map_of meta, rq_source = (\<lambda>_. None) \<rparr>"
    and run: "ms_remember E ops jf w uuid now now2 rq ms = (ms1, Ok i)"
    using assms(1) by (auto simp: py_remember_def outcome_iff)
  let ?rec = "new_record E (ms_config ms) uuid now rq"
  have fields: "mr_id ?rec = uuid" "rq_scope rq = sc" by (simp_all add: rq)
  have ok: "record_ok ?rec"
    using assms(7,8) parse_scope_names(3) [OF scope] by (simp add: record_ok_def new_record_def rq)
  have "i = uuid" "made_active E ?rec \<in> set (db_memories (ms_db ms1))" "db_inv (ms_db ms1)"
    using remembered_row [OF run assms(5)] parse_scope_names(3) [OF scope] assms(9) by (simp_all add: rq)
  note row = this
  obtain fsc where fsc: "scope_new tenant namespace = Ok fsc"
    and forget: "ms_forget E ops sf later \<lparr> fg_operation = None, fg_scope = fsc, fg_id = mr_id ?rec \<rparr> ms1 = (ms2, Ok ())"
    using assms(2,6) row(1) by (auto simp: py_forget_def outcome_iff forget_new_def Let_def fields split: if_splits)
  have names: "sc_tenant fsc = sc_tenant sc" "sc_namespace fsc = sc_namespace sc"
    "sc_tenant reader = sc_tenant sc" "sc_namespace reader = sc_namespace sc" "sc_tenant sc = trim tenant" "sc_namespace sc = trim namespace"
    using parse_scope_names [OF scope] parse_scope_names [OF assms(3)] parse_scope_names [of tenant namespace None None fsc] fsc
    by (simp_all add: parse_scope_def)
  have "ms_get E no_faults reader uuid ms1 = Ok (Some ((reread E ?rec)\<lparr> mr_status := StActive \<rparr>))"
    using active_row_reads [OF assms(4) row(3) ok row(2), of reader] names by (simp add: fields)
  moreover have "ms_get E no_faults reader uuid ms2 = Ok (Some ((reread E ?rec)\<lparr> mr_status := StDeleted, mr_updated := later \<rparr>))"
    using forgotten_reads [OF forget assms(4) row(3) ok row(2), of reader] names by (simp add: fields)
  ultimately show ?thesis
    by (simp add: py_get_def assms(3) row(1) py_memory_of_def reread_def fields names) (simp add: new_record_def rq)
qed

lemma demo_py_scope: "scope_new ''acme'' ''support'' = Ok demo_scope" "parse_scope ''acme'' ''support'' None None = Ok demo_scope"
proof -
  have "trim ''acme'' = ''acme''" "trim ''support'' = ''support''" by (rule trim_visible; simp)+
  then show "scope_new ''acme'' ''support'' = Ok demo_scope" by (simp add: scope_new_def demo_scope_def)
  then show "parse_scope ''acme'' ''support'' None None = Ok demo_scope" by (simp add: parse_scope_def)
qed

lemma demo_py_remember:
  "\<exists>ms1. py_remember demo_python demo_env (test_ops id) no_call_faults demo_world ''a'' 5 5 ''acme'' ''support'' ''sky is blue''
      (Inr [f_one]) ''Fact'' f_one None None (Some ''op'') None None demo_empty_store = (ms1, Ok ''a'')"
proof -
  have "pv_extract demo_python (Inr [f_one]) = Ok (PvNumPy [f_one] None)" "default_metadata demo_python None = Ok []"
    by (simp_all add: pv_extract_def demo_python_def default_metadata_def)
  moreover have "py_kind ''Fact'' = KFact" by code_simp
  ultimately show ?thesis
    using demo_remembered by (auto simp: py_remember_def with_args_def demo_py_scope demo_remember_def)
qed

lemma demo_py_forget:
  "\<exists>ms2. py_forget demo_env (test_ops id) no_faults 9 ''acme'' ''support'' ''a'' ms1 = (ms2, Ok ())"
proof -
  have "trim ''a'' = ''a''" by (rule trim_visible) simp_all
  then show ?thesis
    by (simp add: py_forget_def demo_py_scope forget_new_def with_args_def ms_forget_def on_journal_def coordinate_forget_def
        on_db_def on_index_def repo_delete_def transact_def test_ops_def ti_remove_def)
qed

theorem py_remember_get_forget_witness:
  "\<exists>ms1 ms2. py_remember demo_python demo_env (test_ops id) no_call_faults demo_world ''a'' 5 5 ''acme'' ''support'' ''sky is blue''
      (Inr [f_one]) ''Fact'' f_one None None (Some ''op'') None None demo_empty_store = (ms1, Ok ''a'')
    \<and> py_forget demo_env (test_ops id) no_faults 9 ''acme'' ''support'' ''a'' ms1 = (ms2, Ok ())
    \<and> py_get demo_env no_faults ''acme'' ''support'' ''a'' (Some ''bot'') None ms1
      = Ok (Some \<lparr> pm_id = ''a'', pm_tenant = ''acme'', pm_namespace = ''support'', pm_content = ''sky is blue'',
          pm_importance = f_one, pm_revision = 1, pm_created = 5, pm_updated = 5, pm_expires = None \<rparr>)
    \<and> py_get demo_env no_faults ''acme'' ''support'' ''a'' (Some ''bot'') None ms2 = Ok None"
proof -
  obtain ms1 ms2 where run: "py_remember demo_python demo_env (test_ops id) no_call_faults demo_world ''a'' 5 5 ''acme'' ''support''
      ''sky is blue'' (Inr [f_one]) ''Fact'' f_one None None (Some ''op'') None None demo_empty_store = (ms1, Ok ''a'')"
    "py_forget demo_env (test_ops id) no_faults 9 ''acme'' ''support'' ''a'' ms1 = (ms2, Ok ())"
    using demo_py_remember demo_py_forget by blast
  have trims: "trim ''acme'' = ''acme''" "trim ''support'' = ''support''" "trim ''bot'' = ''bot''" "trim ''a'' = ''a''"
    by (rule trim_visible; simp)+
  have reader: "parse_scope ''acme'' ''support'' (Some ''bot'') None = Ok (demo_scope\<lparr> sc_agent := Some ''bot'' \<rparr>)"
    by (simp add: parse_scope_def demo_py_scope scope_with_agent_def trims)
  have utf8: "valid_utf8 ''sky is blue''" by (rule valid_utf8_ascii) simp
  note facts = py_remember_get_forget [OF run reader demo_env_ok demo_empty_store_reached(1) trims(4) utf8]
  have "py_get demo_env no_faults ''acme'' ''support'' ''a'' (Some ''bot'') None ms1
      = Ok (Some \<lparr> pm_id = ''a'', pm_tenant = trim ''acme'', pm_namespace = trim ''support'', pm_content = ''sky is blue'',
          pm_importance = f_one, pm_revision = 1, pm_created = 5, pm_updated = 5, pm_expires = None \<rparr>)
    \<and> py_get demo_env no_faults ''acme'' ''support'' ''a'' (Some ''bot'') None ms2 = Ok None"
    by (rule facts) (simp_all add: demo_empty_store_reached(2), simp add: demo_empty_store_def)
  then show ?thesis using run unfolding trims by blast
qed

end
