(* ===== verification/Benchmark.thy ===== *)
theory Benchmark
  imports Store_Session
begin

text \<open>
  The benchmark driver (\<open>sim/src/main.rs\<close>): the runs of the engine and of the store that it measures, in
  the order of the code. Timers and printed lines are left out; a run gives the counts that are printed.
  Every \<open>unwrap\<close> is a panic on an error.
\<close>

section \<open>The data\<close>

text \<open>\<open>rng\<close>: the values the generator gives, in the order in which they are drawn.\<close>

definition random_vectors :: "(nat \<Rightarrow> f32) \<Rightarrow> nat \<Rightarrow> nat \<Rightarrow> nat \<Rightarrow> f32 list list" where
  "random_vectors rng start dims n = map (\<lambda>i. map (\<lambda>j. rng (start + i * dims + j)) [0..<dims]) [0..<n]"

definition generate_vector_dataset :: "(nat \<Rightarrow> f32) \<Rightarrow> nat \<Rightarrow> nat \<Rightarrow> nat \<Rightarrow> f32 list list \<times> f32 list list" where
  "generate_vector_dataset rng dims record_count query_count =
     (random_vectors rng 0 dims record_count, random_vectors rng (record_count * dims) dims query_count)"

section \<open>The engine\<close>

definition bench_flat :: "f32 list list \<Rightarrow> flat_index" where
  "bench_flat dataset = foldl (\<lambda>fx (idx, v). flat_insert (word_of_nat (idx + 1)) v fx) (flat_new L2) (zip [0..<length dataset] dataset)"

definition ground_truth :: "'b runtime \<Rightarrow> flat_index \<Rightarrow> nat \<Rightarrow> f32 list list \<Rightarrow> u64 list list vresult" where
  "ground_truth R fx top_k queries = omap (\<lambda>q. obind (flat_search R fx q top_k) (\<lambda>hits. Ok (map fst hits))) queries"

definition unwrapped :: "'s \<times> ('e, 'a) outcome \<Rightarrow> ('s \<Rightarrow> 'a \<Rightarrow> ('x, 'c) outcome) \<Rightarrow> ('x, 'c) outcome" where
  "unwrapped run f = (case run of (s, res) \<Rightarrow> obind (no_err res) (f s))"

text \<open>\<open>levels\<close>: what the generator of the graph levels gives for each insertion.\<close>

definition bench_index ::
  "'b runtime \<Rightarrow> (nat \<Rightarrow> f32) \<Rightarrow> log_faults \<Rightarrow> nat \<Rightarrow> f32 list list \<Rightarrow> 'b vivy_index vresult" where
  "bench_index R levels lf dims dataset =
     obind (no_err (vivy_new R (\<lambda>_. f_zero) None None dims L2 None None)) (\<lambda>ix.
     ofold (\<lambda>ix (n, v). unwrapped (vivy_insert R (levels n) lf v ix) (\<lambda>ix' _. Ok ix')) ix (zip [0..<length dataset] dataset))"

definition count_hits :: "u64 list \<Rightarrow> (u64 \<times> f32) list \<Rightarrow> nat" where
  "count_hits truth results = length (filter (\<lambda>i. i \<in> fst ` set results) truth)"

definition bench_queries :: "'b runtime \<Rightarrow> 'b vivy_index \<Rightarrow> nat \<Rightarrow> f32 list list \<Rightarrow> u64 list list \<Rightarrow> nat vresult" where
  "bench_queries R ix top_k queries truths =
     ofold (\<lambda>hits (q, truth). obind (no_err (vivy_search R q top_k ix)) (\<lambda>results. Ok (hits + count_hits truth results)))
       0 (zip queries truths)"

definition recall_score :: "nat \<Rightarrow> nat \<Rightarrow> u64" where
  "recall_score hits expected =
     (if expected = 0 then 0x7FF8000000000000 else f64_ratio (f64_of_count hits) (f64_of_count expected))"

text \<open>The hits and the recall of a run.\<close>

definition run_vector_engine_benchmark ::
  "'b runtime \<Rightarrow> (nat \<Rightarrow> f32) \<Rightarrow> (nat \<Rightarrow> f32) \<Rightarrow> log_faults \<Rightarrow> nat \<Rightarrow> nat \<Rightarrow> nat \<Rightarrow> nat \<Rightarrow> (nat \<times> u64) vresult" where
  "run_vector_engine_benchmark R rng levels lf dims record_count query_count top_k =
     (case generate_vector_dataset rng dims record_count query_count of
        (dataset, queries) \<Rightarrow>
          obind (ground_truth R (bench_flat dataset) top_k queries) (\<lambda>truths.
          obind (bench_index R levels lf dims dataset) (\<lambda>ix.
          obind (omap (\<lambda>q. no_err (vivy_search R q top_k ix)) (take 5 queries)) (\<lambda>_.
          obind (bench_queries R ix top_k queries truths) (\<lambda>hits.
          Ok (hits, recall_score hits (query_count * top_k)))))))"

section \<open>The store\<close>

text \<open>What a run takes from outside: the plan of each opening, the files of the second one, random
  vectors and ids; clocks, faults and the world of the index for each call of each phase.\<close>

record bench_world =
  bw_plan :: "nat \<Rightarrow> open_plan"
  bw_files :: "bytes option \<times> data_dir"
  bw_random :: "nat \<Rightarrow> f32"
  bw_uuid :: "nat \<Rightarrow> string"
  bw_clock :: "nat \<Rightarrow> nat \<Rightarrow> i64"
  bw_calls :: "nat \<Rightarrow> call_faults"
  bw_faults :: "nat \<Rightarrow> nat \<Rightarrow> sql_faults"
  bw_index :: "nat \<Rightarrow> nat \<Rightarrow> index_world"

definition bench_config :: "string \<Rightarrow> nat \<Rightarrow> memory_config mresult" where
  "bench_config path dims = builder_build (builder_model ''benchmark-model'' (builder_dims dims (builder_new path)))"

definition bench_request :: "memory_scope \<Rightarrow> f32 list \<Rightarrow> nat \<Rightarrow> 'j remember_request" where
  "bench_request sc v idx =
     \<lparr> rq_operation = None, rq_scope = sc, rq_content = ''Benchmark record #'' @ nat_str idx @ '' with domain search text item'',
       rq_embedding = v, rq_kind = KFact, rq_importance = f_lit 8 10, rq_expires = None, rq_metadata = (\<lambda>_. None),
       rq_source = (\<lambda>_. None) \<rparr>"

definition bench_remembers ::
  "'j store_env \<Rightarrow> 'b adapter_env \<Rightarrow> bench_world \<Rightarrow> memory_scope \<Rightarrow> nat \<Rightarrow> nat \<Rightarrow> 'b vivy_vector_index memory_store
    \<Rightarrow> ('b vivy_vector_index memory_store \<times> string list) mresult" where
  "bench_remembers E A bw sc dims initial_records ms =
     ofold (\<lambda>(ms, ids) (idx, v).
         unwrapped (ms_remember E (vivy_ops A) (bw_calls bw idx) (bw_index bw 0 idx) (bw_uuid bw idx) (bw_clock bw 0 (2 * idx))
                      (bw_clock bw 0 (2 * idx + 1)) (bench_request sc v idx) ms)
           (\<lambda>ms' i. Ok (ms', ids @ [i])))
       (ms, []) (zip [0..<initial_records] (random_vectors (bw_random bw) 0 dims initial_records))"

definition bench_recall :: "memory_scope \<Rightarrow> f32 list \<Rightarrow> 'j recall_request" where
  "bench_recall sc q =
     \<lparr> rc_scope = sc, rc_query = q, rc_text = Some ''domain search text'', rc_limit = 10, rc_filters = filter_default,
       rc_explain = True, rc_lambda = Some (f_lit 7 10) \<rparr>"

definition bench_recalls ::
  "'j store_env \<Rightarrow> 'b adapter_env \<Rightarrow> bench_world \<Rightarrow> memory_scope \<Rightarrow> f32 list list \<Rightarrow> 'b vivy_vector_index memory_store
    \<Rightarrow> unit mresult" where
  "bench_recalls E A bw sc queries ms =
     ofold (\<lambda>_ (n, q). obind (no_err (ms_recall E (vivy_ops A) (bw_faults bw 1 (2 * n)) (bw_faults bw 1 (2 * n + 1))
                               (bw_clock bw 1 n) (bench_recall sc q) ms)) (\<lambda>_. Ok ()))
       () (zip [0..<length queries] queries)"

definition bench_forgets ::
  "'j store_env \<Rightarrow> 'b adapter_env \<Rightarrow> bench_world \<Rightarrow> memory_scope \<Rightarrow> string list \<Rightarrow> 'b vivy_vector_index memory_store
    \<Rightarrow> 'b vivy_vector_index memory_store mresult" where
  "bench_forgets E A bw sc ids ms =
     ofold (\<lambda>ms (n, i). unwrapped (ms_forget E (vivy_ops A) (bw_faults bw 2 n) (bw_clock bw 2 n)
                            \<lparr> fg_operation = None, fg_scope = sc, fg_id = i \<rparr> ms) (\<lambda>ms' _. Ok ms'))
       ms (zip [0..<length ids] ids)"

definition empty_dir :: data_dir where
  "empty_dir = \<lparr> dd_manifest = None, dd_tmp = None, dd_files = [] \<rparr>"

text \<open>The number of purged rows of a run and the store it ends with.\<close>

definition run_memory_store_benchmark ::
  "'j store_env \<Rightarrow> 'b adapter_env \<Rightarrow> bench_world \<Rightarrow> string \<Rightarrow> nat \<Rightarrow> nat \<Rightarrow> nat
    \<Rightarrow> (nat \<times> 'b vivy_vector_index memory_store) mresult" where
  "run_memory_store_benchmark E A bw path dims initial_records test_queries =
     obind (no_err (bench_config path dims)) (\<lambda>cfg.
     unwrapped (ms_open E A (bw_plan bw 0) cfg empty_db None empty_dir) (\<lambda>_ store.
     obind (no_err (scope_new ''bench-tenant'' ''bench-namespace'')) (\<lambda>sc.
     obind (bench_remembers E A bw sc dims initial_records store) (\<lambda>(store1, inserted_ids).
     unwrapped (ms_open E A (bw_plan bw 1) cfg (ms_db store1) (fst (bw_files bw)) (snd (bw_files bw))) (\<lambda>_ reopened.
     obind (bench_recalls E A bw sc (random_vectors (bw_random bw) (initial_records * dims) dims test_queries) reopened) (\<lambda>_.
     obind (bench_forgets E A bw sc (take (initial_records div 5) inserted_ids) reopened) (\<lambda>store2.
     unwrapped (ms_vacuum E (vivy_ops A) (bw_faults bw 3 0) (bw_faults bw 3 1) (bw_index bw 3) 100 (bw_clock bw 3 0) store2) (\<lambda>store3 purged.
     Ok (purged, store3)))))))))"

text \<open>\<open>main\<close>: two runs of the engine and one of the store.\<close>

definition bench_main ::
  "'b runtime \<Rightarrow> (nat \<Rightarrow> nat \<Rightarrow> f32) \<Rightarrow> (nat \<Rightarrow> nat \<Rightarrow> f32) \<Rightarrow> log_faults \<Rightarrow> 'j store_env \<Rightarrow> 'b adapter_env \<Rightarrow> bench_world \<Rightarrow> string
    \<Rightarrow> ((nat \<times> u64) list \<times> nat) mresult" where
  "bench_main R rng levels lf E A bw path =
     obind (no_err (run_vector_engine_benchmark R (rng 0) (levels 0) lf 64 2000 50 10)) (\<lambda>small.
     obind (no_err (run_vector_engine_benchmark R (rng 1) (levels 1) lf 512 1000 50 10)) (\<lambda>large.
     obind (run_memory_store_benchmark E A bw path 128 500 50) (\<lambda>(purged, store).
     Ok ([small, large], purged))))"

section \<open>What the runs measure\<close>

lemma random_vectors_shape: "length (random_vectors rng s dims n) = n" "v \<in> set (random_vectors rng s dims n) \<Longrightarrow> length v = dims"
  by (auto simp: random_vectors_def)

lemma flat_search_length: "flat_search R fx q k = Ok hits \<Longrightarrow> length hits \<le> k"
  by (auto simp: flat_search_def outcome_iff)

lemma ground_truth_lengths:
  "ground_truth R fx k qs = Ok truths \<Longrightarrow> length truths = length qs \<and> list_all (\<lambda>t. length t \<le> k) truths"
  unfolding ground_truth_def
  by (induction qs arbitrary: truths) (auto simp: outcome_iff dest: flat_search_length)

lemma count_hits_le: "count_hits truth results \<le> length truth"
  by (simp add: count_hits_def)

lemma bench_queries_le:
  assumes "bench_queries R ix k qs truths = Ok hits" "list_all (\<lambda>t. length t \<le> k) truths"
  shows "hits \<le> length truths * k"
proof -
  let ?f = "\<lambda>hits (q, truth). obind (no_err (vivy_search R q k ix)) (\<lambda>results. Ok (hits + count_hits truth results))"
  have "m \<le> n + length ps * k"
    if "ofold ?f n ps = (Ok m :: nat vresult)" "list_all (\<lambda>(q, t). length t \<le> k) ps" for n m ps
    using that
  proof (induction ps arbitrary: n)
    case (Cons p ps)
    obtain q t where p: "p = (q, t)" by fastforce
    with Cons.prems obtain results where r: "ofold ?f (n + count_hits t results) ps = (Ok m :: nat vresult)" and t: "length t \<le> k"
      by (auto simp: outcome_iff)
    have "m \<le> n + count_hits t results + length ps * k" using Cons.IH [OF r] Cons.prems(2) by simp
    then show ?case using count_hits_le [of t results] t by simp
  qed simp
  moreover have "list_all (\<lambda>(q, t). length t \<le> k) (zip qs truths)"
    using assms(2) by (auto simp: list_all_iff dest: set_zip_rightD)
  ultimately have "hits \<le> 0 + length (zip qs truths) * k" using assms(1) unfolding bench_queries_def by blast
  then show ?thesis by (simp add: order_trans [OF _ mult_le_mono1 [of _ "length truths"]])
qed

lemma bench_hits_bounded:
  assumes "run_vector_engine_benchmark R rng levels lf dims n qn k = Ok (hits, score)"
  shows "hits \<le> qn * k \<and> score = recall_score hits (qn * k)"
proof -
  let ?qs = "random_vectors rng (n * dims) dims qn"
  obtain truths ix where t: "ground_truth R (bench_flat (random_vectors rng 0 dims n)) k ?qs = Ok truths"
    and b: "bench_queries R ix k ?qs truths = Ok hits" and s: "score = recall_score hits (qn * k)"
    using assms by (auto simp: run_vector_engine_benchmark_def generate_vector_dataset_def outcome_iff)
  have "length truths = qn" "list_all (\<lambda>t. length t \<le> k) truths"
    using ground_truth_lengths [OF t] by (simp_all add: random_vectors_shape)
  with bench_queries_le [OF b] show ?thesis by (simp add: s)
qed

section \<open>Small runs measure full recall\<close>

lemma nearest_unique:
  assumes "nearest k hs xs" "nearest k hs ys" "distinct (map (\<lambda>hit. of_key (snd hit)) hs)"
  shows "xs = ys"
proof -
  let ?key = "\<lambda>hit. of_key (snd hit)"
  have full: "\<exists>rest. sorted (map ?key (zs @ rest)) \<and> mset (zs @ rest) = mset hs" if near: "nearest k hs zs" for zs
  proof -
    obtain rest where z: "sorted (map ?key zs)" and r: "mset (zs @ rest) = mset hs" "\<forall>a\<in>set zs. \<forall>b\<in>set rest. ?key a \<le> ?key b"
      using near by (auto simp: nearest_def)
    have "sorted (map ?key (zs @ sort_key ?key rest))" using z r(2) by (simp add: sorted_append)
    moreover have "mset (zs @ sort_key ?key rest) = mset hs" using r(1) by simp
    ultimately show ?thesis by blast
  qed
  obtain r1 r2 where 1: "sorted (map ?key (xs @ r1))" "mset (xs @ r1) = mset hs"
    and 2: "sorted (map ?key (ys @ r2))" "mset (ys @ r2) = mset hs" using full [OF assms(1)] full [OF assms(2)] by blast
  have d: "distinct (map ?key zs)" if "mset zs = mset hs" for zs
    using assms(3) mset_eq_imp_distinct_iff [of "map ?key zs" "map ?key hs"] that by (simp only: mset_map)
  have sets: "set (xs @ r1) = set hs" "set (ys @ r2) = set hs" using mset_eq_setD 1(2) 2(2) by blast+
  have "inj_on ?key (set (xs @ r1) \<union> set (ys @ r2))" unfolding sets using assms(3) by (simp add: distinct_map)
  from map_sorted_distinct_set_unique [OF this 1(1) d [OF 1(2)] 2(1) d [OF 2(2)]] have "xs @ r1 = ys @ r2" using sets by simp
  moreover have "length xs = length ys" using assms(1,2) by (simp add: nearest_def)
  ultimately show ?thesis by simp
qed

lemma memory_insert:
  assumes "order_ok R" "vivy_wf R m ix" "vx_wal ix = None" "length v = vx_dims ix" "vivy_dists_ok m ix [v]" "level_ok R (vx_dims ix) m r"
  shows "\<exists>ix'. vivy_insert R r lf v ix = (ix', Ok (vx_next_id ix)) \<and> vivy_wf R m ix' \<and> vx_wal ix' = None
    \<and> vx_sealed ix' = vx_sealed ix \<and> vx_dims ix' = vx_dims ix \<and> vx_next_id ix' = vx_next_id ix + 1
    \<and> mset (delta_entries ix') = add_mset (vx_next_id ix, v) (mset (delta_entries ix))"
proof -
  let ?ix = "ix\<lparr> vx_next_id := vx_next_id ix + 1 \<rparr>"
  have wf: "vivy_wf R m ?ix" "vivy_dists_ok m ?ix [v]"
    using assms(2,5) by (simp_all add: vivy_wf_def vivy_dists_ok_def delta_entries_def)
  obtain ix' res where s: "shard_insert R r (vx_next_id ix) v ?ix = (ix', res)" by fastforce
  have spec: "res = Ok () \<and> shard_inserted R m ?ix (vx_next_id ix) v ix'"
    using shard_insert_spec [OF assms(1) wf(1), where v = v and r = r and i = "vx_next_id ix"] s wf(2) assms(4,6)
    by (cases res) auto
  moreover have "vivy_insert R r lf v ix = (ix', Ok (vx_next_id ix))"
    using s spec assms(3,4) by (simp add: vivy_insert_def vivy_log_def Let_def)
  ultimately show ?thesis using assms(3) by (auto simp: shard_inserted_def delta_entries_def)
qed

definition numbered :: "nat \<Rightarrow> f32 list list \<Rightarrow> (u64 \<times> f32 list) list" where
  "numbered k vs = map (\<lambda>(n, v). (word_of_nat (n + 1), v)) (zip [k..<k + length vs] vs)"

lemma numbered_Cons: "numbered k (v # vs) = (word_of_nat (k + 1), v) # numbered (Suc k) vs"
  by (simp add: numbered_def upt_conv_Cons del: upt_Suc)

lemma bench_flat_of: "bench_flat vs = flat_of L2 (numbered 0 vs)"
  unfolding bench_flat_def flat_of_def numbered_def foldl_map by (simp add: case_prod_unfold)

definition filled :: "'b runtime \<Rightarrow> nat \<Rightarrow> nat \<Rightarrow> (u64 \<times> f32 list) list \<Rightarrow> 'b vivy_index \<Rightarrow> bool" where
  "filled R dims k es ix \<longleftrightarrow> vivy_wf R L2 ix \<and> vx_wal ix = None \<and> vx_sealed ix = [] \<and> vx_dims ix = dims
     \<and> vx_next_id ix = word_of_nat (k + 1) \<and> mset (delta_entries ix) = mset es"

lemma fill:
  assumes "order_ok R" "dists_ok L2 (map snd es @ vs)" "list_all (\<lambda>v. length v = dims) vs"
    and "\<And>n. level_ok R dims L2 (levels n)" "filled R dims k es ix"
  shows "\<exists>ix'. ofold (\<lambda>ix (n, v). unwrapped (vivy_insert R (levels n) lf v ix) (\<lambda>ix' _. Ok ix')) ix (zip [k..<k + length vs] vs)
      = (Ok ix' :: ('e, _) outcome) \<and> filled R dims (k + length vs) (es @ numbered k vs) ix'"
  using assms(2,3,5)
proof (induction vs arbitrary: k es ix)
  case Nil
  then show ?case by (simp add: numbered_def)
next
  case (Cons v vs)
  have f: "vivy_wf R L2 ix" "vx_wal ix = None" "vx_dims ix = dims" "vx_next_id ix = word_of_nat (k + 1)"
    "mset (delta_entries ix) = mset es" "vx_sealed ix = []" using Cons.prems(3) by (simp_all add: filled_def)
  have "set (map snd (delta_entries ix)) = set (map snd es)" using mset_eq_setD [OF f(5)] by simp
  then have "vivy_dists_ok L2 ix [v]" using Cons.prems(1) unfolding vivy_dists_ok_def by (elim dists_ok_subset) auto
  from memory_insert [OF assms(1) f(1,2) _ this, of "levels k" lf] Cons.prems(2) assms(4)
  obtain ix1 where i: "vivy_insert R (levels k) lf v ix = (ix1, Ok (word_of_nat (k + 1)))"
    and f1: "filled R dims (Suc k) (es @ [(word_of_nat (k + 1), v)]) ix1"
    by (auto simp: f filled_def)
  have d: "dists_ok L2 (map snd (es @ [(word_of_nat (k + 1) :: u64, v)]) @ vs)" using Cons.prems(1) by simp
  have l: "list_all (\<lambda>v. length v = dims) vs" using Cons.prems(2) by simp
  from Cons.IH [OF d l f1] show ?case
    by (simp add: upt_conv_Cons numbered_Cons unwrapped_def i del: upt_Suc)
qed

lemma bench_index_filled:
  assumes "order_ok R" "dists_ok L2 vs" "list_all (\<lambda>v. length v = dims) vs" "\<And>n. level_ok R dims L2 (levels n)"
  shows "\<exists>ix. bench_index R levels lf dims vs = Ok ix \<and> filled R dims (length vs) (numbered 0 vs) ix"
proof -
  let ?ix = "\<lparr> vx_dims = dims, vx_shards = map (\<lambda>_. hnsw_new R dims L2) [0..<num_shards], vx_sealed = [],
         vx_filter = filter_new, vx_wal = None, vx_next_id = 1, vx_dir = None \<rparr>"
  have "filled R dims 0 [] ?ix"
    using shard_ok_new [of R dims L2] by (simp add: filled_def vivy_wf_def delta_entries_def hnsw_entries_def hnsw_new_def)
  from fill [OF assms(1) _ assms(3,4) this, where lf = lf] assms(2) show ?thesis
    by (simp add: bench_index_def vivy_new_memory)
qed

lemma count_own: "count_hits (map fst hits) hits = length hits"
proof -
  have "filter (\<lambda>i. i \<in> fst ` set hits) (map fst hits) = map fst hits" by (rule filter_True) simp
  then show ?thesis unfolding count_hits_def by simp
qed

lemma map_snd_numbered: "map snd (numbered k vs) = vs"
proof (induction vs arbitrary: k)
  case Nil
  then show ?case by (simp add: numbered_def)
qed (simp add: numbered_Cons)

lemma numbered_length: "length (numbered k vs) = length vs"
  by (simp add: numbered_def)

lemma filled_small:
  assumes "filled R dims k es ix" "length es \<le> 33"
  shows "small_shards ix"
  unfolding small_shards_def
proof
  fix h assume h: "h \<in> set (vx_shards ix)"
  have "length (delta_entries ix) = length es" using assms(1) mset_eq_len by (auto simp: filled_def)
  moreover have "length (hnsw_entries h) \<le> length (delta_entries ix)"
    using member_le_sum_list [of "length (hnsw_entries h)" "map (\<lambda>h. length (hnsw_entries h)) (vx_shards ix)"] h
    by (simp add: delta_entries_def length_concat o_def)
  ultimately show "hnsw_len h \<le> 33" using assms(2) by (simp add: hnsw_len_def hnsw_entries_length)
qed

text \<open>The scan and the index agree on every query that is at different distances of all vectors.\<close>

lemma filled_agrees:
  assumes "order_ok R" "filled R dims k es ix" "length es \<le> 33" "length q = dims"
    and nan: "\<forall>v\<in>set (map snd es). \<not> is_nan (compute L2 q v)" and d: "distinct (map (\<lambda>v. of_key (compute L2 q v)) (map snd es))"
  shows "\<exists>hits. flat_search R (flat_of L2 es) q n = (Ok hits :: ('e, _) outcome) \<and> vivy_search R q n ix = Ok hits
    \<and> length hits = min n (length es)"
proof -
  let ?all = "map (\<lambda>(i, v). (i, compute L2 q v)) es"
  have f: "vivy_wf R L2 ix" "vx_dims ix = dims" "mset (delta_entries ix) = mset es" "vx_sealed ix = []"
    using assms(2) by (simp_all add: filled_def)
  have en: "vivy_entries ix = delta_entries ix" by (simp add: vivy_entries_def sealed_entries_def f)
  have "\<forall>(i, v)\<in>set (vivy_entries ix). \<not> is_nan (compute L2 q v)"
    using nan mset_eq_setD [OF f(3)] unfolding en by force
  from vivy_collect_exact [OF assms(1) f(1) filled_small [OF assms(2,3)] this, of n None]
  obtain hits where h: "vivy_search R q n ix = Ok hits" and
    "nearest n (map (\<lambda>(i, v). (i, compute L2 q v)) (delta_entries ix)) hits"
    using f(2) assms(4) by (auto simp: vivy_search_def entry_hits_def keep_hits_def en)
  then have near: "nearest n ?all hits" by (elim nearest_mset) (simp add: f(3))
  have all: "flat_hits (flat_of L2 es) q = ?all" by (simp add: flat_hits_of compute_swap [of L2 _ q])
  have "\<forall>x\<in>set ?all. \<not> is_nan (snd x)" using nan by auto
  then have s: "sort_by_dist (rt_sort_hits R) ?all = (Ok (rt_sort_hits R ?all) :: ('e, _) outcome)" by (rule sort_by_dist_total)
  have so: "sort_ok (rt_sort_hits R)" using assms(1) by (simp add: order_ok_def)
  have "nearest n ?all (take n (rt_sort_hits R ?all))"
    by (rule nearest_take [OF sort_by_dist_Ok(1) [OF so s] of_key_sorted [OF so s]])
  moreover have "distinct (map (\<lambda>hit. of_key (snd hit)) ?all)" using d by (simp add: o_def case_prod_unfold)
  ultimately have "take n (rt_sort_hits R ?all) = hits" using near by (intro nearest_unique)
  then show ?thesis using h s near by (auto simp: flat_search_def all nearest_def)
qed

lemma small_run_finds_all:
  assumes "order_ok R" "n \<le> 33" "generate_vector_dataset rng dims n qn = (vs, qs)" "dists_ok L2 vs"
    and "\<And>l. level_ok R dims L2 (levels l)"
    and nan: "\<forall>q\<in>set qs. \<forall>v\<in>set vs. \<not> is_nan (compute L2 q v)"
    and d: "\<forall>q\<in>set qs. distinct (map (\<lambda>v. of_key (compute L2 q v)) vs)"
  shows "run_vector_engine_benchmark R rng levels lf dims n qn k = Ok (qn * min k n, recall_score (qn * min k n) (qn * k))"
proof -
  have vs: "vs = random_vectors rng 0 dims n" and qs: "qs = random_vectors rng (n * dims) dims qn"
    using assms(3) by (simp_all add: generate_vector_dataset_def)
  have len: "length vs = n" "length qs = qn" "list_all (\<lambda>v. length v = dims) vs" "list_all (\<lambda>v. length v = dims) qs"
    by (auto simp: vs qs random_vectors_shape list_all_iff)
  let ?es = "numbered 0 vs"
  obtain ix where ix: "bench_index R levels lf dims vs = Ok ix" and f: "filled R dims n ?es ix"
    using bench_index_filled [where levels = levels and lf = lf, OF assms(1,4) len(3) assms(5)] by (auto simp: len)
  have agree: "\<exists>hits. flat_search R (bench_flat vs) q k = (Ok hits :: (u64 \<times> f32) list vresult) \<and> vivy_search R q k ix = Ok hits
      \<and> length hits = min k n" if q: "q \<in> set qs" for q
    unfolding bench_flat_of using filled_agrees [OF assms(1) f, of q k] q assms(2) nan d len
    by (simp add: numbered_length map_snd_numbered list_all_iff)
  then obtain hit where hits: "\<forall>q\<in>set qs. flat_search R (bench_flat vs) q k = (Ok (hit q) :: (u64 \<times> f32) list vresult)
      \<and> vivy_search R q k ix = Ok (hit q) \<and> length (hit q) = min k n" by metis
  then have hit: "flat_search R (bench_flat vs) q k = (Ok (hit q) :: (u64 \<times> f32) list vresult)" "vivy_search R q k ix = Ok (hit q)"
    "length (hit q) = min k n" if "q \<in> set qs" for q
    using that by blast+
  have truths: "ground_truth R (bench_flat vs) k qs = Ok (map (\<lambda>q. map fst (hit q)) qs)"
    unfolding ground_truth_def by (rule omap_total) (simp add: hit)
  have warm: "omap (\<lambda>q. no_err (vivy_search R q k ix)) (take 5 qs) = (Ok (map hit (take 5 qs)) :: (u64 \<times> f32) list list vresult)"
    by (rule omap_total) (auto simp: hit dest: in_set_takeD)
  have step: "ofold (\<lambda>hits (q, truth). obind (no_err (vivy_search R q k ix)) (\<lambda>results. Ok (hits + count_hits truth results))) a
      (zip ps (map (\<lambda>q. map fst (hit q)) ps)) = (Ok (a + length ps * min k n) :: nat vresult)" if "set ps \<subseteq> set qs" for a ps
    using that
  proof (induction ps arbitrary: a)
    case (Cons q ps)
    then show ?case using hit [of q] by (simp add: count_own)
  qed simp
  have "bench_queries R ix k qs (map (\<lambda>q. map fst (hit q)) qs) = Ok (qn * min k n)"
    using step [of qs 0] by (simp only: bench_queries_def len add_0 order_refl)
  then show ?thesis
    by (simp add: run_vector_engine_benchmark_def assms(3) truths ix warm)
qed

end
