(* ===== verification/Spec2Isabelle.thy ===== *)
theory Spec2Isabelle
  imports Vivy_Durable Journal_Deletion Batch_Safety Python_Api Benchmark
begin

text \<open>
  A verification development for Vivy, a vector engine (\<open>vec/\<close>) and a long-term memory store on top of
  it (\<open>ltm/\<close>), both in Rust, with bindings for Python (\<open>py/\<close>).

  \<^bold>\<open>The program.\<close> The engine keeps vectors in eight HNSW graphs (the shards), seals them into segment
  files by compaction, records insertions in a write-ahead log and the segments in a manifest, and
  answers nearest-neighbour queries, filtered by tags. The store keeps memory records in SQLite with a
  journal of operations, keeps a vector index in step with the database through a coordinator that
  replays the journal at startup, and recalls memories by vector and full-text search.

  \<^bold>\<open>Theories.\<close>
  \<^item> \<open>Prelude\<close>: machine types, outcomes of a call (\<open>Ok\<close>, \<open>Err\<close>, \<open>Panic\<close>), loops that may stop, lists.
  \<^item> \<open>Float32\<close>, \<open>Distance\<close> (\<open>vec/src/distance.rs\<close>): binary32 arithmetic on bit patterns with one rounding
    per operation, and the three kernels over it.
  \<^item> \<open>Runtime\<close>: what the engine takes from outside the repository, with its documented behaviour.
  \<^item> \<open>Rust_String\<close>, \<open>Byte_Codec\<close>: strings as bytes with their UTF-8 checks, little-endian codecs.
  \<^item> \<open>Flat_Index\<close>, \<open>Filter_Index\<close> (\<open>flat.rs\<close>, \<open>filter.rs\<close>): the scan and the tag bitmaps.
  \<^item> \<open>Wal\<close>, \<open>Manifest\<close>, \<open>Segments\<close> (\<open>vec/src/storage/\<close>): the three file formats with every I/O fault.
  \<^item> \<open>Hnsw\<close>, \<open>Hnsw_Search\<close>, \<open>Hnsw_Insert\<close> (\<open>hnsw.rs\<close>): the graph, its search and its insertion.
  \<^item> \<open>Vivy_Index\<close>, \<open>Vivy_Entries\<close>, \<open>Vivy_Durable\<close> (\<open>concurrent.rs\<close>): one data directory, what a search
    over it returns, and its life over insertions, compactions, cut writes and reopenings as an
    inductive history with crashes between calls, in a log write and in a compaction.
  \<^item> \<open>Memory_Error\<close>, \<open>Memory_Model\<close> (\<open>error.rs\<close>, \<open>namespace.rs\<close>, \<open>model.rs\<close>, \<open>config.rs\<close>, \<open>crypto.rs\<close>,
    \<open>telemetry.rs\<close>, \<open>health.rs\<close>): the values of the store and their validation.
  \<^item> \<open>Memory_Db\<close>, \<open>Repository\<close>, \<open>Repository_Facts\<close>, \<open>Repository_Safety\<close> (\<open>repository.rs\<close>): the tables
    with their triggers, every statement with its possible fault, every method, and its properties. The
    locale \<open>database_invariant\<close> carries an invariant from the statements to every sequence of methods; it
    is interpreted on the well-formedness of the tables and on the agreement of the full-text table.
  \<^item> \<open>Index_Adapter\<close>, \<open>Adapter_Search\<close> (\<open>index_adapter.rs\<close>): the trait as a record of operations, its
    contract as the locale \<open>vector_index\<close>, interpreted on both implementations; its extension
    \<open>exact_index\<close>, for exact search after a rebuild.
  \<^item> \<open>Journal\<close>, \<open>Journal_Facts\<close>, \<open>Journal_Recovery\<close>, \<open>Journal_Safety\<close>, \<open>Journal_Deletion\<close>
    (\<open>journal.rs\<close>): the coordinator, recovery for every index with the contract, and its properties.
  \<^item> \<open>Memory_Store\<close>, \<open>Store_Safety\<close>, \<open>Recall_Safety\<close>, \<open>Store_Session\<close>, \<open>Batch_Safety\<close> (\<open>lib.rs\<close>): the
    public operations of the store, reading back what was written, one by one and in batches, what a
    recall returns and selects, and the steps of a session with the locale \<open>store_invariant\<close> that carries an invariant of one layer to all of them.
  \<^item> \<open>Python_Api\<close> (\<open>py/src/lib.rs\<close>): the two Python classes, conversions included.
  \<^item> \<open>Benchmark\<close> (\<open>sim/src/main.rs\<close>): the runs of the benchmark driver; a run of the engine on at most
    33 vectors measures full recall.

  \<^bold>\<open>Reading the model.\<close> A method on \<open>&mut self\<close> gives its new state with its outcome, also when it
  fails. Faults of the file system and of SQLite, clocks, random numbers and fresh identifiers are
  arguments, so a theorem holds for all of them; a crash between two steps leaves in the files and in
  the database what a run whose next step fails leaves there. Loops are structural recursions or have
  their termination proof; no fuel is used. Methods run one after the other.

  \<^bold>\<open>Conventions.\<close> Arithmetic that overflows panics, as in a debug build; a release build wraps (the level
  of an inserted node plus one in \<open>hnsw.rs\<close>, \<open>limit * 3 + 10\<close> in \<open>index_adapter.rs\<close>). A JSON object is a map
  with values of a type parameter; what the JSON library makes of it when it prints and parses it is
  \<open>json_reread\<close>, and \<open>env_ok\<close> takes it for the identity only on the objects that satisfy \<open>ev_plain\<close>
  (those without floating-point numbers, not nested too deep), since floating-point numbers need not be
  read back digit for digit. A scope restricts reads, searches and deletions by tenant and namespace, as
  the statements of \<open>repository.rs\<close> do; agent and user are stored only. On a file without tables an
  insertion fails, and the other statements find no rows. The scopes of the requests in a session are
  those that the constructors of \<open>namespace.rs\<close> let pass.

  \<^bold>\<open>Not modelled.\<close> Deserialisation of requests by serde (which does not run those constructors). Timers and printed lines of the benchmark driver, and the tests of the repository.
  What PyO3 finds in a Python object is a parameter, one function for each conversion.
  SQLite, FTS5 ranking, JSON printing, the roaring bitmaps, the unstable sort, \<open>ln\<close>, \<open>exp\<close> and the
  hashers are parameters; \<open>env_ok\<close>, \<open>order_ok\<close> and \<open>bitmap_ok\<close> state what is relied on. Threads inside a
  method are not interleaved.
\<close>

end
